(* ===== verification/Py_Prelude.thy ===== *)
theory Py_Prelude
  imports Main "HOL-Library.AList" "HOL-Library.Multiset" "HOL-Library.List_Lexorder"
    "HOL-Library.Char_ord" "HOL-Library.Product_Lexorder"
begin

text \<open>
  The part of Python that the consensus engine uses, shared by every component:
  \<^item> results of a call: a value, an exception, or a call that never returns;
  \<^item> the state-and-exception monad of a method that mutates an object (the state reached
    before an exception is kept, as Python keeps it);
  \<^item> insertion-ordered dictionaries as association lists;
  \<^item> slices, \<open>list.index\<close> and \<open>max\<close> with a key;
  \<^item> the contract \<open>state_preorder\<close>: what a method preserves, proved once for the combinators.
\<close>

named_theorems keeps_rules \<open>a method keeps a relation between its pre- and post-state\<close>
named_theorems run_simps \<open>running the combinators on a state\<close>

section \<open>Results and the monad of a method\<close>

datatype exn = KeyError | ValueError | IndexError | TypeError | AttributeError
  | ZeroDivisionError | InvalidState | BlockNotReady | UnknownBlock | ReceiveError
  | DecodeError | CandidateError | LocalConfigurationError | SdkLocalConfigurationError
  | NotImplementedError | RpcError

text \<open>\<open>Hang\<close> is a call that never returns: a read from an empty blocking queue, an endless loop.\<close>

datatype 'a outcome = Return 'a | Raise exn | Hang

definition obind :: "'a outcome \<Rightarrow> ('a \<Rightarrow> 'b outcome) \<Rightarrow> 'b outcome" where
  "obind m k = (case m of Return x \<Rightarrow> k x | Raise e \<Rightarrow> Raise e | Hang \<Rightarrow> Hang)"

lemma obind_simps [simp]: "obind (Return x) k = k x" "obind (Raise e) k = Raise e" "obind Hang k = Hang"
  by (simp_all add: obind_def)

lemma obind_Return: "obind m k = Return y \<longleftrightarrow> (\<exists>x. m = Return x \<and> k x = Return y)"
  by (cases m) auto

lemma obind_cong [fundef_cong]:
  "m = m' \<Longrightarrow> (\<And>x. m' = Return x \<Longrightarrow> k x = k' x) \<Longrightarrow> obind m k = obind m' k'"
  by (cases m') auto

type_synonym ('s, 'a) py = "'s \<Rightarrow> 'a outcome \<times> 's"

definition ret :: "'a \<Rightarrow> ('s, 'a) py" where
  "ret x = (\<lambda>s. (Return x, s))"

definition raise :: "exn \<Rightarrow> ('s, 'a) py" where
  "raise e = (\<lambda>s. (Raise e, s))"

definition hang :: "('s, 'a) py" where
  "hang = (\<lambda>s. (Hang, s))"

definition bindP :: "('s, 'a) py \<Rightarrow> ('a \<Rightarrow> ('s, 'b) py) \<Rightarrow> ('s, 'b) py" where
  "bindP m k = (\<lambda>s. case m s of
     (Return x, t) \<Rightarrow> k x t
   | (Raise e, t) \<Rightarrow> (Raise e, t)
   | (Hang, t) \<Rightarrow> (Hang, t))"

definition thenP :: "('s, 'a) py \<Rightarrow> ('s, 'b) py \<Rightarrow> ('s, 'b) py" where
  "thenP m k = bindP m (\<lambda>_. k)"

definition gets :: "('s \<Rightarrow> 'a) \<Rightarrow> ('s, 'a) py" where
  "gets f = (\<lambda>s. (Return (f s), s))"

definition modify :: "('s \<Rightarrow> 's) \<Rightarrow> ('s, unit) py" where
  "modify f = (\<lambda>s. (Return (), f s))"

definition whenP :: "bool \<Rightarrow> ('s, unit) py \<Rightarrow> ('s, unit) py" where
  "whenP b m = (if b then m else ret ())"

text \<open>\<open>try: m\<close> / \<open>except E: h\<close>, for the exceptions that satisfy \<open>p\<close>.\<close>

definition try_except :: "('s, 'a) py \<Rightarrow> (exn \<Rightarrow> bool) \<Rightarrow> (exn \<Rightarrow> ('s, 'a) py) \<Rightarrow> ('s, 'a) py" where
  "try_except m p h = (\<lambda>s. case m s of
     (Raise e, t) \<Rightarrow> (if p e then h e t else (Raise e, t))
   | r \<Rightarrow> r)"

text \<open>A lookup that raises when it finds nothing.\<close>

definition from_option :: "exn \<Rightarrow> 'a option \<Rightarrow> ('s, 'a) py" where
  "from_option e x = (case x of None \<Rightarrow> raise e | Some v \<Rightarrow> ret v)"

definition from_outcome :: "'a outcome \<Rightarrow> ('s, 'a) py" where
  "from_outcome r = (\<lambda>s. (r, s))"

text \<open>A method of an attribute's object, run inside the object that holds it.\<close>

definition on_field :: "('s \<Rightarrow> 't) \<Rightarrow> ('t \<Rightarrow> 's \<Rightarrow> 's) \<Rightarrow> ('t, 'a) py \<Rightarrow> ('s, 'a) py" where
  "on_field get put m = (\<lambda>s. case m (get s) of (r, t) \<Rightarrow> (r, put t s))"

fun for_each :: "'a list \<Rightarrow> ('a \<Rightarrow> ('s, unit) py) \<Rightarrow> ('s, unit) py" where
  "for_each [] f = ret ()"
| "for_each (x # xs) f = thenP (f x) (for_each xs f)"

lemma run_ret [run_simps]: "ret x s = (Return x, s)" by (simp add: ret_def)
lemma run_raise [run_simps]: "raise e s = (Raise e, s)" by (simp add: raise_def)
lemma run_hang [run_simps]: "hang s = (Hang, s)" by (simp add: hang_def)
lemma run_gets [run_simps]: "gets f s = (Return (f s), s)" by (simp add: gets_def)
lemma run_modify [run_simps]: "modify f s = (Return (), f s)" by (simp add: modify_def)

lemma run_bind [run_simps]:
  "bindP m k s = (case m s of (Return x, t) \<Rightarrow> k x t | (Raise e, t) \<Rightarrow> (Raise e, t) | (Hang, t) \<Rightarrow> (Hang, t))"
  by (simp add: bindP_def)

lemma run_then [run_simps]:
  "thenP m k s = (case m s of (Return x, t) \<Rightarrow> k t | (Raise e, t) \<Rightarrow> (Raise e, t) | (Hang, t) \<Rightarrow> (Hang, t))"
  by (simp add: thenP_def bindP_def)

lemma run_when [run_simps]: "whenP b m s = (if b then m s else (Return (), s))"
  by (simp add: whenP_def ret_def)

lemma run_from_option [run_simps]:
  "from_option e x s = (case x of None \<Rightarrow> (Raise e, s) | Some v \<Rightarrow> (Return v, s))"
  by (simp add: from_option_def ret_def raise_def split: option.split)

lemma run_from_outcome [run_simps]: "from_outcome r s = (r, s)"
  by (simp add: from_outcome_def)

lemma run_on_field [run_simps]:
  "on_field get put m s = (case m (get s) of (r, t) \<Rightarrow> (r, put t s))"
  by (simp add: on_field_def)

lemma run_try [run_simps]:
  "try_except m p h s =
     (case m s of (Return x, t) \<Rightarrow> (Return x, t)
      | (Raise e, t) \<Rightarrow> (if p e then h e t else (Raise e, t)) | (Hang, t) \<Rightarrow> (Hang, t))"
  by (simp add: try_except_def split: prod.split outcome.split)

text \<open>A loop over a list in two parts.\<close>

lemma for_each_append:
  "for_each (xs @ ys) f s = (case for_each xs f s of (Return _, t) \<Rightarrow> for_each ys f t | r \<Rightarrow> r)"
  by (induction xs arbitrary: s) (auto simp: run_simps split: prod.split outcome.split)

section \<open>What a method preserves\<close>

definition keeps :: "('s \<Rightarrow> 's \<Rightarrow> bool) \<Rightarrow> ('s, 'a) py \<Rightarrow> bool" where
  "keeps R m \<longleftrightarrow> (\<forall>s. R s (snd (m s)))"

lemma keepsI: "(\<And>s. R s (snd (m s))) \<Longrightarrow> keeps R m"
  by (simp add: keeps_def)

lemma keepsD: "keeps R m \<Longrightarrow> R s (snd (m s))"
  by (simp add: keeps_def)

lemma keeps_run: "keeps R m \<Longrightarrow> m s = (r, t) \<Longrightarrow> R s t"
  by (metis keeps_def snd_conv)

text \<open>
  The contract: a reflexive and transitive relation between the state before and after a
  call. Every combinator of the monad keeps it when its parts do, so that a frame
  condition or an invariant of a handler follows from those of the calls it makes.
\<close>

locale state_preorder =
  fixes R :: "'s \<Rightarrow> 's \<Rightarrow> bool"
  assumes R_refl: "R s s"
    and R_trans: "R s t \<Longrightarrow> R t u \<Longrightarrow> R s u"
begin

lemma pure: "keeps R (ret x)" "keeps R (raise e)" "keeps R hang" "keeps R (gets f)"
  "keeps R (from_option e y)" "keeps R (from_outcome r)"
  by (auto simp: keeps_def run_simps R_refl split: option.split)

lemma modify: "(\<And>s. R s (f s)) \<Longrightarrow> keeps R (modify f)"
  by (simp add: keeps_def run_simps)

lemma bind: "keeps R m \<Longrightarrow> (\<And>x. keeps R (k x)) \<Longrightarrow> keeps R (bindP m k)"
  unfolding keeps_def run_simps
  by (auto split: prod.split outcome.split intro: R_trans) (metis R_trans snd_conv)+

lemma seq: "keeps R m \<Longrightarrow> keeps R k \<Longrightarrow> keeps R (thenP m k)"
  by (simp add: thenP_def bind)

lemma cond: "(b \<Longrightarrow> keeps R m) \<Longrightarrow> (\<not> b \<Longrightarrow> keeps R k) \<Longrightarrow> keeps R (if b then m else k)"
  by simp

lemma guarded: "(b \<Longrightarrow> keeps R m) \<Longrightarrow> keeps R (whenP b m)"
  by (simp add: whenP_def pure)

lemma handled: "keeps R m \<Longrightarrow> (\<And>e. keeps R (h e)) \<Longrightarrow> keeps R (try_except m p h)"
  unfolding keeps_def run_simps
  by (auto split: prod.split outcome.split) (metis R_trans snd_conv)+

lemma loop: "(\<And>x. x \<in> set xs \<Longrightarrow> keeps R (f x)) \<Longrightarrow> keeps R (for_each xs f)"
  by (induction xs) (simp_all add: pure seq)

lemma option_case:
  "keeps R m \<Longrightarrow> (\<And>x. keeps R (k x)) \<Longrightarrow> keeps R (case y of None \<Rightarrow> m | Some x \<Rightarrow> k x)"
  by (simp split: option.split)

lemmas all = pure bind seq guarded handled loop option_case

end

section \<open>Dictionaries\<close>

text \<open>
  A \<open>dict\<close> keeps the order in which its keys were first inserted: iteration, \<open>max\<close> and
  the first match of a loop depend on it. An association list without duplicate keys, with
  the library's \<open>AList.update\<close>, which overwrites in place or appends, is exactly that.
\<close>

type_synonym ('k, 'v) dict = "('k \<times> 'v) list"

definition dget :: "('k, 'v) dict \<Rightarrow> 'k \<Rightarrow> 'v option" where
  "dget d k = map_of d k"

definition dput :: "'k \<Rightarrow> 'v \<Rightarrow> ('k, 'v) dict \<Rightarrow> ('k, 'v) dict" where
  "dput k v d = AList.update k v d"

definition ddel :: "'k \<Rightarrow> ('k, 'v) dict \<Rightarrow> ('k, 'v) dict" where
  "ddel k d = filter (\<lambda>p. fst p \<noteq> k) d"

definition dkeys :: "('k, 'v) dict \<Rightarrow> 'k list" where
  "dkeys d = map fst d"

definition dvalues :: "('k, 'v) dict \<Rightarrow> 'v list" where
  "dvalues d = map snd d"

definition wf_dict :: "('k, 'v) dict \<Rightarrow> bool" where
  "wf_dict d \<longleftrightarrow> distinct (dkeys d)"

text \<open>
  The contract a client of a dictionary relies on: what a lookup returns after an insertion
  and after a deletion, and that both keep the keys distinct.
\<close>

locale dictionary =
  fixes empty :: 'd
    and look :: "'d \<Rightarrow> 'k \<Rightarrow> 'v option"
    and ins :: "'k \<Rightarrow> 'v \<Rightarrow> 'd \<Rightarrow> 'd"
    and del :: "'k \<Rightarrow> 'd \<Rightarrow> 'd"
    and keys :: "'d \<Rightarrow> 'k list"
    and ok :: "'d \<Rightarrow> bool"
  assumes look_empty: "look empty k = None"
    and look_ins: "look (ins k v d) j = (if j = k then Some v else look d j)"
    and look_del: "look (del k d) j = (if j = k then None else look d j)"
    and keys_look: "k \<in> set (keys d) \<longleftrightarrow> look d k \<noteq> None"
    and keys_ins: "keys (ins k v d) = (if k \<in> set (keys d) then keys d else keys d @ [k])"
    and keys_del: "keys (del k d) = filter (\<lambda>j. j \<noteq> k) (keys d)"
    and ok_keys: "ok d \<longleftrightarrow> distinct (keys d)"
begin

lemma ok_ins: "ok d \<Longrightarrow> ok (ins k v d)"
  by (simp add: ok_keys keys_ins)

lemma ok_del: "ok d \<Longrightarrow> ok (del k d)"
  by (simp add: ok_keys keys_del)

lemma look_ins_same: "look (ins k v d) k = Some v"
  by (simp add: look_ins)

lemma look_fold_ins: "look (fold (\<lambda>(k, v). ins k v) ps d) j =
    (case map_of (rev ps) j of None \<Rightarrow> look d j | Some v \<Rightarrow> Some v)"
  by (induction ps arbitrary: d) (auto simp: look_ins map_add_def split: option.splits)

lemma keys_fold_ins: "set (keys (fold (\<lambda>(k, v). ins k v) ps d)) = set (keys d) \<union> fst ` set ps"
  by (induction ps arbitrary: d) (auto simp: keys_ins split: if_splits)

lemma look_fold_del: "look (fold del ks d) j = (if j \<in> set ks then None else look d j)"
  by (induction ks arbitrary: d) (simp_all add: look_del)

lemma keys_fold_del: "keys (fold del ks d) = filter (\<lambda>j. j \<notin> set ks) (keys d)"
  by (induction ks arbitrary: d) (simp_all add: keys_del)

end

lemma map_of_filter_key: "map_of (filter (\<lambda>p. fst p \<noteq> k) d) j = (if j = k then None else map_of d j)"
  by (induction d) auto

interpretation dict: dictionary "[]" dget dput ddel dkeys wf_dict
proof unfold_locales
  fix k :: 'a and d :: "('a, 'b) dict"
  show "k \<in> set (dkeys d) \<longleftrightarrow> dget d k \<noteq> None"
    by (simp add: dkeys_def dget_def map_of_eq_None_iff)
  show "dkeys (ddel k d) = filter (\<lambda>j. j \<noteq> k) (dkeys d)"
    by (simp add: dkeys_def ddel_def filter_map comp_def)
qed (auto simp: dget_def dput_def ddel_def dkeys_def wf_dict_def update_conv' update_keys map_of_filter_key)

lemmas dict_simps = dict.look_ins dict.look_del dict.keys_ins dict.keys_del

lemma dget_Nil [simp]: "dget [] k = None" by (simp add: dget_def)

lemma dget_value: "dget d k = Some v \<Longrightarrow> v \<in> set (dvalues d)"
  by (force simp: dget_def dvalues_def dest: map_of_SomeD)

lemma dget_item: "dget d k = Some v \<Longrightarrow> (k, v) \<in> set d"
  by (simp add: dget_def map_of_SomeD)

lemma item_dget: "wf_dict d \<Longrightarrow> (k, v) \<in> set d \<Longrightarrow> dget d k = Some v"
  by (simp add: dget_def wf_dict_def dkeys_def)

lemma dput_fresh: "dget d k = None \<Longrightarrow> dput k v d = d @ [(k, v)]"
  by (induction d) (auto simp: dget_def dput_def split: if_splits)

lemma dput_dput: "dput k v (dput k w d) = dput k v d"
  by (simp add: dput_def)

lemma wf_dict_Nil [simp]: "wf_dict []" by (simp add: wf_dict_def dkeys_def)

lemma length_dvalues: "length (dvalues d) = length (dkeys d)"
  by (simp add: dvalues_def dkeys_def)

lemma card_dkeys: "wf_dict d \<Longrightarrow> card (set (dkeys d)) = length d"
  by (metis distinct_card dkeys_def length_map wf_dict_def)

section \<open>Lists\<close>

text \<open>\<open>xs[:n]\<close> and \<open>xs[n:]\<close>, whose negative bounds count from the end.\<close>

definition slice_bound :: "int \<Rightarrow> 'a list \<Rightarrow> nat" where
  "slice_bound n xs = (if n < 0 then nat (int (length xs) + n) else nat n)"

definition slice_to :: "int \<Rightarrow> 'a list \<Rightarrow> 'a list" where
  "slice_to n xs = take (slice_bound n xs) xs"

definition slice_from :: "int \<Rightarrow> 'a list \<Rightarrow> 'a list" where
  "slice_from n xs = drop (slice_bound n xs) xs"

lemma slice_append [simp]: "slice_to n xs @ slice_from n xs = xs"
  by (simp add: slice_to_def slice_from_def)

lemma slice_to_prefix: "slice_bound n (xs @ ys) = length xs \<Longrightarrow> slice_to n (xs @ ys) = xs"
  and slice_from_suffix: "slice_bound n (xs @ ys) = length xs \<Longrightarrow> slice_from n (xs @ ys) = ys"
  by (simp_all add: slice_to_def slice_from_def)

text \<open>\<open>xs.index(x)\<close>: the first position, or \<open>None\<close> for a \<open>ValueError\<close>.\<close>

fun index_of :: "'a list \<Rightarrow> 'a \<Rightarrow> nat option" where
  "index_of [] x = None"
| "index_of (y # ys) x = (if y = x then Some 0 else map_option Suc (index_of ys x))"

lemma index_of_Some: "index_of xs x = Some i \<Longrightarrow> i < length xs \<and> xs ! i = x \<and> x \<notin> set (take i xs)"
  by (induction xs arbitrary: i) (auto split: if_splits)

lemma index_of_None: "index_of xs x = None \<longleftrightarrow> x \<notin> set xs"
  by (induction xs) auto

lemma index_of_nth: "distinct xs \<Longrightarrow> i < length xs \<Longrightarrow> index_of xs (xs ! i) = Some i"
  by (induction xs arbitrary: i) (auto simp: nth_Cons split: nat.splits)

lemma remove1_index: "index_of xs x = Some i \<Longrightarrow> take i xs @ drop (Suc i) xs = remove1 x xs"
  by (induction xs arbitrary: i) (auto split: if_splits)

text \<open>\<open>max(xs, key=f)\<close>: the first element with the greatest key; \<open>None\<close> is the \<open>ValueError\<close>.\<close>

fun max_from :: "('a \<Rightarrow> 'b::linorder) \<Rightarrow> 'a \<Rightarrow> 'a list \<Rightarrow> 'a" where
  "max_from f m [] = m"
| "max_from f m (x # xs) = (if f m < f x then max_from f x xs else max_from f m xs)"

definition max_key :: "('a \<Rightarrow> 'b::linorder) \<Rightarrow> 'a list \<Rightarrow> 'a option" where
  "max_key f xs = (case xs of [] \<Rightarrow> None | x # ys \<Rightarrow> Some (max_from f x ys))"

lemma max_from_in: "max_from f m xs \<in> insert m (set xs)"
  by (induction xs arbitrary: m) auto

lemma max_from_start: "f m \<le> f (max_from f m xs)"
proof (induction xs arbitrary: m)
  case (Cons y ys)
  show ?case
  proof (cases "f m < f y")
    case True
    with Cons.IH [of y] show ?thesis by simp
  next
    case False
    with Cons.IH [of m] show ?thesis by simp
  qed
qed simp

lemma max_from_ge: "x \<in> set xs \<Longrightarrow> f x \<le> f (max_from f m xs)"
proof (induction xs arbitrary: m)
  case (Cons y ys)
  show ?case
  proof (cases "x = y")
    case True
    then show ?thesis
      using max_from_start [of f y ys] max_from_start [of f m ys] by auto
  next
    case False
    with Cons show ?thesis by simp
  qed
qed simp

lemma max_key_SomeD:
  assumes "max_key f xs = Some m"
  shows "m \<in> set xs" and "x \<in> set xs \<Longrightarrow> f x \<le> f m"
  using assms max_from_in [of f] max_from_start [of f] max_from_ge [of x _ f]
  by (auto simp: max_key_def split: list.splits)

lemma max_key_None: "max_key f xs = None \<longleftrightarrow> xs = []"
  by (simp add: max_key_def split: list.split)

text \<open>With an injective key the answer does not depend on the order of the list.\<close>

lemma max_key_unique:
  assumes "set xs = set ys" "inj_on f (set xs)" "max_key f xs = Some m" "max_key f ys = Some n"
  shows "m = n"
proof -
  have "m \<in> set xs" "n \<in> set xs" "f n \<le> f m" "f m \<le> f n"
    using max_key_SomeD(1) [OF assms(3)] max_key_SomeD(1) [OF assms(4)] assms(1)
      max_key_SomeD(2) [OF assms(3), of n] max_key_SomeD(2) [OF assms(4), of m] by auto
  then show ?thesis using assms(2) by (meson antisym inj_onD)
qed

text \<open>
  \<open>xs.sort(key=f, reverse=True)\<close>: descending, and stable, so that equal keys keep their
  order; the library's \<open>sort_key\<close> is the stable ascending sort.
\<close>

definition sort_key_desc :: "('a \<Rightarrow> 'b::linorder) \<Rightarrow> 'a list \<Rightarrow> 'a list" where
  "sort_key_desc f xs = rev (sort_key f (rev xs))"

lemma mset_sort_key_desc [simp]: "mset (sort_key_desc f xs) = mset xs"
  by (simp add: sort_key_desc_def)

lemma set_sort_key_desc [simp]: "set (sort_key_desc f xs) = set xs"
  by (simp add: sort_key_desc_def)

lemma sort_key_desc_head:
  assumes "sort_key_desc f xs = y # ys" and "x \<in> set xs"
  shows "f x \<le> f y"
proof -
  have "sort_key f (rev xs) = rev ys @ [y]"
    using assms(1) by (metis rev.simps(2) rev_swap sort_key_desc_def)
  moreover have "sorted (map f (sort_key f (rev xs)))" by simp
  moreover have "x \<in> insert y (set ys)"
    using assms by (metis list.simps(15) set_sort_key_desc)
  ultimately show ?thesis by (auto simp: sorted_append)
qed

lemma count_image_some: "count (image_mset Some M) (Some x) = count M x"
  by (induction M) auto

lemma map_fst_zip_self: "map fst (map (\<lambda>x. (x, f x)) xs) = xs"
  by (induction xs) auto

end
