(* ===== verification/Float64.thy ===== *)
theory Float64
  imports Complex_Main "HOL-Library.Log_Nat"
begin

text \<open>
  Python's \<open>float\<close>, as far as peer scores and vote weights use it: the finite IEEE binary64
  numbers are rationals, and an operation is the exact one followed by rounding to the
  nearest representable number, ties to even. Values here stay far below the overflow
  threshold, so infinities are not modelled; subnormal numbers are.
\<close>

definition round_half_even :: "rat \<Rightarrow> int" where
  "round_half_even y =
     (let f = \<lfloor>y\<rfloor>; d = y - of_int f
      in if d < 1/2 then f else if 1/2 < d then f + 1 else if even f then f else f + 1)"

definition ilog2 :: "rat \<Rightarrow> int" where
  "ilog2 x =
     (case quotient_of x of (p, q) \<Rightarrow>
        let k = bitlen p - bitlen q in if 2 powi k \<le> x then k else k - 1)"

definition ulp_exp :: "rat \<Rightarrow> int" where
  "ulp_exp x = max (ilog2 \<bar>x\<bar> - 52) (-1074)"

definition fl :: "rat \<Rightarrow> rat" where
  "fl x = (if x = 0 then 0
     else let u = 2 powi (ulp_exp x) in of_int (round_half_even (x / u)) * u)"

definition fadd :: "rat \<Rightarrow> rat \<Rightarrow> rat" where "fadd a b = fl (a + b)"
definition fmul :: "rat \<Rightarrow> rat \<Rightarrow> rat" where "fmul a b = fl (a * b)"
definition fdiv :: "rat \<Rightarrow> rat \<Rightarrow> rat" where "fdiv a b = fl (a / b)"

section \<open>Rounding to an integer\<close>

lemma round_half_even_of_int [simp]: "round_half_even (of_int n) = n"
  by (simp add: round_half_even_def)

lemma round_half_even_near: "\<lfloor>y\<rfloor> \<le> round_half_even y" "round_half_even y \<le> \<lfloor>y\<rfloor> + 1"
  by (auto simp: round_half_even_def Let_def)

lemma round_half_even_mono:
  assumes "x \<le> y"
  shows "round_half_even x \<le> round_half_even y"
proof (cases "\<lfloor>x\<rfloor> = \<lfloor>y\<rfloor>")
  case True
  with assms show ?thesis by (auto simp: round_half_even_def Let_def)
next
  case False
  with assms have "\<lfloor>x\<rfloor> + 1 \<le> \<lfloor>y\<rfloor>" using floor_mono [of x y] by linarith
  then show ?thesis using round_half_even_near [of x] round_half_even_near [of y] by linarith
qed

lemma round_half_even_le_int: "x \<le> of_int n \<Longrightarrow> round_half_even x \<le> n"
  using round_half_even_mono [of x "of_int n"] by simp

lemma round_half_even_ge_int: "of_int n \<le> x \<Longrightarrow> n \<le> round_half_even x"
  using round_half_even_mono [of "of_int n" x] by simp

section \<open>The binary exponent\<close>

lemma powi_int_diff: "(2::rat) powi (a - b) = 2 powi a / 2 powi b"
  by (simp add: power_int_diff)

lemma powi_mono: "a \<le> b \<Longrightarrow> (2::rat) powi a \<le> 2 powi b"
  by (rule power_int_increasing) auto

lemma powi_pos: "0 < (2::rat) powi a"
  by simp

lemma bitlen_powi:
  assumes "0 < p"
  shows "2 powi (bitlen p - 1) \<le> (of_int p :: rat)" and "(of_int p :: rat) < 2 powi (bitlen p)"
proof -
  have pos: "0 < bitlen p" using assms bitlen_eq_zero_iff [of p] bitlen_nonneg [of p] by linarith
  from bitlen_bounds [OF assms] have b: "2 ^ nat (bitlen p - 1) \<le> p" "p < 2 ^ nat (bitlen p)" by auto
  from b(1) have "of_int (2 ^ nat (bitlen p - 1)) \<le> (of_int p :: rat)" by (simp only: of_int_le_iff)
  with pos show "2 powi (bitlen p - 1) \<le> (of_int p :: rat)" by (simp add: power_int_def)
  from b(2) have "(of_int p :: rat) < of_int (2 ^ nat (bitlen p))" by (simp only: of_int_less_iff)
  with pos show "(of_int p :: rat) < 2 powi (bitlen p)" by (simp add: power_int_def)
qed

lemma ilog2_bounds:
  assumes "0 < x"
  shows "2 powi (ilog2 x) \<le> x" and "x < 2 powi (ilog2 x + 1)"
proof -
  obtain p q where pq: "quotient_of x = (p, q)" by force
  have q: "0 < q" using pq by (rule quotient_of_denom_pos)
  have x: "x = of_int p / of_int q" using pq by (rule quotient_of_div)
  with assms q have p: "0 < p" by (simp add: zero_less_divide_iff)
  define k where "k = bitlen p - bitlen q"
  have hi: "x < 2 powi (k + 1)"
  proof -
    have "x < 2 powi (bitlen p) / 2 powi (bitlen q - 1)"
      unfolding x using bitlen_powi [OF p] bitlen_powi [OF q] p q
      by (intro frac_less) auto
    then show ?thesis by (simp add: k_def flip: powi_int_diff) (simp add: algebra_simps)
  qed
  have lo: "2 powi (k - 1) \<le> x"
  proof -
    have "2 powi (bitlen p - 1) / 2 powi (bitlen q) \<le> x"
      unfolding x using bitlen_powi [OF p] bitlen_powi [OF q] p q
      by (intro frac_le) auto
    then show ?thesis by (simp add: k_def flip: powi_int_diff) (simp add: algebra_simps)
  qed
  have "ilog2 x = (if 2 powi k \<le> x then k else k - 1)"
    by (simp add: ilog2_def pq k_def Let_def)
  with hi lo show "2 powi (ilog2 x) \<le> x" "x < 2 powi (ilog2 x + 1)" by (auto split: if_splits)
qed

lemma ilog2_mono:
  assumes "0 < x" "x \<le> y"
  shows "ilog2 x \<le> ilog2 y"
proof (rule ccontr)
  assume "\<not> ilog2 x \<le> ilog2 y"
  then have "(2::rat) powi (ilog2 y + 1) \<le> 2 powi (ilog2 x)" by (intro powi_mono) simp
  also have "\<dots> \<le> y" using ilog2_bounds(1) [OF assms(1)] assms(2) by simp
  finally show False using ilog2_bounds(2) [of y] assms by simp
qed

section \<open>The laws of rounding\<close>

lemma fl_0 [simp]: "fl 0 = 0"
  by (simp add: fl_def)

lemma ulp_exp_mono: "0 < x \<Longrightarrow> x \<le> y \<Longrightarrow> ulp_exp x \<le> ulp_exp y"
  using ilog2_mono [of x y] by (auto simp: ulp_exp_def)

text \<open>A power of two that is not below the unit in the last place bounds the rounded value too.\<close>

lemma powi_scale: "u \<le> a \<Longrightarrow> (2::rat) powi a / 2 powi u = of_int (2 ^ nat (a - u))"
  unfolding powi_int_diff [symmetric] by (simp add: power_int_def)

lemma fl_le_powi:
  assumes "0 < x" "x \<le> 2 powi a" "ulp_exp x \<le> a"
  shows "fl x \<le> 2 powi a"
proof -
  define u where "u = ulp_exp x"
  have "x / 2 powi u \<le> 2 powi a / 2 powi u"
    using assms(2) powi_pos [of u] by (intro divide_right_mono) auto
  also have "\<dots> = of_int (2 ^ nat (a - u))"
    using assms(3) by (simp only: u_def powi_scale)
  finally have "round_half_even (x / 2 powi u) \<le> 2 ^ nat (a - u)"
    by (rule round_half_even_le_int)
  then have "of_int (round_half_even (x / 2 powi u)) \<le> (of_int (2 ^ nat (a - u)) :: rat)"
    by (simp only: of_int_le_iff)
  also have "\<dots> = 2 powi a / 2 powi u"
    using assms(3) by (simp only: u_def powi_scale)
  finally have "of_int (round_half_even (x / 2 powi u)) * 2 powi u \<le> (2::rat) powi a"
    using powi_pos [of u] by (simp add: pos_le_divide_eq)
  then show ?thesis using assms(1) by (simp add: fl_def u_def Let_def)
qed

lemma fl_ge_powi:
  assumes "0 < x" "2 powi a \<le> x" "ulp_exp x \<le> a"
  shows "2 powi a \<le> fl x"
proof -
  define u where "u = ulp_exp x"
  have "of_int (2 ^ nat (a - u)) = (2::rat) powi a / 2 powi u"
    using assms(3) by (simp only: u_def powi_scale)
  also have "\<dots> \<le> x / 2 powi u"
    using assms(2) powi_pos [of u] by (intro divide_right_mono) auto
  finally have "2 ^ nat (a - u) \<le> round_half_even (x / 2 powi u)"
    by (rule round_half_even_ge_int)
  then have "of_int (2 ^ nat (a - u)) \<le> (of_int (round_half_even (x / 2 powi u)) :: rat)"
    by (simp only: of_int_le_iff)
  then have "2 powi a / 2 powi u \<le> (of_int (round_half_even (x / 2 powi u)) :: rat)"
    using assms(3) by (simp only: u_def powi_scale)
  then have "(2::rat) powi a \<le> of_int (round_half_even (x / 2 powi u)) * 2 powi u"
    using powi_pos [of u] by (simp add: pos_divide_le_eq)
  then show ?thesis using assms(1) by (simp add: fl_def u_def Let_def)
qed

lemma fl_nonneg:
  assumes "0 \<le> x"
  shows "0 \<le> fl x"
proof (cases "x = 0")
  case False
  have "0 \<le> round_half_even (x / 2 powi (ulp_exp x))"
    using assms by (intro round_half_even_ge_int) simp
  then show ?thesis by (simp add: fl_def Let_def)
qed simp

lemma fl_mono_same_exp:
  assumes "0 < x" "x \<le> y" "ulp_exp x = ulp_exp y"
  shows "fl x \<le> fl y"
proof -
  have "round_half_even (x / 2 powi (ulp_exp y)) \<le> round_half_even (y / 2 powi (ulp_exp y))"
    using assms(2) by (intro round_half_even_mono divide_right_mono) auto
  then show ?thesis using assms by (simp add: fl_def Let_def)
qed

lemma fl_mono:
  assumes "0 \<le> x" "x \<le> y"
  shows "fl x \<le> fl y"
proof (cases "x = 0")
  case True
  with assms show ?thesis by (simp add: fl_nonneg)
next
  case False
  with assms have x: "0 < x" by simp
  with assms have y: "0 < y" by simp
  show ?thesis
  proof (cases "ulp_exp x = ulp_exp y")
    case True
    then show ?thesis using x assms(2) by (simp add: fl_mono_same_exp)
  next
    case False
    with ulp_exp_mono [OF x assms(2)] have lt: "ulp_exp x < ulp_exp y" by simp
    with x y have e: "ilog2 x < ilog2 y" "ulp_exp y = ilog2 y - 52" by (auto simp: ulp_exp_def)
    then have "x \<le> 2 powi (ilog2 y)"
      using ilog2_bounds(2) [OF x] powi_mono [of "ilog2 x + 1" "ilog2 y"] by simp
    then have "fl x \<le> 2 powi (ilog2 y)"
      using x e lt by (intro fl_le_powi) auto
    also have "\<dots> \<le> fl y"
      using y e ilog2_bounds(1) [OF y] by (intro fl_ge_powi) auto
    finally show ?thesis .
  qed
qed

text \<open>A number with at most 53 significant bits is not rounded.\<close>

lemma fl_exact:
  assumes x: "x = of_int m * 2 powi e" and m: "0 \<le> m" "m < 2 ^ 53" and e: "-1074 \<le> e"
  shows "fl x = x"
proof (cases "m = 0")
  case False
  with m have m0: "0 < m" by simp
  then have x0: "0 < x" by (simp add: x)
  have "x < 2 powi (53 + e)"
  proof -
    have "(of_int m :: rat) < of_int (2 ^ 53)" using m by (simp only: of_int_less_iff)
    then show ?thesis by (simp add: x power_int_add)
  qed
  then have "(2::rat) powi (ilog2 x) < 2 powi (53 + e)"
    using ilog2_bounds(1) [OF x0] by linarith
  then have "ilog2 x < 53 + e"
    using powi_mono [of "53 + e" "ilog2 x"] by (meson not_le)
  with e x0 have u: "ulp_exp x \<le> e" by (simp add: ulp_exp_def)
  have "x / 2 powi (ulp_exp x) = of_int (m * 2 ^ nat (e - ulp_exp x))"
  proof -
    have "x / 2 powi (ulp_exp x) = of_int m * (2 powi e / 2 powi (ulp_exp x))"
      by (subst (1) x) simp
    then show ?thesis by (simp only: powi_scale [OF u] of_int_mult)
  qed
  then have "of_int (round_half_even (x / 2 powi (ulp_exp x))) = x / 2 powi (ulp_exp x)"
    by (simp only: round_half_even_of_int)
  with x0 show ?thesis by (simp add: fl_def Let_def)
qed (simp add: x)

lemma fl_1 [simp]: "fl 1 = 1"
  using fl_exact [of 1 1 0] by simp

text \<open>A rounded number is representable: it has an integer significand below \<open>2 ^ 53\<close>.\<close>

lemma fl_significand:
  assumes "0 \<le> x"
  obtains m e where "fl x = of_int m * 2 powi e" "0 \<le> m" "m < 2 ^ 53" "-1074 \<le> e"
proof (cases "x = 0")
  case True
  then show thesis using that [of 0 0] by simp
next
  case False
  with assms have x: "0 < x" by simp
  define u where "u = ulp_exp x"
  define n where "n = round_half_even (x / 2 powi u)"
  have fl: "fl x = of_int n * 2 powi u" using x by (simp add: fl_def u_def n_def Let_def)
  have u: "-1074 \<le> u" "ilog2 x + 1 - u \<le> 53" using x by (auto simp: u_def ulp_exp_def)
  have n0: "0 \<le> n" unfolding n_def using x by (intro round_half_even_ge_int) simp
  have "x / 2 powi u \<le> 2 powi (ilog2 x + 1) / 2 powi u"
    using ilog2_bounds(2) [OF x] by (intro divide_right_mono) auto
  also have "\<dots> \<le> 2 powi 53"
    unfolding powi_int_diff [symmetric] using u(2) by (rule powi_mono)
  finally have "x / 2 powi u \<le> of_int (2 ^ 53)" by simp
  then have n53: "n \<le> 2 ^ 53" unfolding n_def by (rule round_half_even_le_int)
  show thesis
  proof (cases "n = 2 ^ 53")
    case True
    have "(2::rat) powi (u + 1) = 2 powi u * 2" by (simp add: power_int_add)
    with True have "fl x = of_int (2 ^ 52) * 2 powi (u + 1)" by (simp add: fl)
    then show thesis using u(1) by (intro that [of "2 ^ 52" "u + 1"]) simp_all
  next
    case False
    with n53 have "n < 2 ^ 53" by simp
    with fl n0 u(1) show thesis by (intro that)
  qed
qed

lemma fl_idem: "0 \<le> x \<Longrightarrow> fl (fl x) = fl x"
  by (metis fl_significand fl_exact)

text \<open>The smallest positive number is \<open>2 ^ -1074\<close>, and three quarters of a positive number never
  round to zero.\<close>

lemma fl_min_pos:
  assumes "0 < x" "fl x = x"
  shows "2 powi (-1074) \<le> x"
proof -
  obtain m e where x: "x = of_int m * 2 powi e" and m: "0 \<le> m" and e: "-1074 \<le> e"
    using fl_significand [of x] assms by (metis less_imp_le)
  have "m \<noteq> 0" using assms(1) x by auto
  with m have "(1::rat) \<le> of_int m" by simp
  then have "2 powi e \<le> x" unfolding x using mult_right_mono [of 1 "of_int m" "2 powi e :: rat"] by simp
  then show ?thesis using powi_mono [OF e] by linarith
qed

lemma fl_three_quarters_pos:
  assumes "0 < s" "fl s = s"
  shows "0 < fl (s * (3/4))"
proof -
  define x where "x = s * (3/4)"
  define u where "u = ulp_exp x"
  have x: "0 < x" using assms(1) by (simp add: x_def)
  have "1 \<le> round_half_even (x / 2 powi u)"
  proof (cases "u = -1074")
    case True
    have "3/4 * 2 powi u \<le> x"
      using fl_min_pos [OF assms] mult_right_mono [of "2 powi u" s "3/4 :: rat"] by (simp add: x_def True mult.commute)
    then have "3/4 \<le> x / 2 powi u" using powi_pos [of u] by (simp add: pos_le_divide_eq)
    then have "round_half_even (3/4) \<le> round_half_even (x / 2 powi u)" by (rule round_half_even_mono)
    moreover have "round_half_even (3/4) = 1" by code_simp
    ultimately show ?thesis by simp
  next
    case False
    then have "u = ilog2 x - 52" using x by (auto simp: u_def ulp_exp_def)
    then have "2 powi u \<le> (2::rat) powi (ilog2 x)" by (intro powi_mono) simp
    then have "2 powi u \<le> x" using ilog2_bounds(1) [OF x] by linarith
    then have "of_int 1 \<le> x / 2 powi u" using powi_pos [of u] by (simp add: pos_le_divide_eq)
    then show ?thesis by (rule round_half_even_ge_int)
  qed
  then have "0 < (of_int (round_half_even (x / 2 powi u)) :: rat)" by simp
  then have "0 < fl x" using x powi_pos [of u] by (simp add: fl_def u_def Let_def)
  then show ?thesis by (simp add: x_def)
qed

text \<open>
  What the components rely on: rounding fixes 0 and 1, keeps the order of non-negative
  numbers and does not touch the numbers that have a short binary expansion.
\<close>

locale float_rounding =
  fixes rnd :: "rat \<Rightarrow> rat"
  assumes rnd_0: "rnd 0 = 0"
    and rnd_1: "rnd 1 = 1"
    and rnd_mono: "0 \<le> x \<Longrightarrow> x \<le> y \<Longrightarrow> rnd x \<le> rnd y"
begin

lemma rnd_nonneg: "0 \<le> x \<Longrightarrow> 0 \<le> rnd x"
  using rnd_mono [of 0 x] by (simp add: rnd_0)

lemma rnd_le_1: "0 \<le> x \<Longrightarrow> x \<le> 1 \<Longrightarrow> rnd x \<le> 1"
  using rnd_mono [of x 1] by (simp add: rnd_1)

lemma rnd_unit_mult: "0 \<le> a \<Longrightarrow> a \<le> 1 \<Longrightarrow> 0 \<le> b \<Longrightarrow> b \<le> 1 \<Longrightarrow> rnd (a * b) \<le> 1"
  by (simp add: rnd_le_1 mult_le_one)

lemma rnd_shrink: "0 \<le> a \<Longrightarrow> 0 \<le> c \<Longrightarrow> c \<le> 1 \<Longrightarrow> rnd (a * c) \<le> rnd a"
  by (intro rnd_mono) (simp_all add: mult_left_le)

lemma rnd_grow: "0 \<le> a \<Longrightarrow> 1 \<le> c \<Longrightarrow> rnd a \<le> rnd (a * c)"
  using mult_left_mono [of 1 c a] by (intro rnd_mono) auto

end

interpretation binary64: float_rounding fl
  by unfold_locales (simp_all add: fl_mono)

end
