(* ===== verification/Config_Utils.thy ===== *)
theory Config_Utils
  imports Py_Prelude Float64
begin

text \<open>
  \<open>engine/config.py\<close>, \<open>engine/types.py\<close> and \<open>engine/utils.py\<close>: the protocol's constants,
  the types of keys, ballots and results, and the two helper functions. Byte strings are
  lists of characters, as Isabelle's 8-bit \<open>char\<close> is a byte; \<open>sha\<close> stands for
  \<open>lambda s: sha256(s.encode()).hexdigest()\<close> and is a parameter, so every theorem holds
  for any digest, with collision freedom a named hypothesis where a theorem needs it.
\<close>

section \<open>Constants\<close>

definition ROUNDS_PER_EPOCH :: int where "ROUNDS_PER_EPOCH = 3"
definition BLOCK_INTERVAL :: rat where "BLOCK_INTERVAL = 6"
definition SLOT_TIMEOUT :: rat where "SLOT_TIMEOUT = 90"
definition REBROADCAST_BALLOT_INTERVAL :: rat where "REBROADCAST_BALLOT_INTERVAL = 5"
definition PEER_CHECK_INTERVAL :: rat where "PEER_CHECK_INTERVAL = 3"
definition PING_THRESHOLD :: rat where "PING_THRESHOLD = 30"
definition VOTING_SLOTS :: int where "VOTING_SLOTS = 5"

type_synonym bytes = "char list"

definition GENESIS_BLOCK_ID :: bytes where
  "GENESIS_BLOCK_ID = replicate 8 (char_of (0::nat))"

type_synonym key = string
type_synonym ballot = "string list"
type_synonym result = "string list"

section \<open>Text\<close>

text \<open>\<open>str(n)\<close> of an integer.\<close>

definition digit :: "nat \<Rightarrow> char" where
  "digit n = char_of (48 + n)"

fun show_nat :: "nat \<Rightarrow> string" where
  "show_nat n = (if n < 10 then [digit n] else show_nat (n div 10) @ [digit (n mod 10)])"

declare show_nat.simps [simp del]

definition show_int :: "int \<Rightarrow> string" where
  "show_int n = (if n < 0 then CHR ''-'' # show_nat (nat (- n)) else show_nat (nat n))"

text \<open>An argument of \<open>concat_and_hash\<close>: the callers pass strings and integers.\<close>

datatype pyarg = PyStr string | PyInt int

fun py_str :: "pyarg \<Rightarrow> string" where
  "py_str (PyStr s) = s"
| "py_str (PyInt n) = show_int n"

definition concat_and_hash :: "(string \<Rightarrow> string) \<Rightarrow> pyarg list \<Rightarrow> string" where
  "concat_and_hash sha args = sha (foldl (\<lambda>x y. x @ py_str y) '''' args)"

text \<open>\<open>try_remove(l, i)\<close>: the first occurrence goes; a missing element is no error.\<close>

definition try_remove :: "'a list \<Rightarrow> 'a \<Rightarrow> 'a list" where
  "try_remove l i = remove1 i l"

text \<open>\<open>b.hex()\<close> of a byte string.\<close>

definition hex_digit :: "nat \<Rightarrow> char" where
  "hex_digit n = (if n < 10 then char_of (48 + n) else char_of (87 + n))"

fun hex :: "bytes \<Rightarrow> string" where
  "hex [] = []"
| "hex (c # cs) = hex_digit (of_char c div 16) # hex_digit (of_char c mod 16) # hex cs"

section \<open>Facts\<close>

lemma concat_and_hash_concat: "concat_and_hash sha args = sha (concat (map py_str args))"
proof -
  have "foldl (\<lambda>x y. x @ py_str y) z args = z @ concat (map py_str args)" for z
    by (induction args arbitrary: z) auto
  then show ?thesis by (simp add: concat_and_hash_def)
qed

lemma of_char_hex_digit: "n < 16 \<Longrightarrow> of_char (hex_digit n) = (if n < 10 then 48 + n else 87 + n)"
  by (simp add: hex_digit_def)

lemma hex_digit_inj:
  assumes "m < 16" "n < 16" "hex_digit m = hex_digit n"
  shows "m = n"
proof -
  have "of_char (hex_digit m) = (of_char (hex_digit n) :: nat)" using assms(3) by simp
  with assms(1,2) show ?thesis by (simp add: of_char_hex_digit split: if_splits)
qed

lemma hex_inj: "hex xs = hex ys \<Longrightarrow> xs = ys"
proof (induction xs arbitrary: ys)
  case Nil
  then show ?case by (cases ys) auto
next
  case (Cons c cs)
  then obtain d ds where ys: "ys = d # ds" by (cases ys) auto
  have lt: "of_char x div 16 < (16::nat)" "of_char x mod 16 < (16::nat)" for x
    using nat_of_char_less_256 [of x] by (auto simp: div_less_iff_less_mult)
  have "hex_digit (of_char c div 16) = hex_digit (of_char d div 16)"
    "hex_digit (of_char c mod 16) = hex_digit (of_char d mod 16)" "hex cs = hex ds"
    using Cons.prems by (simp_all add: ys)
  then have "of_char c div 16 = (of_char d div 16 :: nat)" "of_char c mod 16 = (of_char d mod 16 :: nat)"
    and "cs = ds"
    using hex_digit_inj [OF lt(1) lt(1)] hex_digit_inj [OF lt(2) lt(2)] Cons.IH by blast+
  then have "of_char c = (of_char d :: nat)" by (metis div_mult_mod_eq)
  then show ?case using \<open>cs = ds\<close> by (simp add: ys)
qed

lemma hex_eq_iff [simp]: "hex xs = hex ys \<longleftrightarrow> xs = ys"
  by (auto dest: hex_inj)

lemma set_try_remove: "set (try_remove l i) \<subseteq> set l"
  by (simp add: try_remove_def set_remove1_subset)

end
