(* ===== verification/Epoch.thy ===== *)
theory Epoch
  imports Config_Utils
begin

text \<open>
  \<open>engine/epoch.py\<close>: the witness list of an epoch, the queue of the remaining candidates
  and the slot counter. \<open>Queue\<close> is a list with its head first; \<open>Queue.get\<close> on an empty
  queue blocks, which is the outcome \<open>Hang\<close>. The contract \<open>roster\<close> is what the node relies
  on: the operations only move the members of the epoch between the two lists.
\<close>

section \<open>State and operations\<close>

record epoch =
  ep_number :: int
  ep_witness_idx :: int
  ep_candidates :: "key list"
  ep_witnesses :: "key list"
  ep_num_slots :: int

definition Epoch_init :: "int \<Rightarrow> int \<Rightarrow> epoch" where
  "Epoch_init number slots =
     \<lparr>ep_number = number, ep_witness_idx = 0, ep_candidates = [], ep_witnesses = [],
      ep_num_slots = slots\<rparr>"

definition set_candidates_and_witnesses :: "key list \<Rightarrow> epoch \<Rightarrow> epoch" where
  "set_candidates_and_witnesses cs e =
     e\<lparr>ep_witnesses := slice_to (ep_num_slots e) cs,
       ep_candidates := ep_candidates e @ slice_from (ep_num_slots e) cs\<rparr>"

definition is_over :: "epoch \<Rightarrow> bool" where
  "is_over e \<longleftrightarrow> ep_witness_idx e \<ge> int (length (ep_witnesses e)) * ROUNDS_PER_EPOCH"

definition is_last_round :: "epoch \<Rightarrow> bool" where
  "is_last_round e \<longleftrightarrow> ep_witness_idx e \<ge> int (length (ep_witnesses e)) * (ROUNDS_PER_EPOCH - 1)"

definition slots_remaining_in_epoch :: "epoch \<Rightarrow> int" where
  "slots_remaining_in_epoch e = int (length (ep_witnesses e)) * ROUNDS_PER_EPOCH - ep_witness_idx e"

definition next_epoch_number :: "epoch \<Rightarrow> int" where
  "next_epoch_number e = ep_number e + 1"

definition is_initialized :: "epoch \<Rightarrow> bool" where
  "is_initialized e \<longleftrightarrow> \<not> (ep_witness_idx e = 0 \<and> length (ep_witnesses e) = 0)"

definition is_witness :: "key \<Rightarrow> epoch \<Rightarrow> bool" where
  "is_witness k e \<longleftrightarrow> k \<in> set (ep_witnesses e)"

definition position_in_witness_list :: "key \<Rightarrow> epoch \<Rightarrow> nat option" where
  "position_in_witness_list k e = index_of (ep_witnesses e) k"

definition full_candidate_list :: "epoch \<Rightarrow> key list" where
  "full_candidate_list e = ep_witnesses e @ ep_candidates e"

text \<open>\<open>self.witnesses[idx]\<close> with an index that may be out of range.\<close>

definition witness_at :: "int \<Rightarrow> epoch \<Rightarrow> key option" where
  "witness_at i e =
     (if 0 \<le> i \<and> i < int (length (ep_witnesses e)) then Some (ep_witnesses e ! nat i) else None)"

definition current_witness :: "epoch \<Rightarrow> key option" where
  "current_witness e =
     (if ep_witnesses e = [] then None
      else witness_at (ep_witness_idx e mod int (length (ep_witnesses e))) e)"

definition next_witness :: "epoch \<Rightarrow> key option" where
  "next_witness e =
     (if ep_witnesses e = [] then None
      else witness_at ((ep_witness_idx e + 1) mod int (length (ep_witnesses e))) e)"

definition reorder_witnesslist :: "(string \<Rightarrow> string) \<Rightarrow> string \<Rightarrow> epoch \<Rightarrow> epoch" where
  "reorder_witnesslist sha seed e =
     (let hashes = map (\<lambda>w. (w, concat_and_hash sha [PyStr w, PyStr seed, PyInt (ep_witness_idx e)]))
            (ep_witnesses e)
      in e\<lparr>ep_witnesses := map fst (sort_key snd hashes)\<rparr>)"

text \<open>
  \<open>increment_witness\<close>: the index is already advanced when the modulo by an empty witness
  list raises.
\<close>

definition increment_witness :: "(string \<Rightarrow> string) \<Rightarrow> string \<Rightarrow> (epoch, unit) py" where
  "increment_witness sha pre_block_id =
     thenP (modify (\<lambda>e. e\<lparr>ep_witness_idx := ep_witness_idx e + 1\<rparr>))
       (\<lambda>e. if length (ep_witnesses e) = 0 then (Raise ZeroDivisionError, e)
            else if ep_witness_idx e mod int (length (ep_witnesses e)) = 0 \<and> \<not> is_over e
              then (Return (), reorder_witnesslist sha pre_block_id e)
            else (Return (), e))"

definition downgrade_witness :: "key \<Rightarrow> (epoch, unit) py" where
  "downgrade_witness k = (\<lambda>e.
     case index_of (ep_witnesses e) k of
       None \<Rightarrow> (Return (), e)
     | Some i \<Rightarrow>
        (case ep_candidates e of
           [] \<Rightarrow> (Hang, e)
         | c # cs \<Rightarrow>
            (Return (), e\<lparr>ep_candidates := cs @ [k], ep_witnesses := (ep_witnesses e)[i := c]\<rparr>)))"

section \<open>Basic facts\<close>

lemmas epoch_defs = is_over_def is_last_round_def slots_remaining_in_epoch_def
  next_epoch_number_def is_initialized_def is_witness_def full_candidate_list_def

lemma witnesses_reorder: "ep_witnesses (reorder_witnesslist sha seed e) =
    sort_key (\<lambda>w. concat_and_hash sha [PyStr w, PyStr seed, PyInt (ep_witness_idx e)]) (ep_witnesses e)"
proof -
  have "map fst (sort_key snd (map (\<lambda>w. (w, f w)) ws)) = sort_key f ws" for f :: "key \<Rightarrow> string" and ws
  proof -
    have "insort_key snd (x, f x) (map (\<lambda>w. (w, f w)) zs) = map (\<lambda>w. (w, f w)) (insort_key f x zs)" for x zs
      by (induction zs) auto
    then have "sort_key snd (map (\<lambda>w. (w, f w)) ws) = map (\<lambda>w. (w, f w)) (sort_key f ws)"
      by (induction ws) (simp_all add: sort_key_def)
    then show ?thesis by (simp add: comp_def)
  qed
  then show ?thesis by (simp add: reorder_witnesslist_def Let_def)
qed

lemma reorder_frame [simp]:
  "ep_number (reorder_witnesslist sha seed e) = ep_number e"
  "ep_witness_idx (reorder_witnesslist sha seed e) = ep_witness_idx e"
  "ep_candidates (reorder_witnesslist sha seed e) = ep_candidates e"
  "ep_num_slots (reorder_witnesslist sha seed e) = ep_num_slots e"
  by (simp_all add: reorder_witnesslist_def Let_def)

lemma reorder_content [simp]:
  "mset (ep_witnesses (reorder_witnesslist sha seed e)) = mset (ep_witnesses e)"
  "length (ep_witnesses (reorder_witnesslist sha seed e)) = length (ep_witnesses e)"
  "set (ep_witnesses (reorder_witnesslist sha seed e)) = set (ep_witnesses e)"
  by (simp_all add: witnesses_reorder)

lemma run_increment: "increment_witness sha b e =
    (let f = e\<lparr>ep_witness_idx := ep_witness_idx e + 1\<rparr>
     in if ep_witnesses e = [] then (Raise ZeroDivisionError, f)
        else if (ep_witness_idx e + 1) mod int (length (ep_witnesses e)) = 0 \<and> \<not> is_over f
          then (Return (), reorder_witnesslist sha b f)
        else (Return (), f))"
  by (simp add: increment_witness_def run_simps Let_def)

lemma increment_frame [simp]:
  "ep_witness_idx (snd (increment_witness sha b e)) = ep_witness_idx e + 1"
  "ep_candidates (snd (increment_witness sha b e)) = ep_candidates e"
  "ep_number (snd (increment_witness sha b e)) = ep_number e"
  "ep_num_slots (snd (increment_witness sha b e)) = ep_num_slots e"
  "mset (ep_witnesses (snd (increment_witness sha b e))) = mset (ep_witnesses e)"
  "length (ep_witnesses (snd (increment_witness sha b e))) = length (ep_witnesses e)"
  by (simp_all add: run_increment Let_def)

lemma increment_set [simp]: "set (ep_witnesses (snd (increment_witness sha b e))) = set (ep_witnesses e)"
  by (metis increment_frame(5) set_mset_mset)

lemma increment_result: "fst (increment_witness sha b e) =
    (if ep_witnesses e = [] then Raise ZeroDivisionError else Return ())"
  by (simp add: run_increment Let_def)

lemma increment_same_round:
  assumes "(ep_witness_idx e + 1) mod int (length (ep_witnesses e)) \<noteq> 0"
  shows "ep_witnesses (snd (increment_witness sha b e)) = ep_witnesses e"
  using assms by (auto simp: run_increment Let_def)

lemma downgrade_frame [simp]:
  "ep_witness_idx (snd (downgrade_witness k e)) = ep_witness_idx e"
  "ep_number (snd (downgrade_witness k e)) = ep_number e"
  "ep_num_slots (snd (downgrade_witness k e)) = ep_num_slots e"
  "length (ep_witnesses (snd (downgrade_witness k e))) = length (ep_witnesses e)"
  by (simp_all add: downgrade_witness_def split: option.split list.split)

lemma mset_downgrade: "mset (full_candidate_list (snd (downgrade_witness k e))) = mset (full_candidate_list e)"
proof (cases "index_of (ep_witnesses e) k")
  case None
  then show ?thesis by (simp add: downgrade_witness_def)
next
  case (Some i)
  then have i: "i < length (ep_witnesses e)" "ep_witnesses e ! i = k" by (auto dest: index_of_Some)
  show ?thesis
  proof (cases "ep_candidates e")
    case (Cons c cs)
    have "add_mset k (mset ((ep_witnesses e)[i := c])) = add_mset c (mset (ep_witnesses e))"
      using i by (auto simp: mset_update)
    then show ?thesis
      using Some Cons by (simp add: downgrade_witness_def full_candidate_list_def)
  qed (simp add: downgrade_witness_def Some)
qed

lemma mset_increment: "mset (full_candidate_list (snd (increment_witness sha b e))) = mset (full_candidate_list e)"
  by (simp add: full_candidate_list_def)

lemma current_witness_eq: "current_witness e =
    (if ep_witnesses e = [] then None
     else Some (ep_witnesses e ! nat (ep_witness_idx e mod int (length (ep_witnesses e)))))"
  by (simp add: current_witness_def witness_at_def)

lemma next_witness_eq: "next_witness e =
    (if ep_witnesses e = [] then None
     else Some (ep_witnesses e ! nat ((ep_witness_idx e + 1) mod int (length (ep_witnesses e)))))"
  by (simp add: next_witness_def witness_at_def)

lemma current_witness_in: "current_witness e = Some w \<Longrightarrow> w \<in> set (ep_witnesses e)"
  by (auto simp: current_witness_eq nat_less_iff split: if_splits)

text \<open>The witness list is as long as the slice of the members that made it.\<close>

definition epoch_ok :: "epoch \<Rightarrow> bool" where
  "epoch_ok e \<longleftrightarrow> length (ep_witnesses e) = length (slice_to (ep_num_slots e) (full_candidate_list e))"

lemma length_slice_to: "length (slice_to n xs) = min (length xs) (slice_bound n xs)"
  by (simp add: slice_to_def)

lemma slice_bound_length: "length xs = length ys \<Longrightarrow> slice_bound n xs = slice_bound n ys"
  by (simp add: slice_bound_def)

lemma epoch_ok_init: "epoch_ok (Epoch_init n slots)"
  by (simp add: epoch_ok_def Epoch_init_def full_candidate_list_def slice_to_def)

lemma epoch_ok_set: "ep_candidates e = [] \<Longrightarrow> epoch_ok (set_candidates_and_witnesses cs e)"
  by (simp add: epoch_ok_def set_candidates_and_witnesses_def full_candidate_list_def)

lemma epoch_ok_mset:
  assumes "epoch_ok e" "ep_num_slots f = ep_num_slots e" "length (ep_witnesses f) = length (ep_witnesses e)"
    and "mset (full_candidate_list f) = mset (full_candidate_list e)"
  shows "epoch_ok f"
  using assms slice_bound_length [of "full_candidate_list f" "full_candidate_list e"]
  by (metis epoch_ok_def length_slice_to size_mset)

lemma epoch_ok_steps: "epoch_ok e \<Longrightarrow> epoch_ok (snd (increment_witness sha b e))"
  "epoch_ok e \<Longrightarrow> epoch_ok (snd (downgrade_witness k e))"
  by (erule epoch_ok_mset, simp_all add: mset_increment mset_downgrade)+

text \<open>An epoch is determined by its number, its index, its members and its slots.\<close>

lemma epoch_ok_rebuild:
  assumes "epoch_ok e"
  shows "(set_candidates_and_witnesses (full_candidate_list e) (Epoch_init (ep_number e) (ep_num_slots e)))
    \<lparr>ep_witness_idx := ep_witness_idx e\<rparr> = e"
proof -
  have "length (ep_witnesses e) = length (slice_to (ep_num_slots e) (full_candidate_list e))"
    using assms by (simp add: epoch_ok_def)
  moreover have "full_candidate_list e = ep_witnesses e @ ep_candidates e" by (simp add: full_candidate_list_def)
  ultimately have "slice_to (ep_num_slots e) (full_candidate_list e) = ep_witnesses e
      \<and> slice_from (ep_num_slots e) (full_candidate_list e) = ep_candidates e"
    using slice_append [of "ep_num_slots e" "full_candidate_list e"] by (metis append_eq_append_conv)
  then show ?thesis by (simp add: set_candidates_and_witnesses_def Epoch_init_def)
qed

section \<open>The contract: a roster of members and an expected signer\<close>

datatype slot_event = Advance string | Demote key

definition roster_step ::
    "(string \<Rightarrow> ('s, unit) py) \<Rightarrow> (key \<Rightarrow> ('s, unit) py) \<Rightarrow> slot_event \<Rightarrow> 's \<Rightarrow> 's" where
  "roster_step advance demote ev s = snd ((case ev of Advance b \<Rightarrow> advance b | Demote k \<Rightarrow> demote k) s)"

locale roster =
  fixes members :: "'s \<Rightarrow> key multiset"
    and n_slots :: "'s \<Rightarrow> nat"
    and signer :: "'s \<Rightarrow> key option"
    and advance :: "string \<Rightarrow> ('s, unit) py"
    and demote :: "key \<Rightarrow> ('s, unit) py"
  assumes members_advance: "members (snd (advance b s)) = members s"
    and members_demote: "members (snd (demote k s)) = members s"
    and slots_advance: "n_slots (snd (advance b s)) = n_slots s"
    and slots_demote: "n_slots (snd (demote k s)) = n_slots s"
    and signer_member: "signer s = Some w \<Longrightarrow> w \<in># members s"
    and signer_exists: "signer s = None \<longleftrightarrow> n_slots s = 0"
begin

lemma members_run: "members (fold (roster_step advance demote) evs s)
    = members s"
  by (induction evs arbitrary: s) (auto simp: roster_step_def members_advance members_demote split: slot_event.split)

lemma slots_run: "n_slots (fold (roster_step advance demote) evs s)
    = n_slots s"
  by (induction evs arbitrary: s) (auto simp: roster_step_def slots_advance slots_demote split: slot_event.split)

lemma signer_run:
  assumes "0 < n_slots s"
  obtains w where "signer (fold (roster_step advance demote) evs s)
      = Some w" and "w \<in># members s"
  using assms signer_exists signer_member members_run slots_run by (metis neq0_conv not_None_eq)

end

interpretation witness_roster: roster "\<lambda>e. mset (full_candidate_list e)" "\<lambda>e. length (ep_witnesses e)"
  current_witness "increment_witness sha" downgrade_witness for sha
proof unfold_locales
  fix e w
  show "w \<in># mset (full_candidate_list e)" if "current_witness e = Some w"
    using current_witness_in [OF that] by (simp add: full_candidate_list_def)
  show "(current_witness e = None) = (length (ep_witnesses e) = 0)"
    by (simp add: current_witness_eq)
qed (simp_all only: mset_increment mset_downgrade increment_frame downgrade_frame)

text \<open>A run of slot events: blocks or missed slots advance the slot, penalties demote a witness.\<close>

definition slot_run :: "(string \<Rightarrow> string) \<Rightarrow> slot_event list \<Rightarrow> epoch \<Rightarrow> epoch" where
  "slot_run sha evs e = fold (roster_step (increment_witness sha) downgrade_witness) evs e"

text \<open>The expected signers while the slots advance over the given block ids.\<close>

fun slot_signers :: "(string \<Rightarrow> string) \<Rightarrow> string list \<Rightarrow> epoch \<Rightarrow> key option list" where
  "slot_signers sha [] e = []"
| "slot_signers sha (b # bs) e = current_witness e # slot_signers sha bs (snd (increment_witness sha b e))"

fun advance_all :: "(string \<Rightarrow> string) \<Rightarrow> string list \<Rightarrow> epoch \<Rightarrow> epoch" where
  "advance_all sha [] e = e"
| "advance_all sha (b # bs) e = advance_all sha bs (snd (increment_witness sha b e))"

section \<open>Rounds\<close>

lemma slot_signers_append: "slot_signers sha (bs @ cs) e = slot_signers sha bs e @ slot_signers sha cs (advance_all sha bs e)"
  by (induction bs arbitrary: e) auto

lemma advance_all_append: "advance_all sha (bs @ cs) e = advance_all sha cs (advance_all sha bs e)"
  by (induction bs arbitrary: e) auto

lemma advance_all_frame:
  "ep_witness_idx (advance_all sha bs e) = ep_witness_idx e + int (length bs)"
  "ep_candidates (advance_all sha bs e) = ep_candidates e"
  "mset (ep_witnesses (advance_all sha bs e)) = mset (ep_witnesses e)"
  "length (ep_witnesses (advance_all sha bs e)) = length (ep_witnesses e)"
  "ep_number (advance_all sha bs e) = ep_number e"
  "ep_num_slots (advance_all sha bs e) = ep_num_slots e"
  by (induction bs arbitrary: e) auto

text \<open>Inside a round the witness list stays, so the signers follow it in order.\<close>

lemma signers_in_round:
  assumes "ep_witness_idx e mod int (length (ep_witnesses e)) = int j"
    and "j + length bs \<le> length (ep_witnesses e)"
  shows "slot_signers sha bs e = map Some (take (length bs) (drop j (ep_witnesses e)))"
  using assms
proof (induction bs arbitrary: e j)
  case (Cons b bs)
  let ?n = "length (ep_witnesses e)" and ?e = "snd (increment_witness sha b e)"
  have j: "j < ?n" using Cons.prems(2) by simp
  have cur: "current_witness e = Some (ep_witnesses e ! j)"
    using Cons.prems(1) j by (auto simp: current_witness_eq)
  have "slot_signers sha bs ?e = map Some (take (length bs) (drop (Suc j) (ep_witnesses e)))"
  proof (cases "bs = []")
    case False
    then have lt: "int j + 1 < int ?n" using Cons.prems(2) by (cases bs) auto
    have m: "(ep_witness_idx e + 1) mod int ?n = int j + 1"
    proof -
      have "(ep_witness_idx e + 1) mod int ?n = (ep_witness_idx e mod int ?n + 1) mod int ?n"
        by (rule mod_add_left_eq [symmetric])
      then show ?thesis using Cons.prems(1) lt by simp
    qed
    then have same: "ep_witnesses ?e = ep_witnesses e" by (intro increment_same_round) simp
    have "slot_signers sha bs ?e = map Some (take (length bs) (drop (Suc j) (ep_witnesses ?e)))"
      using m Cons.prems(2) by (intro Cons.IH) simp_all
    then show ?thesis by (simp only: same)
  qed simp
  moreover have "drop j (ep_witnesses e) = ep_witnesses e ! j # drop (Suc j) (ep_witnesses e)"
    using j by (rule Cons_nth_drop_Suc [symmetric])
  ultimately show ?case by (simp add: cur)
qed simp

lemma signers_one_round:
  assumes "ep_witness_idx e mod int (length (ep_witnesses e)) = 0"
    and "length bs = length (ep_witnesses e)"
  shows "slot_signers sha bs e = map Some (ep_witnesses e)"
  using signers_in_round [of e 0 bs sha] assms by simp

text \<open>Over whole rounds every witness signs once per round.\<close>

lemma signers_rounds:
  assumes "ep_witness_idx e mod int (length (ep_witnesses e)) = 0"
    and "length bs = k * length (ep_witnesses e)"
  shows "mset (slot_signers sha bs e) = repeat_mset k (image_mset Some (mset (ep_witnesses e)))"
  using assms
proof (induction k arbitrary: e bs)
  case (Suc k)
  let ?n = "length (ep_witnesses e)"
  define xs ys where "xs = take ?n bs" and "ys = drop ?n bs"
  have bs: "bs = xs @ ys" and len: "length xs = ?n" "length ys = k * ?n"
    using Suc.prems(2) by (simp_all add: xs_def ys_def)
  let ?e = "advance_all sha xs e"
  have "mset (slot_signers sha ys ?e) = repeat_mset k (image_mset Some (mset (ep_witnesses ?e)))"
    using Suc.prems(1) len by (intro Suc.IH) (simp_all add: advance_all_frame)
  moreover have "slot_signers sha xs e = map Some (ep_witnesses e)"
    using Suc.prems(1) len by (intro signers_one_round) simp_all
  ultimately show ?case by (simp add: bs slot_signers_append advance_all_frame)
qed simp

section \<open>Properties\<close>

text \<open>C24: whatever blocks, missed slots and penalties happen during an epoch, its members stay
  exactly the elected ones (as a multiset over witnesses and candidates), the number of witness
  slots stays, and there is always an expected signer, which is one of the members.\<close>

theorem epoch_members_preserved:
  assumes "ep_witnesses e \<noteq> []"
  shows "mset (full_candidate_list (slot_run sha evs e)) = mset (full_candidate_list e)
    \<and> length (ep_witnesses (slot_run sha evs e)) = length (ep_witnesses e)
    \<and> (\<exists>w. current_witness (slot_run sha evs e) = Some w \<and> w \<in> set (full_candidate_list e))"
proof -
  have pos: "0 < length (ep_witnesses e)" using assms by simp
  obtain w where "current_witness (slot_run sha evs e) = Some w" "w \<in># mset (full_candidate_list e)"
    unfolding slot_run_def by (rule witness_roster.signer_run [OF pos])
  then show ?thesis
    by (simp add: slot_run_def witness_roster.members_run witness_roster.slots_run)
qed

theorem epoch_members_preserved_witness:
  "length (ep_witnesses (slot_run id [Demote ''a'', Advance ''x'']
     \<lparr>ep_number = 1, ep_witness_idx = 0, ep_candidates = [''c''], ep_witnesses = [''a'', ''b''], ep_num_slots = 2\<rparr>)) = 2"
  using epoch_members_preserved [of "\<lparr>ep_number = 1, ep_witness_idx = 0, ep_candidates = [''c''],
    ep_witnesses = [''a'', ''b''], ep_num_slots = 2\<rparr>" id "[Demote ''a'', Advance ''x'']"] by simp

text \<open>C23: the epoch is fair: while the slots of a new epoch advance over any block ids, every
  elected witness is the expected signer of exactly \<open>ROUNDS_PER_EPOCH\<close> slots, whatever the
  reordering between rounds.\<close>

theorem epoch_fairness:
  assumes "ep_witness_idx e = 0" and "distinct (ep_witnesses e)" and "w \<in> set (ep_witnesses e)"
    and "int (length bs) = ROUNDS_PER_EPOCH * int (length (ep_witnesses e))"
  shows "int (count_list (slot_signers sha bs e) (Some w)) = ROUNDS_PER_EPOCH"
proof -
  have "length bs = 3 * length (ep_witnesses e)" using assms(4) by (simp add: ROUNDS_PER_EPOCH_def)
  then have "mset (slot_signers sha bs e) = repeat_mset 3 (image_mset Some (mset (ep_witnesses e)))"
    using assms(1) by (intro signers_rounds) simp_all
  then have "count (mset (slot_signers sha bs e)) (Some w) = 3 * count (image_mset Some (mset (ep_witnesses e))) (Some w)"
    by simp
  also have "count (image_mset Some (mset (ep_witnesses e))) (Some w) = 1"
    using assms(2,3) by (simp add: count_image_some distinct_count_atmost_1)
  finally show ?thesis by (simp add: ROUNDS_PER_EPOCH_def count_mset)
qed

theorem epoch_fairness_witness:
  "int (count_list (slot_signers id [''p'', ''q'', ''r'', ''s'', ''t'', ''u'']
     \<lparr>ep_number = 1, ep_witness_idx = 0, ep_candidates = [], ep_witnesses = [''a'', ''b''], ep_num_slots = 2\<rparr>)
     (Some ''b'')) = 3"
  using epoch_fairness [of "\<lparr>ep_number = 1, ep_witness_idx = 0, ep_candidates = [],
    ep_witnesses = [''a'', ''b''], ep_num_slots = 2\<rparr>" "''b''" "[''p'', ''q'', ''r'', ''s'', ''t'', ''u'']" id]
  by (simp add: ROUNDS_PER_EPOCH_def)

text \<open>An epoch lasts exactly \<open>ROUNDS_PER_EPOCH\<close> slots per witness: a new epoch that has
  advanced over some blocks is over when that many have passed and not before, and
  \<open>slots_remaining_in_epoch\<close> counts down to it.\<close>

theorem epoch_length:
  assumes "ep_witness_idx e = 0"
  shows "(is_over (advance_all sha bs e) \<longleftrightarrow> int (length bs) \<ge> 3 * int (length (ep_witnesses e)))
    \<and> slots_remaining_in_epoch (advance_all sha bs e) = 3 * int (length (ep_witnesses e)) - int (length bs)"
  using assms by (auto simp: epoch_defs ROUNDS_PER_EPOCH_def advance_all_frame)

theorem epoch_length_witness:
  "slots_remaining_in_epoch (advance_all id [''p''] (Epoch_init 4 2)) = - 1"
  using epoch_length [of "Epoch_init 4 2" id "[''p'']"] by (simp add: Epoch_init_def)

text \<open>A downgrade replaces the witness, at its own slot, by the head of the candidate queue
  and sends it to the back of the queue; in an epoch without duplicate members it is then no
  witness any more, and every other slot keeps its witness.\<close>

theorem downgrade_replaces:
  assumes "distinct (full_candidate_list e)" and "i < length (ep_witnesses e)"
    and "ep_candidates e = c # cs"
  shows "downgrade_witness (ep_witnesses e ! i) e =
      (Return (), e\<lparr>ep_candidates := cs @ [ep_witnesses e ! i], ep_witnesses := (ep_witnesses e)[i := c]\<rparr>)
    \<and> \<not> is_witness (ep_witnesses e ! i) (snd (downgrade_witness (ep_witnesses e ! i) e))
    \<and> is_witness c (snd (downgrade_witness (ep_witnesses e ! i) e))"
proof -
  have d: "distinct (ep_witnesses e)" and "c \<notin> set (ep_witnesses e)"
    using assms by (auto simp: full_candidate_list_def)
  then have "ep_witnesses e ! i \<noteq> c" using assms(2) by auto
  then have "ep_witnesses e ! i \<notin> set ((ep_witnesses e)[i := c])"
    using d assms(2) by (auto simp: set_conv_nth nth_list_update nth_eq_iff_index_eq)
  moreover have "c \<in> set ((ep_witnesses e)[i := c])" using assms(2) by (rule set_update_memI)
  ultimately show ?thesis
    using index_of_nth [OF d assms(2)] assms(3) by (simp add: downgrade_witness_def is_witness_def)
qed

theorem downgrade_replaces_witness:
  "downgrade_witness ''b''
     \<lparr>ep_number = 1, ep_witness_idx = 0, ep_candidates = [''c'', ''d''], ep_witnesses = [''a'', ''b''], ep_num_slots = 2\<rparr>
   = (Return (), \<lparr>ep_number = 1, ep_witness_idx = 0, ep_candidates = [''d'', ''b''], ep_witnesses = [''a'', ''c''], ep_num_slots = 2\<rparr>)"
  using downgrade_replaces [of "\<lparr>ep_number = 1, ep_witness_idx = 0, ep_candidates = [''c'', ''d''],
    ep_witnesses = [''a'', ''b''], ep_num_slots = 2\<rparr>" 1 "''c''" "[''d'']"]
  by (simp add: full_candidate_list_def)

text \<open>C39: downgrading never raises, and it never returns exactly when the penalised node is a
  witness and no candidate is left: the blocking \<open>Queue.get\<close> then waits for ever.\<close>

theorem downgrade_blocks_iff:
  "(fst (downgrade_witness k e) = Hang \<longleftrightarrow> is_witness k e \<and> ep_candidates e = [])
    \<and> (fst (downgrade_witness k e) = Return () \<longleftrightarrow> \<not> (is_witness k e \<and> ep_candidates e = []))"
proof (cases "index_of (ep_witnesses e) k")
  case None
  moreover from None have "\<not> is_witness k e" by (simp add: is_witness_def index_of_None)
  ultimately show ?thesis by (simp add: downgrade_witness_def)
next
  case (Some i)
  then have "is_witness k e" by (auto simp: is_witness_def dest: index_of_Some)
  with Some show ?thesis by (simp add: downgrade_witness_def split: list.split)
qed

text \<open>All nodes order the next round alike: from the same set of witnesses (in any order),
  the same slot index and the same seed they get the same list, which holds the same witnesses
  sorted by digest, provided the digest does not collide on these witnesses.\<close>

theorem reorder_agreement:
  assumes "mset (ep_witnesses e1) = mset (ep_witnesses e2)" and "ep_witness_idx e1 = ep_witness_idx e2"
    and "inj_on (\<lambda>w. concat_and_hash sha [PyStr w, PyStr seed, PyInt (ep_witness_idx e1)]) (set (ep_witnesses e1))"
  shows "ep_witnesses (reorder_witnesslist sha seed e1) = ep_witnesses (reorder_witnesslist sha seed e2)
    \<and> mset (ep_witnesses (reorder_witnesslist sha seed e1)) = mset (ep_witnesses e1)
    \<and> sorted (map (\<lambda>w. concat_and_hash sha [PyStr w, PyStr seed, PyInt (ep_witness_idx e1)])
        (ep_witnesses (reorder_witnesslist sha seed e1)))"
proof -
  let ?f = "\<lambda>w. concat_and_hash sha [PyStr w, PyStr seed, PyInt (ep_witness_idx e1)]"
  have "sort_key ?f (ep_witnesses e1) = sort_key ?f (ep_witnesses e2)"
    using assms(1,3) by (intro sort_key_inj_key_eq) simp_all
  then show ?thesis using assms(1,2) by (simp add: witnesses_reorder)
qed

theorem reorder_agreement_witness:
  "ep_witnesses (reorder_witnesslist id ''s'' \<lparr>ep_number = 1, ep_witness_idx = 2, ep_candidates = [],
      ep_witnesses = [''b'', ''a''], ep_num_slots = 2\<rparr>) =
   ep_witnesses (reorder_witnesslist id ''s'' \<lparr>ep_number = 1, ep_witness_idx = 2, ep_candidates = [],
      ep_witnesses = [''a'', ''b''], ep_num_slots = 2\<rparr>)"
  using reorder_agreement [of "\<lparr>ep_number = 1, ep_witness_idx = 2, ep_candidates = [],
      ep_witnesses = [''b'', ''a''], ep_num_slots = 2\<rparr>" "\<lparr>ep_number = 1, ep_witness_idx = 2, ep_candidates = [],
      ep_witnesses = [''a'', ''b''], ep_num_slots = 2\<rparr>" id "''s''"]
  by (simp add: concat_and_hash_concat)

text \<open>\<open>current_witness\<close> and \<open>next_witness\<close> are \<open>None\<close> only when there is no witness at all:
  after the last slot of an epoch they still name a node, although the documentation promises
  \<open>None\<close> once the epoch is over.\<close>

theorem current_witness_none_iff:
  "(current_witness e = None \<longleftrightarrow> ep_witnesses e = []) \<and> (next_witness e = None \<longleftrightarrow> ep_witnesses e = [])"
  by (simp add: current_witness_eq next_witness_eq)

text \<open>Advancing an epoch that has no witnesses raises, but only after the index has moved, so
  that from then on the epoch reports itself as initialized although it has no signer.\<close>

theorem failed_increment_looks_initialized:
  "fst (increment_witness sha b (Epoch_init n slots)) = Raise ZeroDivisionError
    \<and> \<not> is_initialized (Epoch_init n slots)
    \<and> is_initialized (snd (increment_witness sha b (Epoch_init n slots)))
    \<and> current_witness (snd (increment_witness sha b (Epoch_init n slots))) = None"
  by (simp add: run_increment Let_def Epoch_init_def is_initialized_def current_witness_def)

end
