(* ===== verification/Peer_Node.thy ===== *)
theory Peer_Node
  imports Config_Utils
begin

text \<open>
  \<open>PeerNode\<close> of \<open>engine/consensus_node.py\<close> and the scores that \<open>DDPoANode.penalize\<close> and
  \<open>DDPoANode.reward\<close> keep in it. A score is a binary64 number; the arithmetic is that of
  the theory Float64. Clock readings are rationals.
\<close>

record peer_node =
  pn_key :: key
  pn_score :: rat
  pn_last_seen :: rat
  pn_online :: bool

definition PeerNode :: "key \<Rightarrow> rat \<Rightarrow> peer_node" where
  "PeerNode k now = \<lparr>pn_key = k, pn_score = 1, pn_last_seen = now, pn_online = False\<rparr>"

definition pn_seen :: "rat \<Rightarrow> peer_node \<Rightarrow> peer_node" where
  "pn_seen now p = p\<lparr>pn_online := True, pn_last_seen := now\<rparr>"

definition pn_set_online :: "bool \<Rightarrow> peer_node \<Rightarrow> peer_node" where
  "pn_set_online b p = p\<lparr>pn_online := b\<rparr>"

text \<open>The literals \<open>0.75\<close> (exact) and \<open>1.075\<close> (rounded to binary64).\<close>

definition penalized_score :: "rat \<Rightarrow> rat" where
  "penalized_score s = max 0 (fmul s (3/4))"

definition rewarded_score :: "rat \<Rightarrow> rat" where
  "rewarded_score s = min 1 (fmul s (fl (43/40)))"

section \<open>Scores stay representable numbers of the interval (0, 1]\<close>

definition score_ok :: "rat \<Rightarrow> bool" where
  "score_ok s \<longleftrightarrow> 0 < s \<and> s \<le> 1 \<and> fl s = s"

lemma score_ok_1 [simp]: "score_ok 1"
  by (simp add: score_ok_def)

lemma score_ok_penalized:
  assumes "score_ok s"
  shows "score_ok (penalized_score s)" and "penalized_score s \<le> s"
proof -
  have s: "0 < s" "s \<le> 1" "fl s = s" using assms by (auto simp: score_ok_def)
  have "0 < fl (s * (3/4))" using s by (intro fl_three_quarters_pos) auto
  moreover have "fl (s * (3/4)) \<le> s"
    using binary64.rnd_shrink [of s "3/4"] s by simp
  moreover have "fl (fl (s * (3/4))) = fl (s * (3/4))" using s by (intro fl_idem) simp
  ultimately show "score_ok (penalized_score s)" "penalized_score s \<le> s"
    using s by (auto simp: score_ok_def penalized_score_def fmul_def max_def)
qed

lemma score_ok_rewarded:
  assumes "score_ok s"
  shows "score_ok (rewarded_score s)" and "s \<le> rewarded_score s"
proof -
  have s: "0 < s" "s \<le> 1" "fl s = s" using assms by (auto simp: score_ok_def)
  have c: "1 \<le> fl (43/40)" using fl_mono [of 1 "43/40"] by simp
  have "s \<le> fl (s * fl (43/40))"
    using binary64.rnd_grow [of s "fl (43/40)"] s c by simp
  moreover have "fl (fl (s * fl (43/40))) = fl (s * fl (43/40))"
    using s c by (intro fl_idem) simp
  ultimately show "score_ok (rewarded_score s)" "s \<le> rewarded_score s"
    using s by (auto simp: score_ok_def rewarded_score_def fmul_def min_def)
qed

end
