(* ===== verification/Voting.thy ===== *)
theory Voting
  imports Peer_Node
begin

text \<open>
  \<open>engine/voting_system.py\<close>: ballots, the results computed from them, and the agreement of
  the online peers on a result. \<open>stv\<close> stands for the third-party \<open>ScottishSTV\<close> poll (seats,
  candidates, the ballots in the order they are added) and its \<open>elected_as_tuple()\<close>;
  \<open>random.choices\<close> is written out, over the stream of numbers that \<open>random()\<close> returns.
\<close>

section \<open>State\<close>

record poll =
  pl_seats :: nat
  pl_candidates :: "key list"
  pl_ballots :: "ballot list"

record voting =
  vs_key :: key
  vs_peer_keys :: "key list"
  vs_polls :: "(int, poll) dict"
  vs_ballots :: "(int, (key, ballot) dict) dict"
  vs_results :: "(int, (key, result) dict) dict"
  vs_candidates :: "(int, key list) dict"
  vs_num_slots :: int

type_synonym stv = "nat \<Rightarrow> key list \<Rightarrow> ballot list \<Rightarrow> key list outcome"

definition VotingSystem :: "key \<Rightarrow> key list \<Rightarrow> int \<Rightarrow> voting" where
  "VotingSystem k peers slots =
     \<lparr>vs_key = k, vs_peer_keys = peers, vs_polls = [], vs_ballots = [], vs_results = [],
      vs_candidates = [], vs_num_slots = slots\<rparr>"

section \<open>Filling a ballot\<close>

text \<open>\<open>random.choices(population, weights=weights, k=1)[0]\<close>, with the number \<open>random()\<close> returned.\<close>

fun accumulate :: "rat \<Rightarrow> rat list \<Rightarrow> rat list" where
  "accumulate t [] = [t]"
| "accumulate t (w # ws) = t # accumulate (fadd t w) ws"

definition cum_weights :: "rat list \<Rightarrow> rat list" where
  "cum_weights ws = (case ws of [] \<Rightarrow> [] | w # ws' \<Rightarrow> accumulate w ws')"

function bisect_right :: "rat list \<Rightarrow> rat \<Rightarrow> nat \<Rightarrow> nat \<Rightarrow> nat" where
  "bisect_right a x lo hi =
     (if lo < hi then
        let mid = (lo + hi) div 2
        in if x < a ! mid then bisect_right a x lo mid else bisect_right a x (mid + 1) hi
      else lo)"
  by pat_completeness auto
termination by (relation "measure (\<lambda>(a, x, lo, hi). hi - lo)") auto

declare bisect_right.simps [simp del]

definition choices1 :: "rat \<Rightarrow> key list \<Rightarrow> rat list \<Rightarrow> key outcome" where
  "choices1 r population weights =
     (let cum = cum_weights weights
      in if length cum \<noteq> length population then Raise ValueError
         else if cum = [] then Raise IndexError
         else if last cum \<le> 0 then Raise ValueError
         else Return (population ! bisect_right cum (fmul r (last cum)) 0 (length population - 1)))"

text \<open>\<open>[peers[p].score if peers[p].online else 0.001 for p in population]\<close>\<close>

definition OFFLINE_WEIGHT :: rat where "OFFLINE_WEIGHT = fl (1/1000)"

fun ballot_weights :: "(key, peer_node) dict \<Rightarrow> key list \<Rightarrow> rat list outcome" where
  "ballot_weights peers [] = Return []"
| "ballot_weights peers (p # ps) =
     (case dget peers p of
        None \<Rightarrow> Raise KeyError
      | Some n \<Rightarrow>
         obind (ballot_weights peers ps)
           (\<lambda>ws. Return ((if pn_online n then pn_score n else OFFLINE_WEIGHT) # ws)))"

text \<open>\<open>l.pop(idx)\<close>\<close>

definition pop_at :: "nat \<Rightarrow> 'a list \<Rightarrow> 'a list" where
  "pop_at i xs = take i xs @ drop (Suc i) xs"

lemma length_pop_at: "i < length xs \<Longrightarrow> length (pop_at i xs) < length xs"
  by (simp add: pop_at_def)

text \<open>The loop draws a candidate, appends it to the ballot and removes it with its weight; \<open>i\<close>
  counts the calls of \<open>random()\<close>.\<close>

function fill_loop :: "(nat \<Rightarrow> rat) \<Rightarrow> nat \<Rightarrow> key list \<Rightarrow> rat list \<Rightarrow> key list \<Rightarrow> key list outcome" where
  "fill_loop rnd i population weights ballot =
     (if population = [] then Return ballot
      else obind (choices1 (rnd i) population weights) (\<lambda>candidate.
        case index_of population candidate of
          None \<Rightarrow> Raise ValueError
        | Some idx \<Rightarrow>
            fill_loop rnd (Suc i) (pop_at idx population) (pop_at idx weights) (ballot @ [candidate])))"
  by pat_completeness auto
termination
  by (relation "measure (\<lambda>(rnd, i, population, weights, ballot). length population)")
    (auto dest!: index_of_Some intro: length_pop_at)

declare fill_loop.simps [simp del]

definition fill_ballot :: "(nat \<Rightarrow> rat) \<Rightarrow> nat \<Rightarrow> (key, peer_node) dict \<Rightarrow> voting \<Rightarrow> key list outcome" where
  "fill_ballot rnd i peers v =
     obind (ballot_weights peers (vs_peer_keys v))
       (\<lambda>weights. fill_loop rnd i (vs_peer_keys v) weights [])"

section \<open>Ballots and results by epoch\<close>

definition add_ballot :: "int \<Rightarrow> key \<Rightarrow> ballot \<Rightarrow> voting \<Rightarrow> voting" where
  "add_ballot epoch_number k b v =
     (let ballots = (if dget (vs_ballots v) epoch_number = None then dput epoch_number [] (vs_ballots v)
                     else vs_ballots v);
          entry = (case dget ballots epoch_number of None \<Rightarrow> [] | Some d \<Rightarrow> d)
      in v\<lparr>vs_ballots := dput epoch_number (dput k b entry) ballots\<rparr>)"

definition set_peer_result :: "int \<Rightarrow> key \<Rightarrow> result \<Rightarrow> voting \<Rightarrow> voting" where
  "set_peer_result epoch_number k r v =
     (let results = (if dget (vs_results v) epoch_number = None then dput epoch_number [] (vs_results v)
                     else vs_results v);
          entry = (case dget results epoch_number of None \<Rightarrow> [] | Some d \<Rightarrow> d)
      in v\<lparr>vs_results := dput epoch_number (dput k r entry) results\<rparr>)"

definition set_candidates :: "int \<Rightarrow> result \<Rightarrow> voting \<Rightarrow> voting" where
  "set_candidates epoch_number r v = v\<lparr>vs_candidates := dput epoch_number r (vs_candidates v)\<rparr>"

definition get_candidates :: "int \<Rightarrow> voting \<Rightarrow> key list option" where
  "get_candidates epoch_number v = dget (vs_candidates v) epoch_number"

definition has_voted :: "key \<Rightarrow> int \<Rightarrow> voting \<Rightarrow> bool" where
  "has_voted k epoch_number v =
     (case dget (vs_ballots v) epoch_number of None \<Rightarrow> False | Some d \<Rightarrow> k \<in> set (dkeys d))"

text \<open>\<open>max(self.num_slots, 1 + ((online_peers * 2) // 3))\<close>\<close>

definition consensus_amount :: "int \<Rightarrow> voting \<Rightarrow> int" where
  "consensus_amount online_peers v = max (vs_num_slots v) (1 + online_peers * 2 div 3)"

definition has_enough_ballots :: "int \<Rightarrow> int \<Rightarrow> voting \<Rightarrow> bool outcome" where
  "has_enough_ballots epoch_number online_peers v =
     (case dget (vs_ballots v) epoch_number of
        None \<Rightarrow> Raise KeyError
      | Some d \<Rightarrow> Return (int (length d) \<ge> consensus_amount online_peers v))"

definition has_all_ballots :: "int \<Rightarrow> int \<Rightarrow> voting \<Rightarrow> bool outcome" where
  "has_all_ballots epoch_number online_peers v =
     (case dget (vs_ballots v) epoch_number of
        None \<Rightarrow> Raise KeyError
      | Some d \<Rightarrow> Return (online_peers \<ge> consensus_amount online_peers v \<and> int (length d) \<ge> online_peers))"

text \<open>The count of every result, in the order the results first occur.\<close>

fun tally :: "result list \<Rightarrow> (result, int) dict \<Rightarrow> (result, int) dict" where
  "tally [] acc = acc"
| "tally (r # rs) acc =
     tally rs (case dget acc r of
       None \<Rightarrow> dput r 1 acc
     | Some c \<Rightarrow> if c \<noteq> 0 then dput r (c + 1) acc else dput r 1 acc)"

definition count_of :: "(result, int) dict \<Rightarrow> result \<Rightarrow> int" where
  "count_of d r = (case dget d r of None \<Rightarrow> 0 | Some c \<Rightarrow> c)"

definition get_consensus_result :: "int \<Rightarrow> voting \<Rightarrow> (result \<times> int) outcome" where
  "get_consensus_result epoch_number v =
     (case dget (vs_results v) epoch_number of
        None \<Rightarrow> Raise KeyError
      | Some d \<Rightarrow>
         (let results = tally (dvalues d) []
          in case max_key (count_of results) (dkeys results) of
               None \<Rightarrow> Raise ValueError
             | Some r \<Rightarrow> Return (r, count_of results r)))"

definition has_enough_similar_results :: "int \<Rightarrow> int \<Rightarrow> voting \<Rightarrow> bool outcome" where
  "has_enough_similar_results epoch_number online_peers v =
     (case dget (vs_results v) epoch_number of
        None \<Rightarrow> Raise KeyError
      | Some d \<Rightarrow>
         (case dget d (vs_key v) of
            None \<Rightarrow> Return False
          | Some own_result \<Rightarrow>
             (let min_results = consensus_amount online_peers v
              in if \<not> int (length (dkeys d)) \<ge> min_results then Return False
                 else Return (foldl (\<lambda>acc r. if r \<noteq> own_result then acc else acc + 1) 0 (dvalues d)
                        \<ge> min_results))))"

section \<open>Tie breaking\<close>

fun tie_weights :: "nat \<Rightarrow> rat \<Rightarrow> rat list" where
  "tie_weights 0 w = []"
| "tie_weights (Suc k) w = (let w' = fdiv w 2 in w' # tie_weights k w')"

text \<open>\<open>[0.5]\<close>, then half of the previous weight for every further candidate.\<close>

definition all_weights :: "nat \<Rightarrow> rat list" where
  "all_weights num_candidates = 1/2 # tie_weights (num_candidates - 1) (1/2)"

fun score_ballot :: "rat list \<Rightarrow> key list \<Rightarrow> nat \<Rightarrow> ballot \<Rightarrow> (key, rat) dict \<Rightarrow> (key, rat) dict outcome" where
  "score_ballot weights res i [] scores = Return scores"
| "score_ballot weights res i (c # cs) scores =
     (if c \<in> set res then score_ballot weights res (Suc i) cs scores
      else if \<not> i < length weights then Raise IndexError
      else score_ballot weights res (Suc i) cs
        (case dget scores c of
           None \<Rightarrow> dput c (weights ! i) scores
         | Some s \<Rightarrow> dput c (fadd s (weights ! i)) scores))"

fun score_ballots :: "rat list \<Rightarrow> key list \<Rightarrow> ballot list \<Rightarrow> (key, rat) dict \<Rightarrow> (key, rat) dict outcome" where
  "score_ballots weights res [] scores = Return scores"
| "score_ballots weights res (b # bs) scores =
     obind (score_ballot weights res 0 b scores) (score_ballots weights res bs)"

fun hash_dict :: "(string \<Rightarrow> string) \<Rightarrow> int \<Rightarrow> key list \<Rightarrow> (key, string) dict \<Rightarrow> (key, string) dict" where
  "hash_dict sha seed [] acc = acc"
| "hash_dict sha seed (k # ks) acc =
     hash_dict sha seed ks (dput k (concat_and_hash sha [PyStr k, PyInt seed]) acc)"

definition hash_of :: "(key, string) dict \<Rightarrow> key \<Rightarrow> string" where
  "hash_of d k = (case dget d k of None \<Rightarrow> '''' | Some h \<Rightarrow> h)"

definition get_slot_winner :: "(string \<Rightarrow> string) \<Rightarrow> key list \<Rightarrow> int \<Rightarrow> key outcome" where
  "get_slot_winner sha candidates seed =
     (if length candidates = 1 then Return (hd candidates)
      else let keys_hashes = hash_dict sha seed candidates []
           in case max_key (hash_of keys_hashes) (dkeys keys_hashes) of
                None \<Rightarrow> Raise ValueError
              | Some k \<Rightarrow> Return k)"

fun award_slots :: "(string \<Rightarrow> string) \<Rightarrow> int \<Rightarrow> nat \<Rightarrow> (key, rat) dict \<Rightarrow> key list \<Rightarrow> key list outcome" where
  "award_slots sha seed 0 scores res = Return res"
| "award_slots sha seed (Suc k) scores res =
     (case max_key id (dvalues scores) of
        None \<Rightarrow> Raise ValueError
      | Some max_score \<Rightarrow>
         (let draws = map fst (filter (\<lambda>(c, score). score = max_score) scores)
          in obind (get_slot_winner sha draws seed)
               (\<lambda>winner. award_slots sha seed k (ddel winner scores) (res @ [winner]))))"

definition break_ties :: "(string \<Rightarrow> string) \<Rightarrow> key list \<Rightarrow> ballot list \<Rightarrow> nat \<Rightarrow> int \<Rightarrow> key list outcome" where
  "break_ties sha res ballots num_candidates seed =
     obind (score_ballots (all_weights num_candidates) res ballots [])
       (\<lambda>scores. award_slots sha seed (num_candidates - length res) scores res)"

section \<open>The result of an epoch's vote\<close>

definition calculate_result :: "stv \<Rightarrow> (string \<Rightarrow> string) \<Rightarrow> int \<Rightarrow> (voting, key list) py" where
  "calculate_result stv sha epoch_number =
     thenP (modify (\<lambda>v. v\<lparr>vs_polls := dput epoch_number
         \<lparr>pl_seats = length (vs_peer_keys v), pl_candidates = vs_peer_keys v, pl_ballots = []\<rparr> (vs_polls v)\<rparr>))
     (bindP (gets (\<lambda>v. dget (vs_ballots v) epoch_number)) (\<lambda>found.
      bindP (from_option KeyError found) (\<lambda>ballots.
      bindP (gets vs_peer_keys) (\<lambda>peer_keys.
      thenP (modify (\<lambda>v. v\<lparr>vs_polls := dput epoch_number
         \<lparr>pl_seats = length peer_keys, pl_candidates = peer_keys, pl_ballots = dvalues ballots\<rparr> (vs_polls v)\<rparr>))
     (bindP (from_outcome (stv (length peer_keys) peer_keys (dvalues ballots))) (\<lambda>elected.
      bindP (from_outcome
        (if length elected < length peer_keys
         then break_ties sha elected (dvalues ballots) (length peer_keys) epoch_number
         else Return elected)) (\<lambda>res.
      thenP (modify (\<lambda>v. set_peer_result epoch_number (vs_key v) res v))
        (ret res))))))))"

section \<open>Discarding old epochs\<close>

text \<open>\<open>del d[epoch]\<close> of the three dictionaries, in the code's order; the first missing key raises
  and leaves what was deleted before.\<close>

definition del_or_raise :: "'k \<Rightarrow> ('k, 'v) dict \<Rightarrow> ('k, 'v) dict outcome" where
  "del_or_raise k d = (if dget d k = None then Raise KeyError else Return (ddel k d))"

definition drop_epoch :: "int \<Rightarrow> (voting, unit) py" where
  "drop_epoch epoch =
     bindP (gets vs_results) (\<lambda>d. bindP (from_outcome (del_or_raise epoch d)) (\<lambda>d'.
     thenP (modify (\<lambda>v. v\<lparr>vs_results := d'\<rparr>))
    (bindP (gets vs_candidates) (\<lambda>d. bindP (from_outcome (del_or_raise epoch d)) (\<lambda>d'.
     thenP (modify (\<lambda>v. v\<lparr>vs_candidates := d'\<rparr>))
    (bindP (gets vs_ballots) (\<lambda>d. bindP (from_outcome (del_or_raise epoch d)) (\<lambda>d'.
     modify (\<lambda>v. v\<lparr>vs_ballots := d'\<rparr>)))))))))"

definition remove_old_epoch_data :: "(voting, unit) py" where
  "remove_old_epoch_data =
     bindP (gets vs_results) (\<lambda>results.
       if length results \<ge> 10
       then for_each (slice_to (- 5) (sort (dkeys results))) drop_epoch
       else ret ())"

section \<open>Facts about ballots\<close>

definition weight_ok :: "rat \<Rightarrow> bool" where
  "weight_ok w \<longleftrightarrow> 0 < w \<and> fl w = w"

lemma weight_ok_offline: "weight_ok OFFLINE_WEIGHT"
proof -
  have "0 < OFFLINE_WEIGHT" unfolding OFFLINE_WEIGHT_def by code_simp
  then show ?thesis by (simp add: weight_ok_def OFFLINE_WEIGHT_def fl_idem)
qed

lemma weight_ok_score: "score_ok s \<Longrightarrow> weight_ok s"
  by (simp add: weight_ok_def score_ok_def)

lemma bisect_right_range: "lo \<le> hi \<Longrightarrow> lo \<le> bisect_right a x lo hi \<and> bisect_right a x lo hi \<le> hi"
proof (induction a x lo hi rule: bisect_right.induct)
  case (1 a x lo hi)
  show ?case
  proof (cases "lo < hi")
    case True
    then have "lo \<le> (lo + hi) div 2" "(lo + hi) div 2 < hi" by auto
    with "1.IH" [OF True refl] True show ?thesis
      by (subst (1 2) bisect_right.simps) (auto simp: Let_def)
  next
    case False
    with "1.prems" show ?thesis by (subst (1 2) bisect_right.simps) auto
  qed
qed

lemma length_accumulate [simp]: "length (accumulate t ws) = Suc (length ws)"
  by (induction ws arbitrary: t) auto

lemma accumulate_nonempty [simp]: "accumulate t ws \<noteq> []"
  by (cases ws) auto

lemma last_accumulate_ge:
  assumes "weight_ok t" "\<forall>w \<in> set ws. weight_ok w" "fl u = u" "0 \<le> u" "t \<le> u"
  shows "t \<le> last (accumulate u ws)"
  using assms
proof (induction ws arbitrary: u)
  case (Cons w ws)
  have "t \<le> fl (u + w)"
    using Cons.prems fl_mono [of t "u + w"] by (auto simp: weight_ok_def)
  then show ?case
    using Cons by (auto simp: fadd_def weight_ok_def fl_idem fl_nonneg intro!: Cons.IH)
qed simp

lemma length_cum_weights: "length (cum_weights ws) = length ws"
  by (simp add: cum_weights_def split: list.split)

lemma choices1_returns:
  assumes "population \<noteq> []" "length weights = length population" "\<forall>w \<in> set weights. weight_ok w"
  obtains c where "choices1 r population weights = Return c" "c \<in> set population"
proof -
  obtain w ws where ws: "weights = w # ws" using assms(1,2) by (cases weights) auto
  then have ok: "weight_ok w" "\<forall>x \<in> set ws. weight_ok x" using assms(3) by auto
  have "w \<le> last (accumulate w ws)"
    using ok by (intro last_accumulate_ge) (auto simp: weight_ok_def)
  then have "0 < last (cum_weights weights)" using ok by (simp add: ws cum_weights_def weight_ok_def)
  moreover have "cum_weights weights \<noteq> []" by (simp add: ws cum_weights_def)
  ultimately have "choices1 r population weights =
      Return (population ! bisect_right (cum_weights weights) (fmul r (last (cum_weights weights))) 0 (length population - 1))"
    using assms(2) by (simp add: choices1_def Let_def length_cum_weights)
  moreover have "bisect_right (cum_weights weights) (fmul r (last (cum_weights weights))) 0 (length population - 1)
      < length population"
    using bisect_right_range [of 0 "length population - 1"] assms(1)
    by (metis Suc_pred' le_imp_less_Suc length_greater_0_conv zero_le)
  ultimately show thesis by (intro that) auto
qed

lemma set_pop_at: "set (pop_at i xs) \<subseteq> set xs"
  by (auto simp: pop_at_def dest: in_set_takeD in_set_dropD)

lemma fill_loop_permutes:
  assumes "length weights = length population" "\<forall>w \<in> set weights. weight_ok w"
  shows "\<exists>b. fill_loop rnd i population weights acc = Return (acc @ b) \<and> mset b = mset population"
  using assms
proof (induction "length population" arbitrary: i population weights acc)
  case 0
  then show ?case by (simp add: fill_loop.simps)
next
  case (Suc n)
  then have ne: "population \<noteq> []" by auto
  obtain c where c: "choices1 (rnd i) population weights = Return c" "c \<in> set population"
    using ne Suc.prems by (rule choices1_returns)
  then obtain k where k: "index_of population c = Some k" using index_of_None [of population c] by auto
  then have lt: "k < length population" by (auto dest: index_of_Some)
  have "\<exists>b. fill_loop rnd (Suc i) (pop_at k population) (pop_at k weights) (acc @ [c])
      = Return ((acc @ [c]) @ b) \<and> mset b = mset (pop_at k population)"
    using Suc.hyps(2) Suc.prems lt set_pop_at [of k weights]
    by (intro Suc.hyps(1)) (auto simp: pop_at_def)
  then obtain b where b: "fill_loop rnd (Suc i) (pop_at k population) (pop_at k weights) (acc @ [c])
      = Return ((acc @ [c]) @ b)" "mset b = mset (pop_at k population)" by blast
  have "pop_at k population = remove1 c population"
    using remove1_index [OF k] by (simp add: pop_at_def)
  then have "mset (c # b) = mset population" using b(2) c(2) by simp
  moreover have "fill_loop rnd i population weights acc = Return (acc @ (c # b))"
    using ne c k b(1) by (subst fill_loop.simps) simp
  ultimately show ?case by blast
qed

lemma ballot_weights_ok:
  assumes "\<forall>k \<in> set ks. \<exists>n. dget peers k = Some n \<and> score_ok (pn_score n)"
  shows "\<exists>ws. ballot_weights peers ks = Return ws \<and> length ws = length ks \<and> (\<forall>w \<in> set ws. weight_ok w)"
  using assms by (induction ks) (auto simp: weight_ok_offline weight_ok_score)

lemma fill_ballot_permutes:
  assumes "\<forall>k \<in> set (vs_peer_keys v). \<exists>n. dget peers k = Some n \<and> score_ok (pn_score n)"
  shows "\<exists>b. fill_ballot rnd i peers v = Return b \<and> mset b = mset (vs_peer_keys v)"
proof -
  obtain ws where "ballot_weights peers (vs_peer_keys v) = Return ws" "length ws = length (vs_peer_keys v)"
      "\<forall>w \<in> set ws. weight_ok w"
    using ballot_weights_ok [OF assms] by blast
  then show ?thesis
    using fill_loop_permutes [of ws "vs_peer_keys v" rnd i "[]"] by (simp add: fill_ballot_def)
qed

section \<open>Facts about the tables\<close>

text \<open>The table of an epoch, empty when there is none yet.\<close>

definition entries :: "(int, ('a, 'b) dict) dict \<Rightarrow> int \<Rightarrow> ('a, 'b) dict" where
  "entries d n = (case dget d n of None \<Rightarrow> [] | Some e \<Rightarrow> e)"

lemma ballots_add_ballot: "vs_ballots (add_ballot n k b v) =
    dput n (dput k b (entries (vs_ballots v) n)) (vs_ballots v)"
  by (auto simp: add_ballot_def entries_def Let_def dict_simps dput_dput split: option.split)

lemma results_set_peer_result: "vs_results (set_peer_result n k r v) =
    dput n (dput k r (entries (vs_results v) n)) (vs_results v)"
  by (auto simp: set_peer_result_def entries_def Let_def dict_simps dput_dput split: option.split)

lemma add_ballot_frame [simp]:
  "vs_key (add_ballot n k b v) = vs_key v" "vs_peer_keys (add_ballot n k b v) = vs_peer_keys v"
  "vs_results (add_ballot n k b v) = vs_results v" "vs_candidates (add_ballot n k b v) = vs_candidates v"
  "vs_num_slots (add_ballot n k b v) = vs_num_slots v"
  by (simp_all add: add_ballot_def Let_def)

lemma set_peer_result_frame [simp]:
  "vs_key (set_peer_result n k r v) = vs_key v" "vs_peer_keys (set_peer_result n k r v) = vs_peer_keys v"
  "vs_ballots (set_peer_result n k r v) = vs_ballots v" "vs_candidates (set_peer_result n k r v) = vs_candidates v"
  "vs_num_slots (set_peer_result n k r v) = vs_num_slots v"
  by (simp_all add: set_peer_result_def Let_def)

text \<open>Every table, and every epoch's table, has distinct keys.\<close>

definition voting_ok :: "voting \<Rightarrow> bool" where
  "voting_ok v \<longleftrightarrow> wf_dict (vs_ballots v) \<and> wf_dict (vs_results v) \<and> wf_dict (vs_candidates v)
     \<and> (\<forall>n. wf_dict (entries (vs_ballots v) n)) \<and> (\<forall>n. wf_dict (entries (vs_results v) n))"

lemma entries_dput: "entries (dput n e d) m = (if m = n then e else entries d m)"
  by (simp add: entries_def dict_simps)

lemma voting_ok_init: "voting_ok (VotingSystem k ps slots)"
  by (simp add: voting_ok_def VotingSystem_def entries_def)

lemma voting_ok_add_ballot: "voting_ok v \<Longrightarrow> voting_ok (add_ballot n k b v)"
  by (auto simp: voting_ok_def ballots_add_ballot entries_dput dict.ok_ins)

lemma voting_ok_set_peer_result: "voting_ok v \<Longrightarrow> voting_ok (set_peer_result n k r v)"
  by (auto simp: voting_ok_def results_set_peer_result entries_dput dict.ok_ins)

section \<open>Facts about counting results\<close>

lemma tally_get: "(\<forall>r c. dget acc r = Some c \<longrightarrow> 0 < c) \<Longrightarrow>
    dget (tally rs acc) r = (if r \<in> set rs \<or> dget acc r \<noteq> None
      then Some (int (count_list rs r) + count_of acc r) else None)"
proof (induction rs arbitrary: acc)
  case (Cons x rs)
  define acc' where "acc' = dput x (count_of acc x + 1) acc"
  have step: "tally (x # rs) acc = tally rs acc'"
    using Cons.prems by (auto simp: acc'_def count_of_def split: option.split)
  have pos: "\<forall>r c. dget acc' r = Some c \<longrightarrow> 0 < c"
    using Cons.prems by (auto simp: acc'_def count_of_def dict_simps split: option.splits) (smt (verit) Cons.prems)+
  have "dget (tally rs acc') r = (if r \<in> set rs \<or> dget acc' r \<noteq> None
      then Some (int (count_list rs r) + count_of acc' r) else None)"
    by (rule Cons.IH [OF pos])
  then show ?case
    unfolding step by (auto simp: acc'_def count_of_def dict_simps)
qed (auto simp: count_of_def)

lemma tally_wf: "wf_dict acc \<Longrightarrow> wf_dict (tally rs acc)"
  by (induction rs arbitrary: acc) (auto simp: dict.ok_ins split: option.split)

lemma count_of_tally [simp]: "count_of (tally rs []) r = int (count_list rs r)"
  by (simp add: count_of_def [of "tally rs []"] tally_get count_of_def [of "[]"] count_list_0_iff)

lemma keys_tally [simp]: "set (dkeys (tally rs [])) = set rs"
  by (auto simp: dict.keys_look tally_get split: if_splits)

lemma get_consensus_result_Return:
  assumes "get_consensus_result n v = Return (r, c)"
  shows "r \<in> set (dvalues (entries (vs_results v) n))"
    and "c = int (count_list (dvalues (entries (vs_results v) n)) r)"
    and "count_list (dvalues (entries (vs_results v) n)) s \<le> count_list (dvalues (entries (vs_results v) n)) r"
proof -
  obtain d where d: "dget (vs_results v) n = Some d"
    using assms by (auto simp: get_consensus_result_def split: option.splits)
  then obtain m where m: "max_key (count_of (tally (dvalues d) [])) (dkeys (tally (dvalues d) [])) = Some m"
    and r: "r = m" "c = int (count_list (dvalues d) m)"
    using assms by (auto simp: get_consensus_result_def Let_def split: option.splits)
  have e: "entries (vs_results v) n = d" by (simp add: entries_def d)
  have "m \<in> set (dvalues d)" using max_key_SomeD(1) [OF m] by simp
  moreover have "count_list (dvalues d) s \<le> count_list (dvalues d) m"
    using max_key_SomeD(2) [OF m, of s] count_list_0_iff [of "dvalues d" s] by (cases "s \<in> set (dvalues d)") auto
  ultimately show "r \<in> set (dvalues (entries (vs_results v) n))"
    "c = int (count_list (dvalues (entries (vs_results v) n)) r)"
    "count_list (dvalues (entries (vs_results v) n)) s \<le> count_list (dvalues (entries (vs_results v) n)) r"
    using r by (simp_all add: e)
qed

lemma get_consensus_result_total:
  assumes "dget (vs_results v) n = Some d" "d \<noteq> []"
  obtains r c where "get_consensus_result n v = Return (r, c)"
proof -
  have "dkeys (tally (dvalues d) []) \<noteq> []"
    using keys_tally [of "dvalues d"] assms(2) by (metis dvalues_def list.map_disc_iff set_empty)
  then obtain m where "max_key (count_of (tally (dvalues d) [])) (dkeys (tally (dvalues d) [])) = Some m"
    using max_key_None by blast
  then show thesis using assms(1) by (intro that) (simp add: get_consensus_result_def Let_def)
qed

section \<open>Facts about tie breaking\<close>

lemma length_tie_weights [simp]: "length (tie_weights k w) = k"
  by (induction k arbitrary: w) (auto simp: Let_def)

lemma length_all_weights [simp]: "length (all_weights n) = max 1 n"
  by (simp add: all_weights_def)

lemma score_ballot_keys:
  assumes "i + length b \<le> length weights" "wf_dict scores"
  shows "\<exists>t. score_ballot weights res i b scores = Return t \<and> wf_dict t
    \<and> set (dkeys t) = set (dkeys scores) \<union> (set b - set res)"
  using assms
proof (induction b arbitrary: i scores)
  case (Cons c cs)
  show ?case
  proof (cases "c \<in> set res")
    case True
    with Cons.IH [of "Suc i" scores] Cons.prems show ?thesis by auto
  next
    case False
    define scores' where "scores' = (case dget scores c of
      None \<Rightarrow> dput c (weights ! i) scores | Some s \<Rightarrow> dput c (fadd s (weights ! i)) scores)"
    have wf: "wf_dict scores'" using Cons.prems(2) by (auto simp: scores'_def dict.ok_ins split: option.split)
    have ks: "set (dkeys scores') = insert c (set (dkeys scores))"
      by (auto simp: scores'_def dict_simps split: option.split)
    have "i < length weights" using Cons.prems(1) by simp
    then have "score_ballot weights res i (c # cs) scores = score_ballot weights res (Suc i) cs scores'"
      using False by (simp add: scores'_def)
    with Cons.IH [of "Suc i" scores'] Cons.prems(1) wf ks False show ?thesis by auto
  qed
qed auto

lemma score_ballots_keys:
  assumes "\<forall>b \<in> set bs. length b \<le> length weights" "wf_dict scores"
  shows "\<exists>t. score_ballots weights res bs scores = Return t \<and> wf_dict t
    \<and> set (dkeys t) = set (dkeys scores) \<union> (\<Union>(set ` set bs) - set res)"
  using assms
proof (induction bs arbitrary: scores)
  case (Cons b bs)
  then obtain t where t: "score_ballot weights res 0 b scores = Return t" "wf_dict t"
    "set (dkeys t) = set (dkeys scores) \<union> (set b - set res)"
    using score_ballot_keys [of 0 b weights scores res] by auto
  with Cons.IH [of t] Cons.prems show ?case by auto
qed auto

lemma hash_dict_get: "dget (hash_dict sha seed ks acc) k =
    (if k \<in> set ks then Some (concat_and_hash sha [PyStr k, PyInt seed]) else dget acc k)"
  by (induction ks arbitrary: acc) (auto simp: dict_simps)

lemma hash_of_hash_dict: "k \<in> set ks \<Longrightarrow> hash_of (hash_dict sha seed ks []) k = concat_and_hash sha [PyStr k, PyInt seed]"
  by (simp add: hash_of_def hash_dict_get)

lemma keys_hash_dict: "set (dkeys (hash_dict sha seed ks [])) = set ks"
  by (auto simp: dict.keys_look hash_dict_get split: if_splits)

lemma get_slot_winner_Return:
  assumes "ks \<noteq> []"
  obtains w where "get_slot_winner sha ks seed = Return w" "w \<in> set ks"
proof (cases "length ks = 1")
  case True
  with assms show thesis by (intro that [of "hd ks"]) (auto simp: get_slot_winner_def)
next
  case False
  have "dkeys (hash_dict sha seed ks []) \<noteq> []" using assms keys_hash_dict by (metis set_empty)
  then obtain m where m: "max_key (hash_of (hash_dict sha seed ks [])) (dkeys (hash_dict sha seed ks [])) = Some m"
    using max_key_None by blast
  then have "m \<in> set ks" using max_key_SomeD(1) [OF m] by (simp add: keys_hash_dict)
  moreover have "get_slot_winner sha ks seed = Return m"
    using m False by (simp add: get_slot_winner_def Let_def)
  ultimately show thesis by (intro that)
qed

text \<open>
  The awarded slots: as many distinct keys of the score table as asked for, no score rising
  along the list.
\<close>

definition score_of :: "(key, rat) dict \<Rightarrow> key \<Rightarrow> rat" where
  "score_of scores c = (case dget scores c of None \<Rightarrow> 0 | Some s \<Rightarrow> s)"

lemma draws_keys:
  assumes "wf_dict scores" "max_key id (dvalues scores) = Some m"
  defines "draws \<equiv> map fst (filter (\<lambda>(c, score). score = m) scores)"
  shows "draws \<noteq> []" and "c \<in> set draws \<Longrightarrow> c \<in> set (dkeys scores) \<and> score_of scores c = m"
    and "c \<in> set (dkeys scores) \<Longrightarrow> score_of scores c \<le> m"
proof -
  have "m \<in> set (dvalues scores)" using max_key_SomeD(1) [OF assms(2)] .
  then show "draws \<noteq> []" by (auto simp: draws_def dvalues_def filter_empty_conv)
  show "c \<in> set (dkeys scores) \<and> score_of scores c = m" if "c \<in> set draws"
    using that item_dget [OF assms(1), of c m] by (auto simp: draws_def score_of_def dict.keys_look)
  show "score_of scores c \<le> m" if c: "c \<in> set (dkeys scores)"
  proof -
    obtain s where s: "dget scores c = Some s" using c by (auto simp: dict.keys_look)
    then show ?thesis using max_key_SomeD(2) [OF assms(2) dget_value [OF s]] by (simp add: score_of_def)
  qed
qed

lemma award_slots_Return:
  assumes "wf_dict scores" "k \<le> length scores"
  shows "\<exists>ws. award_slots sha seed k scores res = Return (res @ ws) \<and> length ws = k \<and> distinct ws
    \<and> set ws \<subseteq> set (dkeys scores) \<and> sorted_wrt (\<lambda>a b. score_of scores a \<ge> score_of scores b) ws"
  using assms
proof (induction k arbitrary: scores res)
  case (Suc k)
  then have ne: "dvalues scores \<noteq> []" by (auto simp: dvalues_def)
  then obtain m where m: "max_key id (dvalues scores) = Some m" using max_key_None by blast
  let ?draws = "map fst (filter (\<lambda>(c, score). score = m) scores)"
  note d = draws_keys [OF Suc.prems(1) m]
  obtain w where w: "get_slot_winner sha ?draws seed = Return w" "w \<in> set ?draws"
    using d(1) by (rule get_slot_winner_Return)
  define t where "t = ddel w scores"
  have wk: "w \<in> set (dkeys scores)" and top: "score_of scores w = m" using d(2) [OF w(2)] by auto
  have wf: "wf_dict t" using Suc.prems(1) by (simp add: t_def dict.ok_del)
  have keys: "set (dkeys t) = set (dkeys scores) - {w}" by (auto simp: t_def dict.keys_del)
  have "length t = card (set (dkeys t))"
    using wf by (simp add: card_dkeys)
  also have "\<dots> = card (set (dkeys scores)) - 1" using wk by (simp add: keys)
  also have "card (set (dkeys scores)) = length scores"
    using Suc.prems(1) by (simp add: card_dkeys)
  finally have len: "k \<le> length t" using Suc.prems(2) by simp
  obtain ws where ws: "award_slots sha seed k t (res @ [w]) = Return ((res @ [w]) @ ws)" "length ws = k"
      "distinct ws" "set ws \<subseteq> set (dkeys t)" "sorted_wrt (\<lambda>a b. score_of t a \<ge> score_of t b) ws"
    using Suc.IH [OF wf len, of "res @ [w]"] by blast
  have same: "score_of t c = score_of scores c" if "c \<in> set ws" for c
    using that ws(4) keys by (auto simp: score_of_def t_def dict_simps)
  have "sorted_wrt (\<lambda>a b. score_of scores a \<ge> score_of scores b) ws"
    using same by (intro sorted_wrt_mono_rel [OF _ ws(5)]) auto
  moreover have "\<forall>c \<in> set ws. score_of scores c \<le> score_of scores w"
    using ws(4) keys d(3) top by auto
  moreover have "award_slots sha seed (Suc k) scores res = Return (res @ (w # ws))"
    using m w(1) ws(1) by (simp add: t_def Let_def)
  ultimately show ?case using ws wk keys by (intro exI [of _ "w # ws"]) auto
qed auto

lemma break_ties_Return:
  assumes "\<forall>b \<in> set ballots. mset b = mset cands" "ballots \<noteq> []" "distinct cands" "distinct res"
    and "set res \<subseteq> set cands"
  obtains ws where "break_ties sha res ballots (length cands) seed = Return (res @ ws)"
    and "mset (res @ ws) = mset cands"
proof -
  have eq: "set b = set cands \<and> length b = length cands" if "b \<in> set ballots" for b
    using assms(1) that by (metis set_mset_mset size_mset)
  obtain t where t: "score_ballots (all_weights (length cands)) res ballots [] = Return t" "wf_dict t"
      "set (dkeys t) = \<Union>(set ` set ballots) - set res"
    using score_ballots_keys [of ballots "all_weights (length cands)" "[]" res] eq by (auto simp: dkeys_def)
  then have keys: "set (dkeys t) = set cands - set res" using eq assms(2) by (auto simp: neq_Nil_conv)
  have "length t = card (set (dkeys t))"
    using t(2) by (simp add: card_dkeys)
  also have "\<dots> = length cands - length res"
    using assms(3-5) by (simp add: keys card_Diff_subset distinct_card)
  finally have len: "length t = length cands - length res" .
  then obtain ws where ws: "award_slots sha seed (length cands - length res) t res = Return (res @ ws)"
      "length ws = length t" "distinct ws" "set ws \<subseteq> set (dkeys t)"
    using award_slots_Return [OF t(2), of "length t" sha seed res] by auto
  have "set ws = set (dkeys t)"
    using ws card_dkeys [OF t(2)] by (intro card_subset_eq) (auto simp: distinct_card)
  then have "set (res @ ws) = set cands" "distinct (res @ ws)" using keys assms(4,5) ws(3) by auto
  then have "mset (res @ ws) = mset cands" using assms(3) set_eq_iff_mset_eq_distinct by blast
  moreover have "break_ties sha res ballots (length cands) seed = Return (res @ ws)"
    using t(1) ws(1) by (simp add: break_ties_def)
  ultimately show thesis by (intro that)
qed

section \<open>Facts about the computed result\<close>

definition with_poll :: "int \<Rightarrow> ballot list \<Rightarrow> voting \<Rightarrow> voting" where
  "with_poll n bs v = v\<lparr>vs_polls := dput n
     \<lparr>pl_seats = length (vs_peer_keys v), pl_candidates = vs_peer_keys v, pl_ballots = bs\<rparr> (vs_polls v)\<rparr>"

lemma with_poll_frame [simp]:
  "vs_key (with_poll n bs v) = vs_key v" "vs_peer_keys (with_poll n bs v) = vs_peer_keys v"
  "vs_ballots (with_poll n bs v) = vs_ballots v" "vs_results (with_poll n bs v) = vs_results v"
  "vs_candidates (with_poll n bs v) = vs_candidates v" "vs_num_slots (with_poll n bs v) = vs_num_slots v"
  by (simp_all add: with_poll_def)

definition elect :: "stv \<Rightarrow> (string \<Rightarrow> string) \<Rightarrow> int \<Rightarrow> key list \<Rightarrow> ballot list \<Rightarrow> key list outcome" where
  "elect stv sha n ks bs = obind (stv (length ks) ks bs) (\<lambda>elected.
     if length elected < length ks then break_ties sha elected bs (length ks) n else Return elected)"

lemma run_calculate_result: "calculate_result stv sha n v =
    (case dget (vs_ballots v) n of
       None \<Rightarrow> (Raise KeyError, with_poll n [] v)
     | Some d \<Rightarrow>
        (case elect stv sha n (vs_peer_keys v) (dvalues d) of
           Return res \<Rightarrow> (Return res, set_peer_result n (vs_key v) res (with_poll n (dvalues d) v))
         | Raise e \<Rightarrow> (Raise e, with_poll n (dvalues d) v)
         | Hang \<Rightarrow> (Hang, with_poll n (dvalues d) v)))"
  by (auto simp: calculate_result_def run_simps elect_def obind_def with_poll_def dput_dput
      split: option.split outcome.split)

lemma calculate_result_frame:
  "vs_key (snd (calculate_result stv sha n v)) = vs_key v"
  "vs_peer_keys (snd (calculate_result stv sha n v)) = vs_peer_keys v"
  "vs_ballots (snd (calculate_result stv sha n v)) = vs_ballots v"
  "vs_candidates (snd (calculate_result stv sha n v)) = vs_candidates v"
  "vs_num_slots (snd (calculate_result stv sha n v)) = vs_num_slots v"
  by (auto simp: run_calculate_result split: option.split outcome.split)

lemma voting_ok_calculate_result: "voting_ok v \<Longrightarrow> voting_ok (snd (calculate_result stv sha n v))"
proof -
  assume "voting_ok v"
  then have "voting_ok (with_poll n bs v)" for bs by (simp add: voting_ok_def)
  then show ?thesis
    by (auto simp: run_calculate_result voting_ok_set_peer_result split: option.split outcome.split)
qed

lemma elect_everyone:
  assumes "distinct ks" "bs \<noteq> []" "\<forall>b \<in> set bs. mset b = mset ks"
    and "stv (length ks) ks bs = Return elected" "distinct elected" "set elected \<subseteq> set ks"
  obtains ws where "elect stv sha n ks bs = Return (elected @ ws)" "mset (elected @ ws) = mset ks"
proof (cases "length elected < length ks")
  case True
  obtain ws where "break_ties sha elected bs (length ks) n = Return (elected @ ws)"
      "mset (elected @ ws) = mset ks"
    using assms(3,2,1,5,6) by (rule break_ties_Return)
  with True assms(4) show thesis by (intro that [of ws]) (simp_all add: elect_def)
next
  case False
  have "set elected = set ks"
    using False assms(1,5,6) by (intro card_subset_eq) (auto simp: distinct_card intro: le_antisym
      dest: card_mono [OF finite_set])
  then have "mset elected = mset ks" using assms(1,5) set_eq_iff_mset_eq_distinct by blast
  with False assms(4) show thesis by (intro that [of "[]"]) (simp_all add: elect_def)
qed

section \<open>Facts about discarding\<close>

definition drop_epochs :: "int list \<Rightarrow> voting \<Rightarrow> voting" where
  "drop_epochs ns v = v\<lparr>vs_results := fold ddel ns (vs_results v),
     vs_candidates := fold ddel ns (vs_candidates v), vs_ballots := fold ddel ns (vs_ballots v)\<rparr>"

lemma run_drop_epoch: "drop_epoch n v =
    (if dget (vs_results v) n = None then (Raise KeyError, v)
     else if dget (vs_candidates v) n = None then (Raise KeyError, v\<lparr>vs_results := ddel n (vs_results v)\<rparr>)
     else if dget (vs_ballots v) n = None
       then (Raise KeyError, v\<lparr>vs_results := ddel n (vs_results v), vs_candidates := ddel n (vs_candidates v)\<rparr>)
     else (Return (), drop_epochs [n] v))"
  by (simp add: drop_epoch_def run_simps del_or_raise_def drop_epochs_def)

lemma for_each_drop_epoch:
  assumes "distinct ns"
    and "\<forall>n \<in> set ns. dget (vs_results v) n \<noteq> None \<and> dget (vs_candidates v) n \<noteq> None \<and> dget (vs_ballots v) n \<noteq> None"
  shows "for_each ns drop_epoch v = (Return (), drop_epochs ns v)"
  using assms
proof (induction ns arbitrary: v)
  case Nil
  then show ?case by (simp add: run_simps drop_epochs_def)
next
  case (Cons n ns)
  have "for_each ns drop_epoch (drop_epochs [n] v) = (Return (), drop_epochs ns (drop_epochs [n] v))"
    using Cons.prems by (intro Cons.IH) (auto simp: drop_epochs_def dict_simps)
  moreover have "drop_epoch n v = (Return (), drop_epochs [n] v)"
    using Cons.prems(2) by (simp add: run_drop_epoch)
  moreover have "drop_epochs ns (drop_epochs [n] v) = drop_epochs (n # ns) v"
    by (simp add: drop_epochs_def)
  ultimately show ?case by (simp add: run_simps)
qed

lemma run_remove_old: "remove_old_epoch_data v =
    (if length (vs_results v) \<ge> 10
     then for_each (slice_to (- 5) (sort (dkeys (vs_results v)))) drop_epoch v else (Return (), v))"
  by (simp add: remove_old_epoch_data_def run_simps)

lemma slice_to_minus5: "5 \<le> length xs \<Longrightarrow> slice_to (- 5) xs = take (length xs - 5) xs"
  by (simp add: slice_to_def slice_bound_def nat_diff_distrib')

text \<open>Counting the peers behind a result.\<close>

lemma count_list_card: "wf_dict d \<Longrightarrow> count_list (dvalues d) r = card {k. dget d k = Some r}"
proof (induction d)
  case (Cons p d)
  obtain k s where p: "p = (k, s)" by force
  have wf: "wf_dict d" and fresh: "dget d k = None"
    using Cons.prems by (auto simp: p wf_dict_def dkeys_def dget_def map_of_eq_None_iff)
  have fin: "finite {j. dget d j = Some r}"
    by (rule finite_subset [of _ "set (dkeys d)"]) (auto simp: dict.keys_look)
  have "{j. dget (p # d) j = Some r} = (if s = r then insert k {j. dget d j = Some r} else {j. dget d j = Some r})"
    using fresh by (auto simp: p dget_def)
  then show ?case using Cons.IH [OF wf] fresh fin by (simp add: p dvalues_def)
qed (simp add: dvalues_def)

text \<open>Two sets of more than two thirds of the members share more than a third of them.\<close>

lemma quorums_meet:
  assumes "finite M" "A \<subseteq> M" "B \<subseteq> M" "F \<subseteq> M" "3 * card F \<le> card M"
    and "1 + 2 * card M div 3 \<le> card A" "1 + 2 * card M div 3 \<le> card B"
  obtains k where "k \<in> A" "k \<in> B" "k \<notin> F"
proof -
  have fin: "finite A" "finite B" "finite F" using assms(1-4) by (auto intro: finite_subset)
  have "card A + card B = card (A \<union> B) + card (A \<inter> B)" using fin by (intro card_Un_Int)
  moreover have "card (A \<union> B) \<le> card M" using assms(1-3) by (intro card_mono) auto
  ultimately have "card F < card (A \<inter> B)" using assms(5-7) by linarith
  then have "\<not> A \<inter> B \<subseteq> F" using card_mono [OF fin(3)] by (metis not_less)
  then show thesis using that by auto
qed

section \<open>What every operation of the voting system keeps\<close>

definition voting_frame :: "voting \<Rightarrow> voting \<Rightarrow> bool" where
  "voting_frame v w \<longleftrightarrow> vs_key w = vs_key v \<and> vs_peer_keys w = vs_peer_keys v
     \<and> vs_num_slots w = vs_num_slots v \<and> (voting_ok v \<longrightarrow> voting_ok w)"

interpretation voting_frame: state_preorder voting_frame
  by unfold_locales (auto simp: voting_frame_def)

lemma entries_ddel: "entries (ddel n d) m = (if m = n then [] else entries d m)"
  by (simp add: entries_def dict_simps)

lemma voting_frame_ops:
  "voting_frame v (add_ballot n k b v)" "voting_frame v (set_peer_result n k r v)"
  "voting_frame v (set_candidates n r v)" "keeps voting_frame (calculate_result stv sha n)"
  by (simp_all add: voting_frame_def voting_ok_add_ballot voting_ok_set_peer_result keeps_def
      calculate_result_frame voting_ok_calculate_result)
    (simp add: set_candidates_def voting_ok_def dict.ok_ins)

lemma voting_frame_drop: "keeps voting_frame (drop_epoch n)"
  by (auto simp: keeps_def run_drop_epoch voting_frame_def drop_epochs_def voting_ok_def dict.ok_del entries_ddel)

lemma voting_frame_remove_old: "keeps voting_frame remove_old_epoch_data"
  unfolding remove_old_epoch_data_def by (intro voting_frame.all voting_frame.cond voting_frame_drop)

text \<open>Two quorums for an epoch's result agree when few members lie.\<close>

lemma quorums_agree:
  assumes "finite M" and "set (dkeys (entries (vs_results vA) n)) \<subseteq> M" and "set (dkeys (entries (vs_results vB) n)) \<subseteq> M"
    and "voting_ok vA" and "voting_ok vB"
    and "get_consensus_result n vA = Return (rA, cA)" and "cA \<ge> 1 + int (card M) * 2 div 3"
    and "get_consensus_result n vB = Return (rB, cB)" and "cB \<ge> 1 + int (card M) * 2 div 3"
    and "F \<subseteq> M" and "3 * card F \<le> card M"
    and "\<forall>k \<in> M - F. \<forall>a b. dget (entries (vs_results vA) n) k = Some a \<longrightarrow> dget (entries (vs_results vB) n) k = Some b \<longrightarrow> a = b"
  shows "rA = rB"
proof -
  let ?A = "{k. dget (entries (vs_results vA) n) k = Some rA}" and ?B = "{k. dget (entries (vs_results vB) n) k = Some rB}"
  have sub: "?A \<subseteq> M" "?B \<subseteq> M" using assms(2,3) by (auto simp: dict.keys_look)
  have "cA = int (card ?A)" "cB = int (card ?B)"
    using get_consensus_result_Return(2) [OF assms(6)] get_consensus_result_Return(2) [OF assms(8)]
      assms(4,5) by (simp_all add: voting_ok_def count_list_card)
  then have "1 + 2 * card M div 3 \<le> card ?A" "1 + 2 * card M div 3 \<le> card ?B"
    using assms(7,9) by linarith+
  then obtain k where "k \<in> ?A" "k \<in> ?B" "k \<notin> F"
    using assms(1,10,11) sub by (metis (no_types, lifting) quorums_meet)
  then show ?thesis using assms(12) sub by auto
qed

section \<open>Properties\<close>

text \<open>C27: filling a ballot never fails and ranks every member exactly once, whatever numbers the
  random generator returns: the weighted draws without replacement end after one draw per
  member, because every score and the weight of an offline peer stay positive.\<close>

theorem fill_ballot_ranks_everyone:
  assumes "\<forall>k \<in> set (vs_peer_keys v). \<exists>n. dget peers k = Some n \<and> score_ok (pn_score n)"
  shows "\<exists>b. fill_ballot rnd i peers v = Return b \<and> mset b = mset (vs_peer_keys v)"
  using assms by (rule fill_ballot_permutes)

theorem fill_ballot_ranks_everyone_witness:
  "\<exists>b. fill_ballot (\<lambda>i. 1/2) 0 [(''a'', PeerNode ''a'' 0), (''b'', PeerNode ''b'' 0)]
      (VotingSystem ''a'' [''a'', ''b''] 1) = Return b \<and> mset b = {# ''a'', ''b'' #}"
  using fill_ballot_ranks_everyone [of "VotingSystem ''a'' [''a'', ''b''] 1"
      "[(''a'', PeerNode ''a'' 0), (''b'', PeerNode ''b'' 0)]" "\<lambda>i. 1/2" 0]
  by (simp add: VotingSystem_def PeerNode_def dget_def)

text \<open>C25: the result computed from ballots that rank every member is a ranking of all members: the
  elected candidates of the poll come first, in its order, and ties are broken without losing or
  repeating anyone; it is stored as this node's own result. The poll library is assumed to elect
  distinct candidates of the poll.\<close>

theorem calculate_result_ranks_everyone:
  assumes "distinct (vs_peer_keys v)" and "dget (vs_ballots v) n = Some d" and "d \<noteq> []"
    and "\<forall>b \<in> set (dvalues d). mset b = mset (vs_peer_keys v)"
    and "stv (length (vs_peer_keys v)) (vs_peer_keys v) (dvalues d) = Return elected"
    and "distinct elected" and "set elected \<subseteq> set (vs_peer_keys v)"
  shows "\<exists>ws v'. calculate_result stv sha n v = (Return (elected @ ws), v')
    \<and> mset (elected @ ws) = mset (vs_peer_keys v)
    \<and> dget (entries (vs_results v') n) (vs_key v) = Some (elected @ ws)"
proof -
  have "dvalues d \<noteq> []" using assms(3) by (simp add: dvalues_def)
  then obtain ws where "elect stv sha n (vs_peer_keys v) (dvalues d) = Return (elected @ ws)"
      "mset (elected @ ws) = mset (vs_peer_keys v)"
    using assms(1,4-7) elect_everyone [of "vs_peer_keys v" "dvalues d" stv elected sha n thesis]
    by (metis elect_everyone)
  then show ?thesis
    using assms(2) by (simp add: run_calculate_result results_set_peer_result entries_dput dict_simps)
qed

theorem calculate_result_ranks_everyone_witness:
  "\<exists>ws v'. calculate_result (\<lambda>seats cands ballots. Return [''b'']) id 1
       (add_ballot 1 ''a'' [''b'', ''a'', ''c''] (VotingSystem ''a'' [''a'', ''b'', ''c''] 1))
     = (Return (''b'' # ws), v')"
proof -
  let ?v = "add_ballot 1 ''a'' [''b'', ''a'', ''c''] (VotingSystem ''a'' [''a'', ''b'', ''c''] 1)"
  have b: "dget (vs_ballots ?v) 1 = Some [(''a'', [''b'', ''a'', ''c''])]"
    by (simp add: ballots_add_ballot dict_simps entries_def VotingSystem_def) (simp add: dput_def)
  show ?thesis
    using calculate_result_ranks_everyone [OF _ b, of "\<lambda>seats cands ballots. Return [''b'']" "[''b'']" id]
    by (auto simp: VotingSystem_def dvalues_def)
qed

text \<open>Tie breaking appends the missing candidates by tie score: after the already elected ones,
  no candidate follows one with a smaller score, and a ballot longer than the number of
  candidates is the only way for the scoring to raise.\<close>

theorem break_ties_by_score:
  assumes "\<forall>b \<in> set ballots. length b \<le> max 1 num"
    and "\<forall>t. score_ballots (all_weights num) res ballots [] = Return t \<longrightarrow> num - length res \<le> length t"
  shows "\<exists>t ws. score_ballots (all_weights num) res ballots [] = Return t
    \<and> break_ties sha res ballots num seed = Return (res @ ws)
    \<and> length ws = num - length res \<and> distinct ws \<and> set ws \<inter> set res = {}
    \<and> sorted_wrt (\<lambda>a b. score_of t a \<ge> score_of t b) ws"
proof -
  obtain t where t: "score_ballots (all_weights num) res ballots [] = Return t" "wf_dict t"
      "set (dkeys t) = \<Union>(set ` set ballots) - set res"
    using score_ballots_keys [of ballots "all_weights num" "[]" res] assms(1) by (auto simp: dkeys_def)
  obtain ws where ws: "award_slots sha seed (num - length res) t res = Return (res @ ws)"
      "length ws = num - length res" "distinct ws" "set ws \<subseteq> set (dkeys t)"
      "sorted_wrt (\<lambda>a b. score_of t a \<ge> score_of t b) ws"
    using award_slots_Return [OF t(2), of "num - length res" sha seed res] assms(2) t(1) by blast
  moreover have "break_ties sha res ballots num seed = Return (res @ ws)"
    using t(1) ws(1) by (simp add: break_ties_def)
  ultimately show ?thesis using t by (intro exI [of _ t] exI [of _ ws]) auto
qed

theorem break_ties_by_score_witness:
  "\<exists>ws. break_ties id [''a''] [[''b'', ''c'', ''a'']] 3 7 = Return (''a'' # ws) \<and> length ws = 2"
proof -
  have s: "score_ballots (all_weights 3) [''a''] [[''b'', ''c'', ''a'']] []
      = Return [(''b'', all_weights 3 ! 0), (''c'', all_weights 3 ! 1)]"
    by (simp add: dput_def dget_def)
  show ?thesis
    using break_ties_by_score [of "[[''b'', ''c'', ''a'']]" 3 "[''a'']" id 7] unfolding s by auto
qed

text \<open>The consensus result of an epoch is a most frequent one among the stored peer results,
  and the reported count is its exact number of occurrences.\<close>

theorem consensus_result_is_plurality:
  assumes "dget (vs_results v) n = Some d" and "d \<noteq> []"
  shows "\<exists>r c. get_consensus_result n v = Return (r, c) \<and> r \<in> set (dvalues d)
    \<and> c = int (count_list (dvalues d) r)
    \<and> (\<forall>s. count_list (dvalues d) s \<le> count_list (dvalues d) r)"
proof -
  obtain r c where rc: "get_consensus_result n v = Return (r, c)"
    using assms by (rule get_consensus_result_total)
  have "entries (vs_results v) n = d" by (simp add: entries_def assms(1))
  with get_consensus_result_Return [OF rc] rc show ?thesis by auto
qed

theorem consensus_result_is_plurality_witness:
  "\<exists>r c. get_consensus_result 1 (set_peer_result 1 ''p'' [''a''] (VotingSystem ''a'' [''a''] 1)) = Return (r, c)"
proof -
  have d: "dget (vs_results (set_peer_result 1 ''p'' [''a''] (VotingSystem ''a'' [''a''] 1))) 1
      = Some [(''p'', [''a''])]"
    by (simp add: results_set_peer_result dict_simps entries_def VotingSystem_def) (simp add: dput_def)
  show ?thesis using consensus_result_is_plurality [OF d] by auto
qed

text \<open>Agreement: two nodes that each see a consensus on an epoch's result among at least all
  \<open>N\<close> members (more than two thirds of equal results) see the same result, provided at most a
  third of the members told them different things.\<close>

theorem quorum_agreement:
  assumes "finite M" and "set (dkeys (entries (vs_results vA) n)) \<subseteq> M" and "set (dkeys (entries (vs_results vB) n)) \<subseteq> M"
    and "voting_ok vA" and "voting_ok vB"
    and "get_consensus_result n vA = Return (rA, cA)" and "cA \<ge> consensus_amount (int (card M)) vA"
    and "get_consensus_result n vB = Return (rB, cB)" and "cB \<ge> consensus_amount (int (card M)) vB"
    and "F \<subseteq> M" and "3 * card F \<le> card M"
    and "\<forall>k \<in> M - F. \<forall>a b. dget (entries (vs_results vA) n) k = Some a \<longrightarrow> dget (entries (vs_results vB) n) k = Some b \<longrightarrow> a = b"
  shows "rA = rB"
  using assms by (intro quorums_agree [of M vA n vB rA cA rB cB F]) (auto simp: consensus_amount_def)

definition four_voters :: "key \<Rightarrow> (key, result) dict \<Rightarrow> voting" where
  "four_voters k d = VotingSystem k [''a'', ''b'', ''c'', ''d''] 2\<lparr>vs_results := [(1, d)]\<rparr>"

lemma entries_four_voters: "entries (vs_results (four_voters k d)) n = (if n = 1 then d else [])"
  by (simp add: four_voters_def VotingSystem_def entries_def dget_def)

lemma slots_four_voters: "vs_num_slots (four_voters k d) = 2"
  by (simp add: four_voters_def VotingSystem_def)

lemma four_voters_ok: "wf_dict d \<Longrightarrow> voting_ok (four_voters k d)"
  by (auto simp: voting_ok_def entries_four_voters)
    (simp_all add: four_voters_def VotingSystem_def wf_dict_def dkeys_def entries_def)

theorem quorum_agreement_witness:
  "\<exists>rA rB. get_consensus_result 1 (four_voters ''a'' [(''a'', [''r'']), (''b'', [''r'']), (''c'', [''r''])]) = Return (rA, 3)
    \<and> get_consensus_result 1 (four_voters ''b'' [(''d'', [''s'']), (''c'', [''r'']), (''b'', [''r'']), (''a'', [''r''])])
        = Return (rB, 3) \<and> rA = rB"
proof -
  let ?A = "[(''a'', [''r'']), (''b'', [''r'']), (''c'', [''r''])]"
  let ?B = "[(''d'', [''s'']), (''c'', [''r'']), (''b'', [''r'']), (''a'', [''r''])]"
  have res: "get_consensus_result 1 (four_voters ''a'' ?A) = Return ([''r''], 3)"
    "get_consensus_result 1 (four_voters ''b'' ?B) = Return ([''r''], 3)"
    by code_simp+
  have "[''r''] = [''r'']"
  proof (rule quorum_agreement [OF _ _ _ _ _ res(1) _ res(2), of "{''a'', ''b'', ''c'', ''d''}" "{''d''}"])
    show "voting_ok (four_voters ''a'' ?A)" "voting_ok (four_voters ''b'' ?B)"
      by (simp_all add: four_voters_ok wf_dict_def dkeys_def)
  qed (auto simp: entries_four_voters dkeys_def dget_def consensus_amount_def slots_four_voters)
  with res show ?thesis by blast
qed

text \<open>The quorum is strictly more than two thirds of the online peers and never less than the
  number of witness slots (the documentation says two thirds); with as many slots as online
  peers, or more, it asks for all of them or can never be met.\<close>

theorem consensus_amount_bounds:
  "3 * consensus_amount n v > 2 * n \<and> consensus_amount n v \<ge> vs_num_slots v
    \<and> (consensus_amount n v \<le> n \<longleftrightarrow> vs_num_slots v \<le> n \<and> 1 \<le> n)"
proof -
  have "2 * n < 3 * (1 + n * 2 div 3)" and "1 + n * 2 div 3 \<le> n \<longleftrightarrow> 1 \<le> n" by presburger+
  then show ?thesis by (auto simp: consensus_amount_def max_def)
qed

text \<open>Discarding old data does nothing while fewer than ten epochs have results; from then on,
  when every epoch with results also has candidates and ballots, exactly the five greatest
  epochs keep their results.\<close>

theorem remove_old_keeps_five:
  assumes "voting_ok v"
    and "\<forall>n \<in> set (dkeys (vs_results v)). dget (vs_candidates v) n \<noteq> None \<and> dget (vs_ballots v) n \<noteq> None"
    and "length (vs_results v) \<ge> 10"
  shows "fst (remove_old_epoch_data v) = Return ()
    \<and> set (dkeys (vs_results (snd (remove_old_epoch_data v))))
        = set (drop (length (vs_results v) - 5) (sort (dkeys (vs_results v))))
    \<and> length (vs_results (snd (remove_old_epoch_data v))) = 5"
proof -
  let ?s = "sort (dkeys (vs_results v))" and ?k = "length (vs_results v) - 5"
  have d: "distinct ?s" and len: "length ?s = length (vs_results v)"
    using assms(1) by (simp_all add: voting_ok_def wf_dict_def) (simp add: dkeys_def)
  have ns: "slice_to (- 5) ?s = take ?k ?s" using assms(3) len slice_to_minus5 [of ?s] by simp
  have "set (take ?k ?s) \<subseteq> set (dkeys (vs_results v))" by (metis set_sort set_take_subset)
  then have run: "remove_old_epoch_data v = (Return (), drop_epochs (take ?k ?s) v)"
    unfolding run_remove_old ns using assms(2,3) d
    by (subst for_each_drop_epoch) (auto simp: dict.keys_look)
  have keys: "dkeys (fold ddel (take ?k ?s) (vs_results v)) = filter (\<lambda>j. j \<notin> set (take ?k ?s)) (dkeys (vs_results v))"
    by (rule dict.keys_fold_del)
  have "set (filter (\<lambda>j. j \<notin> set (take ?k ?s)) (dkeys (vs_results v))) = set ?s - set (take ?k ?s)" by auto
  also have "\<dots> = set (drop ?k ?s)"
    using set_take_disj_set_drop_if_distinct [OF d, of ?k ?k] by (metis (no_types, lifting) Diff_triv
      Un_Diff Un_empty_left append_take_drop_id Diff_cancel inf_commute order_refl set_append)
  finally have set: "set (dkeys (fold ddel (take ?k ?s) (vs_results v))) = set (drop ?k ?s)" by (simp add: keys)
  have "distinct (dkeys (fold ddel (take ?k ?s) (vs_results v)))"
    using assms(1) by (simp add: keys voting_ok_def wf_dict_def)
  then have "length (fold ddel (take ?k ?s) (vs_results v)) = card (set (drop ?k ?s))"
    using set by (metis distinct_card dkeys_def length_map)
  also have "\<dots> = 5" using d len assms(3) by (simp add: distinct_card distinct_drop)
  finally show ?thesis using run set by (simp add: drop_epochs_def)
qed

definition ten_epochs :: "int list \<Rightarrow> voting" where
  "ten_epochs cands = VotingSystem ''a'' [''a''] 1
     \<lparr>vs_results := map (\<lambda>n. (n, [(''a'', [''a''])])) [1..10], vs_candidates := map (\<lambda>n. (n, [''a''])) cands,
      vs_ballots := map (\<lambda>n. (n, [(''a'', [''a''])])) [1..10]\<rparr>"

theorem remove_old_keeps_five_witness:
  "length (vs_results (snd (remove_old_epoch_data (ten_epochs [1..10])))) = 5"
proof -
  have e: "entries (map (\<lambda>n. (n, e)) ns) n = (if n \<in> set ns then e else [])" for ns and e :: "('x, 'y) dict" and n
    by (induction ns) (auto simp: entries_def dget_def)
  have "voting_ok (ten_epochs [1..10])"
    by (simp add: voting_ok_def ten_epochs_def e) (simp add: wf_dict_def dkeys_def comp_def)
  moreover have "\<forall>n \<in> set (dkeys (vs_results (ten_epochs [1..10]))).
      dget (vs_candidates (ten_epochs [1..10])) n \<noteq> None \<and> dget (vs_ballots (ten_epochs [1..10])) n \<noteq> None"
    by (auto simp: ten_epochs_def dkeys_def dget_def map_of_eq_None_iff comp_def image_image)
  moreover have "length (vs_results (ten_epochs [1..10])) \<ge> 10" by (simp add: ten_epochs_def)
  ultimately show ?thesis using remove_old_keeps_five [of "ten_epochs [1..10]"] by blast
qed

text \<open>When the oldest epoch with results was never given candidates (results of an epoch this
  node did not take part in), discarding raises a \<open>KeyError\<close> instead, after its results are
  already gone.\<close>

theorem remove_old_raises:
  assumes "length (vs_results v) \<ge> 10"
    and "dget (vs_candidates v) (hd (sort (dkeys (vs_results v)))) = None"
  shows "remove_old_epoch_data v =
    (Raise KeyError, v\<lparr>vs_results := ddel (hd (sort (dkeys (vs_results v)))) (vs_results v)\<rparr>)"
proof -
  let ?s = "sort (dkeys (vs_results v))"
  have len: "length ?s = length (vs_results v)" by (simp add: dkeys_def)
  then obtain n ns where s: "?s = n # ns" using assms(1) by (cases ?s) auto
  then have "slice_to (- 5) ?s = n # take (length ?s - 6) ns"
    using len assms(1) slice_to_minus5 [of ?s] by (simp add: take_Cons' numeral_eq_Suc)
  moreover have "dget (vs_results v) n \<noteq> None"
    using s by (metis dict.keys_look list.set_intros(1) set_sort)
  moreover have "drop_epoch n v = (Raise KeyError, v\<lparr>vs_results := ddel n (vs_results v)\<rparr>)"
    using assms(2) s by (simp add: run_drop_epoch calculation(2))
  ultimately show ?thesis using assms(1) s by (simp add: run_remove_old run_simps)
qed

theorem remove_old_raises_witness:
  "fst (remove_old_epoch_data (ten_epochs [2..10])) = Raise KeyError"
proof -
  have "length (vs_results (ten_epochs [2..10])) \<ge> 10" by (simp add: ten_epochs_def)
  moreover have "dget (vs_candidates (ten_epochs [2..10])) (hd (sort (dkeys (vs_results (ten_epochs [2..10]))))) = None"
    by (simp add: ten_epochs_def dkeys_def dget_def comp_def map_of_eq_None_iff sort_key_id_if_sorted upto_rec1)
  ultimately show ?thesis using remove_old_raises [of "ten_epochs [2..10]"] by simp
qed

end
