(* ===== verification/Messaging.thy ===== *)
theory Messaging
  imports Config_Utils
begin

text \<open>
  \<open>engine/consensus_messaging.py\<close> and the messages of \<open>protos/service.proto\<close>: the gRPC
  overlay between consensus engines. The remote ends are the oracle \<open>cm_net\<close>, which says
  whether the \<open>i\<close>-th remote call, to an address, is answered; \<open>cm_outbox\<close> is a ghost log of
  the \<open>Message\<close> calls that were made. A failed call raises inside \<open>Peer.ping\<close> and \<open>Peer.send\<close>,
  which catch everything.
\<close>

section \<open>Messages\<close>

datatype message_type = VOTE | VOTE_RESULT | EMPTY_SLOT | BOOTSTRAP | BOOTSTRAP_REQUEST | SYNC_REQUEST

record bootstrap =
  bs_chain_head_id :: bytes
  bs_num_blocks :: int
  bs_pre_id :: bytes

record consensus_message =
  msg_type :: message_type
  msg_timestamp :: int
  msg_votes :: "string list"
  msg_result :: "string list"
  msg_epoch :: int
  msg_bootstrap :: bootstrap
  msg_signer :: string

text \<open>A message with every other field at its protobuf default.\<close>

definition ConsensusMessage :: "message_type \<Rightarrow> consensus_message" where
  "ConsensusMessage t =
     \<lparr>msg_type = t, msg_timestamp = 0, msg_votes = [], msg_result = [], msg_epoch = 0,
      msg_bootstrap = \<lparr>bs_chain_head_id = [], bs_num_blocks = 0, bs_pre_id = []\<rparr>, msg_signer = ''''\<rparr>"

section \<open>One remote peer\<close>

text \<open>\<open>pr_stub\<close>: the attributes \<open>channel\<close> and \<open>stub\<close> exist, which \<open>connect\<close> sets three seconds
  after the object was made, in the thread of a timer.\<close>

record peer =
  pr_ip :: string
  pr_stub :: bool
  pr_connected :: bool

definition Peer_init :: "string \<Rightarrow> peer" where
  "Peer_init ip = \<lparr>pr_ip = ip, pr_stub = False, pr_connected = False\<rparr>"

text \<open>\<open>up\<close>: the remote answers. Without a stub the call raises \<open>AttributeError\<close>, which counts as no answer.\<close>

definition peer_ping :: "bool \<Rightarrow> peer \<Rightarrow> bool \<times> peer" where
  "peer_ping up p =
     (if pr_stub p \<and> up then (True, p\<lparr>pr_connected := True\<rparr>) else (False, p\<lparr>pr_connected := False\<rparr>))"

text \<open>\<open>while not self.ping(): sleep(0.5)\<close>: \<open>answers i\<close> is the outcome of the \<open>i\<close>-th ping; \<open>None\<close> is a
  thread that pings for ever.\<close>

partial_function (option) connect_loop :: "(nat \<Rightarrow> bool) \<Rightarrow> nat \<Rightarrow> peer \<Rightarrow> peer option" where
  "connect_loop answers i p =
     (let r = peer_ping (answers i) p
      in if fst r then Some (snd r) else connect_loop answers (Suc i) (snd r))"

definition peer_connect :: "(nat \<Rightarrow> bool) \<Rightarrow> peer \<Rightarrow> peer option" where
  "peer_connect answers p = connect_loop answers 0 (p\<lparr>pr_stub := True\<rparr>)"

section \<open>The communicator\<close>

record communicator =
  cm_peers :: "(key, peer) dict"
  cm_queue :: "consensus_message list"
  cm_outbox :: "(string \<times> consensus_message) list"
  cm_net :: "nat \<Rightarrow> string \<Rightarrow> bool"
  cm_calls :: nat

definition Communicator_init :: "(nat \<Rightarrow> string \<Rightarrow> bool) \<Rightarrow> communicator" where
  "Communicator_init net = \<lparr>cm_peers = [], cm_queue = [], cm_outbox = [], cm_net = net, cm_calls = 0\<rparr>"

text \<open>\<open>ConsensusRPC.Message\<close>: a message of another engine arrives.\<close>

definition rpc_Message :: "consensus_message \<Rightarrow> communicator \<Rightarrow> communicator" where
  "rpc_Message m c = c\<lparr>cm_queue := cm_queue c @ [m]\<rparr>"

definition comm_recv :: "(communicator, consensus_message option) py" where
  "comm_recv = (\<lambda>c. case cm_queue c of
     [] \<Rightarrow> (Return None, c)
   | m # ms \<Rightarrow> (Return (Some m), c\<lparr>cm_queue := ms\<rparr>))"

text \<open>\<open>reduce(lambda acc, p: acc + 1 if p.connected else acc, peers, 0)\<close>\<close>

definition comm_online_peers :: "communicator \<Rightarrow> int" where
  "comm_online_peers c = foldl (\<lambda>acc p. if pr_connected p then acc + 1 else acc) 0 (dvalues (cm_peers c))"

definition ping_entry :: "key \<Rightarrow> peer \<Rightarrow> (communicator, bool) py" where
  "ping_entry k p = (\<lambda>c.
     let (answer, q) = peer_ping (cm_net c (cm_calls c) (pr_ip p)) p
     in (Return answer, c\<lparr>cm_peers := dput k q (cm_peers c), cm_calls := Suc (cm_calls c)\<rparr>))"

definition comm_ping :: "key \<Rightarrow> (communicator, bool) py" where
  "comm_ping k = (\<lambda>c. case dget (cm_peers c) k of
     None \<Rightarrow> (Return False, c)
   | Some p \<Rightarrow> ping_entry k p c)"

definition set_peer :: "key \<Rightarrow> peer \<Rightarrow> communicator \<Rightarrow> communicator" where
  "set_peer k p c = c\<lparr>cm_peers := dput k p (cm_peers c)\<rparr>"

text \<open>\<open>add_peer\<close>: a known peer that no longer answers is replaced, after closing its channel, which
  does not exist yet when its connect timer has not fired.\<close>

definition comm_add_peer :: "key \<Rightarrow> string \<Rightarrow> (communicator, unit) py" where
  "comm_add_peer k ip = (\<lambda>c. case dget (cm_peers c) k of
     Some p \<Rightarrow>
       bindP (ping_entry k p) (\<lambda>answer.
         if answer then ret ()
         else if pr_stub p then modify (set_peer k (Peer_init ip))
         else raise AttributeError) c
   | None \<Rightarrow> (Return (), set_peer k (Peer_init ip) c))"

definition peer_send :: "peer \<Rightarrow> consensus_message \<Rightarrow> communicator \<Rightarrow> communicator" where
  "peer_send p m c = (if pr_connected p then c\<lparr>cm_outbox := cm_outbox c @ [(pr_ip p, m)]\<rparr> else c)"

definition comm_send :: "key \<Rightarrow> consensus_message \<Rightarrow> (communicator, unit) py" where
  "comm_send k m = (\<lambda>c. case dget (cm_peers c) k of
     None \<Rightarrow> (Raise KeyError, c)
   | Some p \<Rightarrow> (Return (), peer_send p m c))"

text \<open>\<open>broadcast\<close>: one thread per connected peer, joined at the end; the log takes them in order.\<close>

definition comm_broadcast :: "consensus_message \<Rightarrow> communicator \<Rightarrow> communicator" where
  "comm_broadcast m c = fold (\<lambda>p. if pr_connected p then peer_send p m else id) (dvalues (cm_peers c)) c"

text \<open>The timer of a new peer fires: \<open>connect\<close> makes the stub; its pings are further events.\<close>

definition timer_connect :: "key \<Rightarrow> communicator \<Rightarrow> communicator" where
  "timer_connect k c = (case dget (cm_peers c) k of
     None \<Rightarrow> c | Some p \<Rightarrow> set_peer k (p\<lparr>pr_stub := True\<rparr>) c)"

section \<open>Facts\<close>

lemma peer_send_frame [simp]:
  "cm_peers (peer_send p m c) = cm_peers c" "cm_queue (peer_send p m c) = cm_queue c"
  "cm_net (peer_send p m c) = cm_net c" "cm_calls (peer_send p m c) = cm_calls c"
  by (simp_all add: peer_send_def)

lemma broadcast_frame [simp]:
  "cm_peers (comm_broadcast m c) = cm_peers c" "cm_queue (comm_broadcast m c) = cm_queue c"
  "cm_net (comm_broadcast m c) = cm_net c" "cm_calls (comm_broadcast m c) = cm_calls c"
proof -
  have "cm_peers (fold (\<lambda>p. if pr_connected p then peer_send p m else id) ps c) = cm_peers c \<and>
    cm_queue (fold (\<lambda>p. if pr_connected p then peer_send p m else id) ps c) = cm_queue c \<and>
    cm_net (fold (\<lambda>p. if pr_connected p then peer_send p m else id) ps c) = cm_net c \<and>
    cm_calls (fold (\<lambda>p. if pr_connected p then peer_send p m else id) ps c) = cm_calls c" for ps
    by (induction ps arbitrary: c) auto
  then show "cm_peers (comm_broadcast m c) = cm_peers c" "cm_queue (comm_broadcast m c) = cm_queue c"
    "cm_net (comm_broadcast m c) = cm_net c" "cm_calls (comm_broadcast m c) = cm_calls c"
    by (simp_all add: comm_broadcast_def)
qed

lemma broadcast_outbox: "cm_outbox (comm_broadcast m c) =
    cm_outbox c @ map (\<lambda>p. (pr_ip p, m)) (filter pr_connected (dvalues (cm_peers c)))"
proof -
  have "cm_outbox (fold (\<lambda>p. if pr_connected p then peer_send p m else id) ps c) =
      cm_outbox c @ map (\<lambda>p. (pr_ip p, m)) (filter pr_connected ps)" for ps
    by (induction ps arbitrary: c) (auto simp: peer_send_def)
  then show ?thesis by (simp add: comm_broadcast_def)
qed

lemma online_peers_filter: "comm_online_peers c = int (length (filter pr_connected (dvalues (cm_peers c))))"
proof -
  have "foldl (\<lambda>acc p. if pr_connected p then acc + 1 else acc) n ps = n + int (length (filter pr_connected ps))"
    for n :: int and ps :: "peer list" by (induction ps arbitrary: n) auto
  then show ?thesis by (simp add: comm_online_peers_def)
qed

lemma online_peers_nonneg: "0 \<le> comm_online_peers c"
  by (simp add: online_peers_filter)

lemma broadcast_online: "comm_online_peers (comm_broadcast m c) = comm_online_peers c"
  by (simp add: online_peers_filter)

definition comm_ok :: "communicator \<Rightarrow> bool" where
  "comm_ok c \<longleftrightarrow> wf_dict (cm_peers c)
     \<and> (\<forall>k p. dget (cm_peers c) k = Some p \<longrightarrow> pr_connected p \<longrightarrow> pr_stub p)"

lemma comm_ok_set_peer:
  "comm_ok c \<Longrightarrow> (pr_connected p \<Longrightarrow> pr_stub p) \<Longrightarrow> comm_ok (set_peer k p c)"
  by (auto simp: comm_ok_def set_peer_def dict.ok_ins dict_simps)

lemma comm_ok_ping: "comm_ok c \<Longrightarrow> dget (cm_peers c) k = Some p \<Longrightarrow> comm_ok (snd (ping_entry k p c))"
  by (auto simp: comm_ok_def ping_entry_def peer_ping_def Let_def dict.ok_ins dict_simps)

lemma comm_ok_steps:
  assumes "comm_ok c"
  shows "comm_ok (rpc_Message m c)" "comm_ok (snd (comm_recv c))" "comm_ok (snd (comm_ping k c))"
    "comm_ok (snd (comm_add_peer k ip c))" "comm_ok (snd (comm_send k m c))"
    "comm_ok (comm_broadcast m c)" "comm_ok (timer_connect k c)"
proof -
  show "comm_ok (rpc_Message m c)" "comm_ok (snd (comm_recv c))" "comm_ok (snd (comm_send k m c))"
    "comm_ok (comm_broadcast m c)"
    using assms by (simp_all add: comm_ok_def rpc_Message_def comm_recv_def comm_send_def split: list.split option.split)
  show "comm_ok (snd (comm_ping k c))"
    using assms by (simp add: comm_ping_def comm_ok_ping split: option.split)
  show "comm_ok (timer_connect k c)"
    using assms by (auto simp: timer_connect_def intro: comm_ok_set_peer split: option.split)
  show "comm_ok (snd (comm_add_peer k ip c))"
  proof (cases "dget (cm_peers c) k")
    case None
    then show ?thesis using comm_ok_set_peer [OF assms, of "Peer_init ip" k]
      by (simp add: comm_add_peer_def) (simp add: Peer_init_def)
  next
    case (Some p)
    with comm_ok_ping [OF assms Some] show ?thesis
      by (auto simp: comm_add_peer_def run_simps Peer_init_def intro!: comm_ok_set_peer
          split: prod.split outcome.split)
  qed
qed

lemma connect_loop_found:
  assumes "pr_stub p" "answers (i + n)" "\<forall>j < n. \<not> answers (i + j)"
  shows "connect_loop answers i p = Some (p\<lparr>pr_connected := True\<rparr>)"
  using assms
proof (induction n arbitrary: i p)
  case 0
  then show ?case by (subst connect_loop.simps) (simp add: peer_ping_def Let_def)
next
  case (Suc n)
  have "\<not> answers i" using Suc.prems(3) by (metis add.right_neutral zero_less_Suc)
  then have "connect_loop answers i p = connect_loop answers (Suc i) (p\<lparr>pr_connected := False\<rparr>)"
    by (subst connect_loop.simps) (simp add: peer_ping_def Let_def)
  also have "\<dots> = Some (p\<lparr>pr_connected := False\<rparr>\<lparr>pr_connected := True\<rparr>)"
    using Suc.prems by (intro Suc.IH) (auto simp: less_Suc_eq_0_disj)
  finally show ?case by simp
qed

lemma connect_loop_answered:
  assumes "connect_loop answers i p = Some q"
  shows "\<exists>j \<ge> i. answers j"
proof (rule connect_loop.raw_induct [where P = "\<lambda>answers i p q. \<exists>j \<ge> i. answers j", OF _ assms])
  fix f answers i p q
  assume IH: "\<And>answers i p q. f answers i p = Some q \<Longrightarrow> \<exists>j \<ge> i. answers j"
    and eq: "(let r = peer_ping (answers i) p in if fst r then Some (snd r) else f answers (Suc i) (snd r)) = Some q"
  show "\<exists>j \<ge> i. answers j"
  proof (cases "fst (peer_ping (answers i) p)")
    case True
    then show ?thesis by (auto simp: peer_ping_def split: if_splits)
  next
    case False
    with eq have "f answers (Suc i) (snd (peer_ping (answers i) p)) = Some q" by (simp add: Let_def)
    then show ?thesis using IH Suc_leD by blast
  qed
qed

section \<open>Properties\<close>

text \<open>The connect thread of a peer ends exactly when some ping is answered, and then the peer
  is connected; while no ping is answered it pings for ever.\<close>

theorem connect_returns_iff:
  "(peer_connect answers p \<noteq> None \<longleftrightarrow> (\<exists>i. answers i))
    \<and> peer_connect answers p \<in> {None, Some (p\<lparr>pr_stub := True, pr_connected := True\<rparr>)}"
proof (cases "\<exists>i. answers i")
  case True
  define n where "n = (LEAST i. answers i)"
  have "answers n" "\<forall>j < n. \<not> answers j"
    using True by (auto simp: n_def intro: LeastI dest: not_less_Least)
  then have "peer_connect answers p = Some (p\<lparr>pr_stub := True\<rparr>\<lparr>pr_connected := True\<rparr>)"
    unfolding peer_connect_def by (intro connect_loop_found [where n = n]) simp_all
  with True show ?thesis by simp
next
  case False
  then have "peer_connect answers p = None"
    unfolding peer_connect_def using connect_loop_answered by (metis not_None_eq)
  with False show ?thesis by simp
qed

text \<open>A broadcast reaches every connected peer exactly once, in the order of the table, and no
  other peer; the number of calls is the number of online peers.\<close>

theorem broadcast_reaches_connected:
  "cm_outbox (comm_broadcast m c) = cm_outbox c @ map (\<lambda>p. (pr_ip p, m)) (filter pr_connected (dvalues (cm_peers c)))
    \<and> int (length (cm_outbox (comm_broadcast m c))) = int (length (cm_outbox c)) + comm_online_peers c
    \<and> cm_peers (comm_broadcast m c) = cm_peers c"
  by (simp add: broadcast_outbox online_peers_filter)

text \<open>\<open>add_peer\<close> knows the peer afterwards; it keeps a peer that answers, replaces one that no
  longer answers, and raises (changing only its \<open>connected\<close> flag) for a peer whose connect
  timer has not fired yet, because there is no channel to close.\<close>

theorem add_peer_cases:
  assumes "dget (cm_peers c) k = Some p"
  defines "up \<equiv> cm_net c (cm_calls c) (pr_ip p)"
  shows "comm_add_peer k ip c =
    (if \<not> pr_stub p then (Raise AttributeError, c\<lparr>cm_peers := dput k (p\<lparr>pr_connected := False\<rparr>) (cm_peers c), cm_calls := Suc (cm_calls c)\<rparr>)
     else if up then (Return (), c\<lparr>cm_peers := dput k (p\<lparr>pr_connected := True\<rparr>) (cm_peers c), cm_calls := Suc (cm_calls c)\<rparr>)
     else (Return (), c\<lparr>cm_peers := dput k (Peer_init ip) (cm_peers c), cm_calls := Suc (cm_calls c)\<rparr>))"
  using assms(1) by (simp add: comm_add_peer_def run_simps ping_entry_def peer_ping_def Let_def set_peer_def
      dput_dput up_def)

theorem add_peer_cases_witness:
  "fst (comm_add_peer ''k'' ''ip'' (set_peer ''k'' (Peer_init ''ip'') (Communicator_init (\<lambda>_ _. True)))) = Raise AttributeError"
proof -
  have "dget (cm_peers (set_peer ''k'' (Peer_init ''ip'') (Communicator_init (\<lambda>_ _. True)))) ''k'' = Some (Peer_init ''ip'')"
    by (simp add: set_peer_def dict_simps)
  from add_peer_cases [OF this, of "''ip''"] show ?thesis by (simp add: Peer_init_def)
qed

end
