(* ===== verification/Consensus_Node.thy ===== *)
theory Consensus_Node
  imports Peer_Node Messaging
begin

text \<open>
  \<open>ConsensusNode\<close> of \<open>engine/consensus_node.py\<close>, the base class of the engine's node: the
  table of known peers, the liveness check and the sending of messages. It is a record that
  the derived class extends. \<open>time.time()\<close> reads the next value of the clock \<open>cn_clock\<close>, so
  that two readings in one call may differ.
\<close>

section \<open>State\<close>

record consensus_node =
  cn_key :: key
  cn_peers :: "(key, peer_node) dict"
  cn_peer_keys :: "key list"
  cn_last_peer_check :: rat
  cn_comm :: communicator
  cn_clock :: "nat \<Rightarrow> rat"
  cn_tick :: nat

definition time_now :: "('z consensus_node_scheme, rat) py" where
  "time_now = (\<lambda>n. (Return (cn_clock n (cn_tick n)), n\<lparr>cn_tick := Suc (cn_tick n)\<rparr>))"

text \<open>\<open>int(t)\<close> of a float truncates towards zero.\<close>

definition py_int :: "rat \<Rightarrow> int" where
  "py_int t = (if t < 0 then - \<lfloor>- t\<rfloor> else \<lfloor>t\<rfloor>)"

definition in_comm :: "(communicator, 'a) py \<Rightarrow> ('z consensus_node_scheme, 'a) py" where
  "in_comm = on_field cn_comm (\<lambda>c n. n\<lparr>cn_comm := c\<rparr>)"

definition put_peer :: "key \<Rightarrow> peer_node \<Rightarrow> 'z consensus_node_scheme \<Rightarrow> 'z consensus_node_scheme" where
  "put_peer k p n = n\<lparr>cn_peers := dput k p (cn_peers n)\<rparr>"

definition get_peer :: "key \<Rightarrow> ('z consensus_node_scheme, peer_node) py" where
  "get_peer k = bindP (gets (\<lambda>n. dget (cn_peers n) k)) (from_option KeyError)"

text \<open>A clock that does not go back. \<open>paced\<close> is one that advances with every reading.\<close>

definition steady :: "(nat \<Rightarrow> rat) \<Rightarrow> bool" where
  "steady clock \<longleftrightarrow> mono clock \<and> 0 \<le> clock 0"

lemma steady_mono: "steady clock \<Longrightarrow> i \<le> j \<Longrightarrow> clock i \<le> clock j"
  by (auto simp: steady_def dest: monoD)

lemma steady_nonneg: "steady clock \<Longrightarrow> 0 \<le> clock i"
  using steady_mono [of clock 0 i] by (simp add: steady_def)

lemma py_int_le: "0 \<le> t \<Longrightarrow> of_int (py_int t) \<le> t"
  by (simp add: py_int_def)

definition paced :: "rat \<Rightarrow> nat \<Rightarrow> rat" where
  "paced x i = x * of_nat i"

lemma steady_paced: "0 \<le> x \<Longrightarrow> steady (paced x)"
  by (auto simp: steady_def paced_def intro!: monoI mult_left_mono)

section \<open>Operations\<close>

definition cn_add_peer :: "key \<Rightarrow> ('z consensus_node_scheme, unit) py" where
  "cn_add_peer k = bindP (gets (\<lambda>n. dget (cn_peers n) k)) (\<lambda>p. case p of
     Some _ \<Rightarrow> ret ()
   | None \<Rightarrow> bindP time_now (\<lambda>now. modify (put_peer k (PeerNode k now))))"

definition cn_remove_peer :: "key \<Rightarrow> 'z consensus_node_scheme \<Rightarrow> 'z consensus_node_scheme" where
  "cn_remove_peer k n = (case dget (cn_peers n) k of
     None \<Rightarrow> n | Some p \<Rightarrow> put_peer k (pn_set_online False p) n)"

text \<open>\<open>__init__\<close>: every member becomes a peer, and the node itself, which must be a member, is online.\<close>

definition cn_init :: "key list \<Rightarrow> ('z consensus_node_scheme, unit) py" where
  "cn_init peer_keys =
     thenP (modify (\<lambda>n. n\<lparr>cn_peers := [], cn_peer_keys := peer_keys\<rparr>))
     (thenP (for_each peer_keys cn_add_peer)
     (bindP (gets cn_key) (\<lambda>k. bindP (get_peer k) (\<lambda>p.
      thenP (modify (put_peer k (pn_set_online True p)))
        (modify (\<lambda>n. n\<lparr>cn_last_peer_check := 0\<rparr>))))))"

definition cn_peer_connected :: "key \<Rightarrow> string \<Rightarrow> ('z consensus_node_scheme, unit) py" where
  "cn_peer_connected k ip = in_comm (comm_add_peer k ip)"

definition send_ping :: "key \<Rightarrow> ('z consensus_node_scheme, bool) py" where
  "send_ping k = in_comm (comm_ping k)"

definition cn_seen :: "key \<Rightarrow> ('z consensus_node_scheme, unit) py" where
  "cn_seen k = bindP (get_peer k) (\<lambda>p. bindP time_now (\<lambda>now. modify (put_peer k (pn_seen now p))))"

text \<open>The body of the loop of \<open>check_on_peers\<close>, for the entry with key \<open>k\<close>.\<close>

definition check_peer :: "rat \<Rightarrow> key \<Rightarrow> ('z consensus_node_scheme, unit) py" where
  "check_peer now k =
     bindP (get_peer k) (\<lambda>p.
     bindP (gets cn_key) (\<lambda>me.
       if pn_key p = me then ret ()
       else if now - pn_last_seen p \<ge> PING_THRESHOLD then
         bindP (send_ping (pn_key p)) (\<lambda>answer.
           if answer then bindP time_now (\<lambda>t. modify (put_peer k (pn_seen t p)))
           else modify (cn_remove_peer (pn_key p)))
       else ret ()))"

definition check_on_peers :: "('z consensus_node_scheme, unit) py" where
  "check_on_peers =
     bindP time_now (\<lambda>now.
     bindP (gets cn_last_peer_check) (\<lambda>last_check.
       if now - last_check > PEER_CHECK_INTERVAL then
         bindP (gets (\<lambda>n. dkeys (cn_peers n))) (\<lambda>ks.
         thenP (for_each ks (check_peer now))
           (modify (\<lambda>n. n\<lparr>cn_last_peer_check := now\<rparr>)))
       else ret ()))"

text \<open>The message as it leaves: stamped with the time and signed with the node's key.\<close>

definition stamp :: "consensus_message \<Rightarrow> ('z consensus_node_scheme, consensus_message) py" where
  "stamp m = bindP time_now (\<lambda>now. bindP (gets cn_key) (\<lambda>k.
     ret (m\<lparr>msg_timestamp := py_int now, msg_signer := k\<rparr>)))"

definition broadcast :: "consensus_message \<Rightarrow> ('z consensus_node_scheme, unit) py" where
  "broadcast m = bindP (stamp m) (\<lambda>m'. in_comm (modify (comm_broadcast m')))"

definition send_to :: "key \<Rightarrow> consensus_message \<Rightarrow> ('z consensus_node_scheme, unit) py" where
  "send_to k m = bindP (stamp m) (\<lambda>m'. in_comm (comm_send k m'))"

definition send_bootstrap_message :: "key \<Rightarrow> bytes \<Rightarrow> int \<Rightarrow> bytes \<Rightarrow> ('z consensus_node_scheme, unit) py" where
  "send_bootstrap_message k chain_head_id num_blocks pre_id =
     send_to k ((ConsensusMessage BOOTSTRAP)
       \<lparr>msg_bootstrap := \<lparr>bs_chain_head_id = chain_head_id, bs_num_blocks = num_blocks, bs_pre_id = pre_id\<rparr>\<rparr>)"

definition send_bootstrap_request :: "key \<Rightarrow> ('z consensus_node_scheme, unit) py" where
  "send_bootstrap_request k = send_to k (ConsensusMessage BOOTSTRAP_REQUEST)"

section \<open>What the base class leaves alone\<close>

text \<open>
  The base methods keep the identity of the node, the keys and scores of its known peers and
  every attribute of the derived class.
\<close>

definition score_at :: "key \<Rightarrow> 'z consensus_node_scheme \<Rightarrow> rat option" where
  "score_at k n = map_option pn_score (dget (cn_peers n) k)"

definition base_frame :: "'z consensus_node_scheme \<Rightarrow> 'z consensus_node_scheme \<Rightarrow> bool" where
  "base_frame s t \<longleftrightarrow> cn_key t = cn_key s \<and> cn_peer_keys t = cn_peer_keys s
     \<and> consensus_node.more t = consensus_node.more s
     \<and> cn_clock t = cn_clock s \<and> cn_tick s \<le> cn_tick t \<and> dkeys (cn_peers t) = dkeys (cn_peers s)
     \<and> (\<forall>k. score_at k t = score_at k s)
     \<and> (comm_ok (cn_comm s) \<longrightarrow> comm_ok (cn_comm t))"

interpretation base_frame: state_preorder base_frame
  by unfold_locales (auto simp: base_frame_def)

lemma keys_put_peer: "dget (cn_peers n) k \<noteq> None \<Longrightarrow> dkeys (cn_peers (put_peer k p n)) = dkeys (cn_peers n)"
  by (simp add: put_peer_def dict.keys_ins dict.keys_look)

lemma score_at_put_peer: "score_at j (put_peer k p n) = (if j = k then Some (pn_score p) else score_at j n)"
  by (simp add: put_peer_def score_at_def dict_simps)

lemma frame_time_now: "keeps base_frame time_now"
  by (simp add: keeps_def base_frame_def time_now_def score_at_def)

lemma frame_get_peer: "keeps base_frame (get_peer k)"
  unfolding get_peer_def by (intro base_frame.all)

lemma frame_in_comm: "(\<And>c. comm_ok c \<Longrightarrow> comm_ok (snd (m c))) \<Longrightarrow> keeps base_frame (in_comm m)"
  by (auto simp: keeps_def base_frame_def in_comm_def run_simps score_at_def split: prod.split) (metis snd_conv)

lemma frame_stamp: "keeps base_frame (stamp m)"
  unfolding stamp_def by (intro base_frame.all frame_time_now)

lemma frame_broadcast: "keeps base_frame (broadcast m)"
  unfolding broadcast_def
  by (intro base_frame.bind frame_stamp frame_in_comm) (simp add: run_simps comm_ok_steps)

lemma frame_send_to: "keeps base_frame (send_to k m)"
  unfolding send_to_def by (intro base_frame.bind frame_stamp frame_in_comm comm_ok_steps)

lemma frame_send_ping: "keeps base_frame (send_ping k)"
  unfolding send_ping_def by (intro frame_in_comm comm_ok_steps)

lemma frame_peer_connected: "keeps base_frame (cn_peer_connected k ip)"
  unfolding cn_peer_connected_def by (intro frame_in_comm comm_ok_steps)

lemma frame_send_bootstrap: "keeps base_frame (send_bootstrap_message k a b c)" "keeps base_frame (send_bootstrap_request k)"
  unfolding send_bootstrap_message_def send_bootstrap_request_def by (rule frame_send_to)+

lemma base_frame_put_peer:
  assumes "dget (cn_peers n) k = Some p" "pn_score q = pn_score p"
  shows "base_frame n (put_peer k q n)"
  using assms keys_put_peer [of n k q]
  by (auto simp: base_frame_def score_at_put_peer) (auto simp: put_peer_def score_at_def)

lemma base_frame_tick: "base_frame n (n\<lparr>cn_tick := Suc (cn_tick n)\<rparr>)"
  by (simp add: base_frame_def score_at_def)

lemma frame_seen: "keeps base_frame (cn_seen k)"
proof (rule keepsI)
  fix s :: "'z consensus_node_scheme"
  show "base_frame s (snd (cn_seen k s))"
  proof (cases "dget (cn_peers s) k")
    case None
    then show ?thesis by (simp add: cn_seen_def get_peer_def run_simps base_frame.R_refl)
  next
    case (Some p)
    let ?t = "s\<lparr>cn_tick := Suc (cn_tick s)\<rparr>"
    have "base_frame ?t (put_peer k (pn_seen (cn_clock s (cn_tick s)) p) ?t)"
      using Some by (intro base_frame_put_peer [where p = p]) (simp_all add: pn_seen_def)
    with base_frame_tick [of s] have "base_frame s (put_peer k (pn_seen (cn_clock s (cn_tick s)) p) ?t)"
      by (rule base_frame.R_trans)
    then show ?thesis using Some by (simp add: cn_seen_def get_peer_def run_simps time_now_def)
  qed
qed

lemma frame_remove_peer: "base_frame n (cn_remove_peer k n)"
  by (auto simp: cn_remove_peer_def pn_set_online_def base_frame.R_refl intro!: base_frame_put_peer split: option.split)

text \<open>The ping leaves the table of peers alone, so the entry read before it is still there.\<close>

lemma peers_send_ping: "cn_peers (snd (send_ping k n)) = cn_peers n"
  by (simp add: send_ping_def in_comm_def run_simps split: prod.split)

lemma send_ping_returns: "\<exists>b. fst (send_ping k n) = Return b"
  by (auto simp: send_ping_def in_comm_def run_simps comm_ping_def ping_entry_def Let_def split: prod.split option.split)

lemma frame_check_peer: "keeps base_frame (check_peer now k)"
proof (rule keepsI)
  fix s :: "'z consensus_node_scheme"
  show "base_frame s (snd (check_peer now k s))"
  proof (cases "dget (cn_peers s) k")
    case None
    then show ?thesis by (simp add: check_peer_def get_peer_def run_simps base_frame.R_refl)
  next
    case (Some p)
    show ?thesis
    proof (cases "pn_key p \<noteq> cn_key s \<and> now - pn_last_seen p \<ge> PING_THRESHOLD")
      case False
      with Some show ?thesis by (auto simp: check_peer_def get_peer_def run_simps base_frame.R_refl)
    next
      case True
      obtain b t where ping: "send_ping (pn_key p) s = (Return b, t)"
        using send_ping_returns by (metis prod.collapse)
      have t: "base_frame s t" "dget (cn_peers t) k = Some p"
        using keeps_run [OF frame_send_ping ping] peers_send_ping [of "pn_key p" s] Some ping by auto
      let ?u = "t\<lparr>cn_tick := Suc (cn_tick t)\<rparr>"
      have "base_frame ?u (put_peer k (pn_seen (cn_clock t (cn_tick t)) p) ?u)"
        using t(2) by (intro base_frame_put_peer [where p = p]) (simp_all add: pn_seen_def)
      then have "base_frame s (put_peer k (pn_seen (cn_clock t (cn_tick t)) p) ?u)"
        using t(1) base_frame_tick base_frame.R_trans by blast
      moreover have "base_frame s (cn_remove_peer (pn_key p) t)"
        using t(1) frame_remove_peer base_frame.R_trans by blast
      ultimately show ?thesis
        using Some True ping by (simp add: check_peer_def get_peer_def run_simps time_now_def)
    qed
  qed
qed

lemma frame_check_on_peers: "keeps base_frame check_on_peers"
  unfolding check_on_peers_def
  by (intro base_frame.bind base_frame.cond base_frame.seq base_frame.loop base_frame.pure
      frame_time_now frame_check_peer base_frame.modify)
    (simp add: base_frame_def score_at_def)

lemmas base_frames = frame_time_now frame_get_peer frame_stamp frame_broadcast frame_send_to frame_send_ping
  frame_peer_connected frame_send_bootstrap frame_seen frame_check_peer frame_check_on_peers

end
