(* ===== verification/DDPoA_Node.thy ===== *)
theory DDPoA_Node
  imports Epoch Voting Consensus_Node
begin

text \<open>
  \<open>DDPoANode\<close> of \<open>engine/ddpoa_node.py\<close>: the consensus node, which votes, exchanges results,
  starts and ends epochs, and keeps the scores of its peers. The class extends the record of
  \<open>ConsensusNode\<close>. The random numbers of \<open>random.choices\<close> are the stream \<open>dn_rand\<close>. The timer
  of \<open>handle_vote\<close> is a record with the epoch it broadcasts and whether it is still pending;
  that it fires is the event \<open>timer_fires\<close>, which happens between two other calls.
\<close>

section \<open>State\<close>

datatype node_state = IDLE | ELECTION | PRODUCTION | WAITING_FOR_BOOTSTRAP | CATCHING_UP

record broadcast_timer =
  bt_epoch :: int
  bt_pending :: bool

record ddpoa_node = consensus_node +
  dn_epoch :: epoch
  dn_state :: node_state
  dn_voting :: voting
  dn_previous_vote_ts :: rat
  dn_previous_result_ts :: rat
  dn_broadcast_timer :: "broadcast_timer option"
  dn_ready_result :: "(int, bool) dict"
  dn_num_slots :: int
  dn_pre_online :: int
  dn_rand :: "nat \<Rightarrow> rat"
  dn_rtick :: nat

definition in_voting :: "(voting, 'a) py \<Rightarrow> (ddpoa_node, 'a) py" where
  "in_voting = on_field dn_voting (\<lambda>v n. n\<lparr>dn_voting := v\<rparr>)"

definition in_epoch :: "(epoch, 'a) py \<Rightarrow> (ddpoa_node, 'a) py" where
  "in_epoch = on_field dn_epoch (\<lambda>e n. n\<lparr>dn_epoch := e\<rparr>)"

definition set_state :: "node_state \<Rightarrow> ddpoa_node \<Rightarrow> ddpoa_node" where
  "set_state st n = n\<lparr>dn_state := st\<rparr>"

text \<open>\<open>if self.state != State.CATCHING_UP: self.state = st\<close>\<close>

definition move_state :: "node_state \<Rightarrow> ddpoa_node \<Rightarrow> ddpoa_node" where
  "move_state st n = (if dn_state n \<noteq> CATCHING_UP then set_state st n else n)"

text \<open>\<open>__init__\<close>, on the object whose key, clock, random numbers and communicator are given.\<close>

definition DDPoANode_init :: "key list \<Rightarrow> int \<Rightarrow> (ddpoa_node, unit) py" where
  "DDPoANode_init peer_keys slots =
     thenP (cn_init peer_keys)
       (modify (\<lambda>n. n\<lparr>dn_epoch := Epoch_init 0 slots, dn_state := IDLE,
          dn_voting := VotingSystem (cn_key n) peer_keys slots, dn_previous_vote_ts := 0,
          dn_previous_result_ts := 0, dn_broadcast_timer := None, dn_ready_result := [],
          dn_num_slots := slots, dn_pre_online := 0\<rparr>))"

section \<open>Observations\<close>

definition online_peers :: "(ddpoa_node, int) py" where
  "online_peers =
     bindP (gets (\<lambda>n. comm_online_peers (cn_comm n) + 1)) (\<lambda>num_online.
     bindP (gets dn_pre_online) (\<lambda>pre_online.
     thenP (whenP (num_online \<noteq> pre_online) (modify (\<lambda>n. n\<lparr>dn_pre_online := num_online\<rparr>)))
       (ret num_online)))"

definition is_current_witness :: "ddpoa_node \<Rightarrow> bool" where
  "is_current_witness n \<longleftrightarrow> current_witness (dn_epoch n) = Some (cn_key n)"

definition node_next_witness :: "ddpoa_node \<Rightarrow> key option" where
  "node_next_witness n = next_witness (dn_epoch n)"

definition expected_signer :: "ddpoa_node \<Rightarrow> key option" where
  "expected_signer n = current_witness (dn_epoch n)"

definition should_vote :: "(ddpoa_node, bool) py" where
  "should_vote =
     bindP (gets dn_epoch) (\<lambda>e.
       if (slots_remaining_in_epoch e \<le> VOTING_SLOTS \<or> is_over e) \<or> ep_number e = 0 then
         bindP (gets (\<lambda>n. \<not> has_voted (cn_key n) (next_epoch_number e) (dn_voting n))) (\<lambda>not_voted.
         bindP online_peers (\<lambda>online.
         bindP (gets (\<lambda>n. online > dn_num_slots n)) (\<lambda>enough_peers.
           ret (enough_peers \<and> not_voted))))
       else ret False)"

definition should_rebroadcast_ballot :: "(ddpoa_node, bool) py" where
  "should_rebroadcast_ballot =
     bindP (gets (\<lambda>n. dn_state n = ELECTION)) (\<lambda>votable_state.
     bindP time_now (\<lambda>now.
     bindP (gets (\<lambda>n. now - dn_previous_vote_ts n > REBROADCAST_BALLOT_INTERVAL)) (\<lambda>timeout_reached.
       ret (votable_state \<and> timeout_reached))))"

section \<open>Voting\<close>

definition draw_ballot :: "(ddpoa_node, ballot) py" where
  "draw_ballot = (\<lambda>n.
     case fill_ballot (dn_rand n) (dn_rtick n) (cn_peers n) (dn_voting n) of
       Return b \<Rightarrow> (Return b, n\<lparr>dn_rtick := dn_rtick n + length (vs_peer_keys (dn_voting n))\<rparr>)
     | Raise e \<Rightarrow> (Raise e, n)
     | Hang \<Rightarrow> (Hang, n))"

definition send_ballot :: "ballot \<Rightarrow> int \<Rightarrow> (ddpoa_node, unit) py" where
  "send_ballot b e =
     thenP (broadcast ((ConsensusMessage VOTE)\<lparr>msg_votes := b, msg_epoch := e\<rparr>))
       (bindP time_now (\<lambda>now. modify (\<lambda>n. n\<lparr>dn_previous_vote_ts := now\<rparr>)))"

definition vote :: "(ddpoa_node, unit) py" where
  "vote =
     bindP draw_ballot (\<lambda>b.
     bindP (gets (\<lambda>n. next_epoch_number (dn_epoch n))) (\<lambda>e.
     bindP (gets cn_key) (\<lambda>k.
     thenP (in_voting (modify (add_ballot e k b)))
     (thenP (modify (move_state ELECTION))
       (send_ballot b e)))))"

definition rebroadcast_ballot :: "(ddpoa_node, unit) py" where
  "rebroadcast_ballot =
     bindP (gets (\<lambda>n. next_epoch_number (dn_epoch n))) (\<lambda>e.
     bindP (gets (\<lambda>n. dget (vs_ballots (dn_voting n)) e)) (\<lambda>found.
     bindP (from_option KeyError found) (\<lambda>ballots.
     bindP (gets cn_key) (\<lambda>k.
     bindP (from_option KeyError (dget ballots k)) (\<lambda>b.
       send_ballot b e)))))"

definition broadcast_result :: "stv \<Rightarrow> (string \<Rightarrow> string) \<Rightarrow> int \<Rightarrow> (ddpoa_node, unit) py" where
  "broadcast_result stv sha e =
     bindP (in_voting (calculate_result stv sha e)) (\<lambda>r.
       broadcast ((ConsensusMessage VOTE_RESULT)\<lparr>msg_result := r, msg_epoch := e\<rparr>))"

section \<open>Epochs\<close>

definition node_bootstrap :: "int \<Rightarrow> int \<Rightarrow> key list \<Rightarrow> int \<Rightarrow> ddpoa_node \<Rightarrow> ddpoa_node" where
  "node_bootstrap epoch_num witness_idx candidates num_slots n =
     n\<lparr>dn_num_slots := num_slots,
       dn_epoch := (set_candidates_and_witnesses candidates (Epoch_init epoch_num num_slots))
         \<lparr>ep_witness_idx := witness_idx\<rparr>,
       dn_state := PRODUCTION\<rparr>"

text \<open>The new epoch is in place before its candidates are read: \<open>None[:slots]\<close> raises.\<close>

definition initialize_epoch :: "int \<Rightarrow> (ddpoa_node, unit) py" where
  "initialize_epoch number =
     thenP (modify (\<lambda>n. n\<lparr>dn_epoch := Epoch_init number (dn_num_slots n)\<rparr>))
    (thenP (modify (move_state PRODUCTION))
    (bindP (gets (\<lambda>n. get_candidates (ep_number (dn_epoch n)) (dn_voting n))) (\<lambda>found.
     bindP (from_option TypeError found) (\<lambda>candidates.
     thenP (in_epoch (modify (set_candidates_and_witnesses candidates)))
       (in_voting remove_old_epoch_data)))))"

definition finalize_epoch :: "ddpoa_node \<Rightarrow> ddpoa_node" where
  "finalize_epoch n = (let n' = move_state IDLE n
     in n'\<lparr>dn_ready_result := ddel (ep_number (dn_epoch n') - 2) (dn_ready_result n')\<rparr>)"

definition downgrade :: "key \<Rightarrow> (ddpoa_node, unit) py" where
  "downgrade k = in_epoch (downgrade_witness k)"

definition node_next_slot :: "(string \<Rightarrow> string) \<Rightarrow> string \<Rightarrow> (ddpoa_node, unit) py" where
  "node_next_slot sha block_id = (\<lambda>n.
     case in_epoch (increment_witness sha block_id) n of
       (Raise e, m) \<Rightarrow> (if e = ZeroDivisionError then (Return (), m) else (Raise e, m))
     | (Hang, m) \<Rightarrow> (Hang, m)
     | (Return _, m) \<Rightarrow>
         (if is_over (dn_epoch m) then
            let f = finalize_epoch m; next = next_epoch_number (dn_epoch f)
            in if dget (dn_ready_result f) next \<noteq> None then initialize_epoch next f else (Return (), f)
          else (Return (), m)))"

section \<open>Scores\<close>

definition set_score :: "key \<Rightarrow> (rat \<Rightarrow> rat) \<Rightarrow> (ddpoa_node, unit) py" where
  "set_score k f =
     bindP (get_peer k) (\<lambda>p. modify (put_peer k (p\<lparr>pn_score := f (pn_score p)\<rparr>)))"

definition penalize :: "key \<Rightarrow> (ddpoa_node, unit) py" where
  "penalize k = bindP (gets cn_key) (\<lambda>me. if k = me then ret () else set_score k penalized_score)"

definition reward :: "key \<Rightarrow> (ddpoa_node, unit) py" where
  "reward k = bindP (gets cn_key) (\<lambda>me. if k = me then ret () else set_score k rewarded_score)"

section \<open>Messages\<close>

definition broadcast_empty_slot :: "(ddpoa_node, unit) py" where
  "broadcast_empty_slot = broadcast (ConsensusMessage EMPTY_SLOT)"

definition broadcast_bootstrap_request :: "(ddpoa_node, unit) py" where
  "broadcast_bootstrap_request = broadcast (ConsensusMessage BOOTSTRAP_REQUEST)"

definition node_recv :: "(ddpoa_node, consensus_message option) py" where
  "node_recv = in_comm comm_recv"

definition cancel_timer :: "ddpoa_node \<Rightarrow> ddpoa_node" where
  "cancel_timer n = n\<lparr>dn_broadcast_timer := map_option (bt_pending_update (\<lambda>_. False)) (dn_broadcast_timer n)\<rparr>"

definition handle_vote :: "stv \<Rightarrow> (string \<Rightarrow> string) \<Rightarrow> consensus_message \<Rightarrow> key \<Rightarrow> (ddpoa_node, unit) py" where
  "handle_vote stv sha msg k =
     bindP (gets (\<lambda>n. msg_epoch msg \<noteq> next_epoch_number (dn_epoch n))) (\<lambda>wrong_epoch.
     bindP (gets (\<lambda>n. has_voted k (msg_epoch msg) (dn_voting n))) (\<lambda>known.
       if wrong_epoch then ret ()
       else if known then ret ()
       else
         thenP (in_voting (modify (add_ballot (msg_epoch msg) k (msg_votes msg))))
        (thenP (modify cancel_timer)
        (bindP online_peers (\<lambda>online.
         bindP (gets (\<lambda>n. has_all_ballots (msg_epoch msg) online (dn_voting n))) (\<lambda>r.
         bindP (from_outcome r) (\<lambda>all_ballots.
           if all_ballots then broadcast_result stv sha (msg_epoch msg)
           else
             bindP online_peers (\<lambda>online.
             bindP (gets (\<lambda>n. has_enough_ballots (msg_epoch msg) online (dn_voting n))) (\<lambda>r.
             bindP (from_outcome r) (\<lambda>enough_ballots.
               whenP enough_ballots (modify (\<lambda>n. n\<lparr>dn_broadcast_timer :=
                 Some \<lparr>bt_epoch = msg_epoch msg, bt_pending = True\<rparr>\<rparr>))))))))))))"

text \<open>The timer's thread runs \<open>broadcast_result\<close> once.\<close>

definition timer_fires :: "stv \<Rightarrow> (string \<Rightarrow> string) \<Rightarrow> (ddpoa_node, unit) py" where
  "timer_fires stv sha =
     bindP (gets dn_broadcast_timer) (\<lambda>timer. case timer of
       None \<Rightarrow> ret ()
     | Some t \<Rightarrow>
         whenP (bt_pending t) (thenP (modify cancel_timer) (broadcast_result stv sha (bt_epoch t))))"

definition handle_vote_result :: "consensus_message \<Rightarrow> key \<Rightarrow> (ddpoa_node, bool) py" where
  "handle_vote_result msg k =
     bindP (gets (\<lambda>n. msg_epoch msg \<noteq> next_epoch_number (dn_epoch n))) (\<lambda>wrong_epoch.
       if wrong_epoch then ret False
       else
         thenP (in_voting (modify (set_peer_result (msg_epoch msg) k (msg_result msg))))
        (bindP (gets (\<lambda>n. get_consensus_result (msg_epoch msg) (dn_voting n))) (\<lambda>r.
         bindP (from_outcome r) (\<lambda>(result, count).
         bindP online_peers (\<lambda>online.
         bindP (gets (\<lambda>n. count \<ge> consensus_amount online (dn_voting n) \<and> ep_number (dn_epoch n) \<noteq> 0))
           (\<lambda>trigger_new_epoch.
         bindP online_peers (\<lambda>online.
         bindP (gets (\<lambda>n. count = online \<and> ep_number (dn_epoch n) = 0)) (\<lambda>trigger_first_epoch.
           if trigger_new_epoch \<or> trigger_first_epoch then
             thenP (modify (\<lambda>n. n\<lparr>dn_ready_result := dput (msg_epoch msg) True (dn_ready_result n)\<rparr>))
            (thenP (in_voting (modify (set_candidates (msg_epoch msg) result)))
            (bindP (gets (\<lambda>n. is_over (dn_epoch n))) (\<lambda>over.
               if over then thenP (initialize_epoch (msg_epoch msg)) (ret True) else ret False)))
           else ret False))))))))"

section \<open>What every method keeps\<close>

lemma base_frame_attributes:
  assumes "base_frame s (t :: ddpoa_node)"
  shows "dn_epoch t = dn_epoch s" "dn_state t = dn_state s" "dn_voting t = dn_voting s"
    "dn_broadcast_timer t = dn_broadcast_timer s" "dn_ready_result t = dn_ready_result s"
    "dn_num_slots t = dn_num_slots s" "dn_rand t = dn_rand s" "dn_rtick t = dn_rtick s"
    "dn_previous_vote_ts t = dn_previous_vote_ts s"
  using assms by (cases s; cases t; simp add: base_frame_def)+

definition scores_ok :: "ddpoa_node \<Rightarrow> bool" where
  "scores_ok n \<longleftrightarrow> (\<forall>k x. score_at k n = Some x \<longrightarrow> score_ok x)"

definition node_ok :: "ddpoa_node \<Rightarrow> bool" where
  "node_ok n \<longleftrightarrow> scores_ok n \<and> comm_ok (cn_comm n) \<and> voting_ok (dn_voting n) \<and> epoch_ok (dn_epoch n)"

text \<open>
  Every method keeps the identity of the node, the set of members and its own score, and the
  invariant \<open>node_ok\<close>, whatever the outcome of the call.
\<close>

definition node_frame :: "ddpoa_node \<Rightarrow> ddpoa_node \<Rightarrow> bool" where
  "node_frame s t \<longleftrightarrow> cn_key t = cn_key s \<and> cn_peer_keys t = cn_peer_keys s
     \<and> dkeys (cn_peers t) = dkeys (cn_peers s) \<and> score_at (cn_key s) t = score_at (cn_key s) s
     \<and> vs_key (dn_voting t) = vs_key (dn_voting s) \<and> vs_peer_keys (dn_voting t) = vs_peer_keys (dn_voting s)
     \<and> vs_num_slots (dn_voting t) = vs_num_slots (dn_voting s) \<and> (node_ok s \<longrightarrow> node_ok t)"

text \<open>The methods that only exchange messages or count do not touch the epoch.\<close>

definition epoch_frame :: "ddpoa_node \<Rightarrow> ddpoa_node \<Rightarrow> bool" where
  "epoch_frame s t \<longleftrightarrow> dn_epoch t = dn_epoch s \<and> dn_state t = dn_state s
     \<and> dn_ready_result t = dn_ready_result s \<and> dn_num_slots t = dn_num_slots s"

interpretation node_frame: state_preorder node_frame
  by unfold_locales (auto simp: node_frame_def)

interpretation epoch_frame: state_preorder epoch_frame
  by unfold_locales (auto simp: epoch_frame_def)

lemma node_frame_base:
  assumes "keeps base_frame m" shows "keeps node_frame m"
proof (rule keepsI)
  fix s :: ddpoa_node
  have b: "base_frame s (snd (m s))" using assms by (rule keepsD)
  then have "scores_ok s \<longrightarrow> scores_ok (snd (m s))" by (simp add: base_frame_def scores_ok_def)
  with b base_frame_attributes [OF b] show "node_frame s (snd (m s))"
    by (auto simp: node_frame_def node_ok_def base_frame_def)
qed

lemma epoch_frame_base: "keeps base_frame m \<Longrightarrow> keeps epoch_frame m"
  using base_frame_attributes by (auto simp: keeps_def epoch_frame_def)

lemma frame_voting:
  assumes "keeps voting_frame m"
  shows "keeps node_frame (in_voting m)" and "keeps epoch_frame (in_voting m)"
proof -
  show "keeps node_frame (in_voting m)"
  proof (rule keepsI)
    fix s :: ddpoa_node
    have "voting_frame (dn_voting s) (snd (m (dn_voting s)))" using assms by (rule keepsD)
    then show "node_frame s (snd (in_voting m s))"
      by (auto simp: node_frame_def in_voting_def run_simps voting_frame_def node_ok_def
          scores_ok_def score_at_def split: prod.split)
  qed
  show "keeps epoch_frame (in_voting m)"
    by (auto simp: keeps_def in_voting_def run_simps epoch_frame_def split: prod.split)
qed

lemma node_frame_epoch:
  assumes "\<And>e. epoch_ok e \<Longrightarrow> epoch_ok (snd (m e))"
  shows "keeps node_frame (in_epoch m)"
  using assms
  by (auto simp: keeps_def node_frame_def in_epoch_def run_simps node_ok_def scores_ok_def score_at_def
      split: prod.split) (metis snd_conv)

text \<open>Updates of the attributes that no invariant speaks of.\<close>

lemma node_frame_attrs [simp]:
  "node_frame n (set_state st n)" "node_frame n (move_state st n)" "node_frame n (cancel_timer n)"
  "node_frame n (finalize_epoch n)"
  "node_frame n (n\<lparr>dn_pre_online := i\<rparr>)" "node_frame n (n\<lparr>dn_rtick := j\<rparr>)"
  "node_frame n (n\<lparr>dn_previous_vote_ts := x\<rparr>)" "node_frame n (n\<lparr>dn_broadcast_timer := y\<rparr>)"
  "node_frame n (n\<lparr>dn_ready_result := d\<rparr>)"
  by (auto simp: node_frame_def node_ok_def scores_ok_def score_at_def set_state_def move_state_def
      cancel_timer_def finalize_epoch_def Let_def)

lemma epoch_frame_attrs [simp]:
  "epoch_frame n (cancel_timer n)"
  "epoch_frame n (n\<lparr>dn_pre_online := i\<rparr>)" "epoch_frame n (n\<lparr>dn_rtick := j\<rparr>)"
  "epoch_frame n (n\<lparr>dn_previous_vote_ts := x\<rparr>)" "epoch_frame n (n\<lparr>dn_broadcast_timer := y\<rparr>)"
  by (simp_all add: epoch_frame_def cancel_timer_def)

lemma frame_online_peers: "keeps node_frame online_peers" "keeps epoch_frame online_peers"
  by (simp_all add: keeps_def online_peers_def run_simps node_frame.R_refl epoch_frame.R_refl)

lemma run_online_peers: "online_peers n =
    (Return (comm_online_peers (cn_comm n) + 1), n\<lparr>dn_pre_online := comm_online_peers (cn_comm n) + 1\<rparr>)"
  by (simp add: online_peers_def run_simps)

lemma frame_draw_ballot: "keeps node_frame draw_ballot" "keeps epoch_frame draw_ballot"
  by (simp_all add: keeps_def draw_ballot_def node_frame.R_refl epoch_frame.R_refl split: outcome.split)

lemma frame_send_ballot: "keeps node_frame (send_ballot b e)" "keeps epoch_frame (send_ballot b e)"
  unfolding send_ballot_def
  by (intro node_frame.all node_frame.modify epoch_frame.all epoch_frame.modify
      base_frames [THEN node_frame_base] base_frames [THEN epoch_frame_base]; simp)+

lemma keeps_voting_modify: "(\<And>v. voting_frame v (f v)) \<Longrightarrow> keeps voting_frame (modify f)"
  by (rule voting_frame.modify)

lemma frame_broadcast_result: "keeps node_frame (broadcast_result stv sha e)" "keeps epoch_frame (broadcast_result stv sha e)"
  unfolding broadcast_result_def
  by (intro node_frame.all epoch_frame.all frame_voting voting_frame_ops
      base_frames [THEN node_frame_base] base_frames [THEN epoch_frame_base])+

lemma frame_set_score:
  assumes "\<And>s. score_ok s \<Longrightarrow> score_ok (f s)"
  shows "k \<noteq> cn_key s \<Longrightarrow> node_frame s (snd (set_score k f s))" and "keeps epoch_frame (set_score k f)"
proof -
  show "keeps epoch_frame (set_score k f)"
    by (auto simp: keeps_def set_score_def get_peer_def run_simps put_peer_def epoch_frame_def split: option.split)
  assume k: "k \<noteq> cn_key s"
  show "node_frame s (snd (set_score k f s))"
  proof (cases "dget (cn_peers s) k")
    case None
    then show ?thesis by (simp add: set_score_def get_peer_def run_simps node_frame.R_refl)
  next
    case (Some p)
    let ?t = "put_peer k (p\<lparr>pn_score := f (pn_score p)\<rparr>) s"
    have "scores_ok s \<Longrightarrow> scores_ok ?t"
      using assms Some by (auto simp: scores_ok_def score_at_put_peer) (auto simp: score_at_def)
    moreover have "dkeys (cn_peers ?t) = dkeys (cn_peers s)" using Some by (simp add: keys_put_peer)
    moreover have "score_at (cn_key s) ?t = score_at (cn_key s) s" using k by (simp add: score_at_put_peer)
    ultimately have "node_frame s ?t" by (auto simp: node_frame_def node_ok_def put_peer_def)
    then show ?thesis using Some by (simp add: set_score_def get_peer_def run_simps)
  qed
qed

lemma frame_scores: "keeps node_frame (penalize k)" "keeps node_frame (reward k)"
  "keeps epoch_frame (penalize k)" "keeps epoch_frame (reward k)"
proof -
  show "keeps node_frame (penalize k)" "keeps node_frame (reward k)"
    by (auto simp: keeps_def penalize_def reward_def run_simps node_frame.R_refl
        intro!: frame_set_score score_ok_penalized score_ok_rewarded)
  show "keeps epoch_frame (penalize k)" "keeps epoch_frame (reward k)"
    unfolding penalize_def reward_def
    by (intro epoch_frame.all epoch_frame.cond frame_set_score score_ok_penalized score_ok_rewarded; assumption?)+
qed

lemma node_frame_set_epoch: "epoch_ok e \<Longrightarrow> node_frame n (n\<lparr>dn_epoch := e\<rparr>)"
  by (auto simp: node_frame_def node_ok_def scores_ok_def score_at_def)

lemma epoch_ok_bootstrap:
  "epoch_ok ((set_candidates_and_witnesses cs (Epoch_init e slots))\<lparr>ep_witness_idx := i\<rparr>)"
  using epoch_ok_set [of "Epoch_init e slots" cs]
  by (simp add: epoch_ok_def full_candidate_list_def Epoch_init_def)

lemma node_frame_bootstrap: "node_frame n (node_bootstrap e i cs slots n)"
  using epoch_ok_bootstrap [where cs = cs and e = e and slots = slots and i = i]
  by (auto simp: node_frame_def node_ok_def scores_ok_def score_at_def node_bootstrap_def)

text \<open>\<open>initialize_epoch\<close> as one step: either the candidates are missing, or the epoch is replaced.\<close>

definition fresh_epoch :: "int \<Rightarrow> ddpoa_node \<Rightarrow> ddpoa_node" where
  "fresh_epoch number n = move_state PRODUCTION (n\<lparr>dn_epoch := Epoch_init number (dn_num_slots n)\<rparr>)"

definition seated_epoch :: "int \<Rightarrow> key list \<Rightarrow> ddpoa_node \<Rightarrow> ddpoa_node" where
  "seated_epoch number cs n = (fresh_epoch number n)
     \<lparr>dn_epoch := set_candidates_and_witnesses cs (Epoch_init number (dn_num_slots n))\<rparr>"

lemma fresh_epoch_attrs [simp]:
  "dn_epoch (fresh_epoch number n) = Epoch_init number (dn_num_slots n)"
  "dn_voting (fresh_epoch number n) = dn_voting n"
  "dn_num_slots (fresh_epoch number n) = dn_num_slots n"
  "dn_state (fresh_epoch number n) = (if dn_state n = CATCHING_UP then CATCHING_UP else PRODUCTION)"
  "dn_ready_result (fresh_epoch number n) = dn_ready_result n"
  by (simp_all add: fresh_epoch_def move_state_def set_state_def)

lemma seated_epoch_attrs [simp]:
  "dn_epoch (seated_epoch number cs n) = set_candidates_and_witnesses cs (Epoch_init number (dn_num_slots n))"
  "dn_voting (seated_epoch number cs n) = dn_voting n"
  "dn_num_slots (seated_epoch number cs n) = dn_num_slots n"
  "dn_state (seated_epoch number cs n) = (if dn_state n = CATCHING_UP then CATCHING_UP else PRODUCTION)"
  "dn_ready_result (seated_epoch number cs n) = dn_ready_result n"
  by (simp_all add: seated_epoch_def)

lemma run_initialize_epoch: "initialize_epoch number n =
    (case get_candidates number (dn_voting n) of
       None \<Rightarrow> (Raise TypeError, fresh_epoch number n)
     | Some cs \<Rightarrow> in_voting remove_old_epoch_data (seated_epoch number cs n))"
  by (simp add: initialize_epoch_def run_simps in_epoch_def Let_def seated_epoch_def fresh_epoch_def
      move_state_def set_state_def Epoch_init_def split: option.split)

lemma node_frame_fresh: "node_frame n (fresh_epoch number n)"
proof -
  have "node_frame n (n\<lparr>dn_epoch := Epoch_init number (dn_num_slots n)\<rparr>)"
    by (rule node_frame_set_epoch) (rule epoch_ok_init)
  then show ?thesis unfolding fresh_epoch_def by (rule node_frame.R_trans) (rule node_frame_attrs)
qed

lemma node_frame_seated: "node_frame n (seated_epoch number cs n)"
  unfolding seated_epoch_def
  by (rule node_frame.R_trans [OF node_frame_fresh node_frame_set_epoch], rule epoch_ok_set)
    (simp add: Epoch_init_def)

lemma frame_initialize_epoch: "keeps node_frame (initialize_epoch number)"
proof (rule keepsI)
  fix n
  show "node_frame n (snd (initialize_epoch number n))"
  proof (cases "get_candidates number (dn_voting n)")
    case (Some cs)
    have "node_frame (seated_epoch number cs n) (snd (in_voting remove_old_epoch_data (seated_epoch number cs n)))"
      by (rule keepsD [OF frame_voting(1) [OF voting_frame_remove_old]])
    with node_frame_seated Some show ?thesis
      by (simp add: run_initialize_epoch) (rule node_frame.R_trans)
  qed (simp add: run_initialize_epoch node_frame_fresh)
qed

lemma frame_downgrade: "keeps node_frame (downgrade k)"
  unfolding downgrade_def by (rule node_frame_epoch) (rule epoch_ok_steps)

text \<open>\<open>next_slot\<close> as a case analysis: no witnesses, an epoch that goes on, and an epoch that ends.\<close>

definition slotted :: "(string \<Rightarrow> string) \<Rightarrow> string \<Rightarrow> ddpoa_node \<Rightarrow> ddpoa_node" where
  "slotted sha b n = n\<lparr>dn_epoch := snd (increment_witness sha b (dn_epoch n))\<rparr>"

lemma run_node_next_slot: "node_next_slot sha b n =
    (if ep_witnesses (dn_epoch n) = [] \<or> \<not> is_over (dn_epoch (slotted sha b n)) then (Return (), slotted sha b n)
     else let f = finalize_epoch (slotted sha b n); next = next_epoch_number (dn_epoch n)
          in if dget (dn_ready_result f) next \<noteq> None then initialize_epoch next f else (Return (), f))"
proof -
  have epoch: "dn_epoch (finalize_epoch m) = dn_epoch m" for m
    by (simp add: finalize_epoch_def move_state_def set_state_def Let_def)
  obtain r e where re: "increment_witness sha b (dn_epoch n) = (r, e)" by force
  have r: "r = (if ep_witnesses (dn_epoch n) = [] then Raise ZeroDivisionError else Return ())"
    using increment_result [of sha b "dn_epoch n"] by (simp add: re)
  have num: "ep_number e = ep_number (dn_epoch n)"
    using increment_frame(3) [of sha b "dn_epoch n"] by (simp add: re)
  show ?thesis
    by (auto simp: node_next_slot_def in_epoch_def run_simps re r slotted_def Let_def epoch
        next_epoch_number_def num)
qed

lemma node_frame_slotted: "node_frame n (slotted sha b n)"
proof -
  have "node_ok n \<Longrightarrow> epoch_ok (snd (increment_witness sha b (dn_epoch n)))"
    by (rule epoch_ok_steps) (simp add: node_ok_def)
  then show ?thesis by (auto simp: slotted_def node_frame_def node_ok_def scores_ok_def score_at_def)
qed

lemma frame_node_next_slot: "keeps node_frame (node_next_slot sha b)"
proof (rule keepsI)
  fix n
  have f: "node_frame n (finalize_epoch (slotted sha b n))"
    by (rule node_frame.R_trans [OF node_frame_slotted [of n sha b]]) simp
  show "node_frame n (snd (node_next_slot sha b n))"
    using node_frame_slotted f node_frame.R_trans [OF f keepsD [OF frame_initialize_epoch]]
    by (simp add: run_node_next_slot Let_def)
qed

lemma frame_vote: "keeps node_frame vote"
  unfolding vote_def
  by (intro node_frame.all node_frame.modify frame_draw_ballot frame_send_ballot frame_voting
      voting_frame.modify voting_frame_ops) simp

lemma frame_handle_vote: "keeps node_frame (handle_vote stv sha msg k)" "keeps epoch_frame (handle_vote stv sha msg k)"
  unfolding handle_vote_def
  by (intro node_frame.all node_frame.cond node_frame.modify epoch_frame.all epoch_frame.cond epoch_frame.modify
      frame_online_peers frame_broadcast_result frame_voting voting_frame.modify voting_frame_ops; simp)+

lemma frame_timer_fires: "keeps node_frame (timer_fires stv sha)" "keeps epoch_frame (timer_fires stv sha)"
  unfolding timer_fires_def
  by (intro node_frame.all node_frame.modify epoch_frame.all epoch_frame.modify frame_broadcast_result; simp)+

lemma frame_handle_vote_result: "keeps node_frame (handle_vote_result msg k)"
  unfolding handle_vote_result_def case_prod_beta
  by (intro node_frame.all node_frame.cond node_frame.modify frame_online_peers frame_voting
      voting_frame.modify voting_frame_ops frame_initialize_epoch) simp

lemma frame_queries: "keeps node_frame should_vote" "keeps node_frame should_rebroadcast_ballot"
  "keeps epoch_frame should_vote" "keeps epoch_frame should_rebroadcast_ballot"
  unfolding should_vote_def should_rebroadcast_ballot_def
  by (intro node_frame.all node_frame.cond epoch_frame.all epoch_frame.cond frame_online_peers
      base_frames [THEN node_frame_base] base_frames [THEN epoch_frame_base])+

lemma frame_rebroadcast: "keeps node_frame rebroadcast_ballot" "keeps epoch_frame rebroadcast_ballot"
  unfolding rebroadcast_ballot_def
  by (intro node_frame.all epoch_frame.all frame_send_ballot)+

lemma base_frame_recv: "keeps base_frame node_recv"
  unfolding node_recv_def by (rule frame_in_comm) (rule comm_ok_steps)

lemma frame_messages: "keeps base_frame broadcast_empty_slot" "keeps base_frame broadcast_bootstrap_request"
  unfolding broadcast_empty_slot_def broadcast_bootstrap_request_def by (rule frame_broadcast)+

lemmas node_base_frames = base_frames base_frame_recv frame_messages

lemmas node_frames = node_base_frames [THEN node_frame_base] frame_scores(1,2) frame_downgrade
  frame_node_next_slot frame_vote frame_handle_vote(1) frame_timer_fires(1) frame_handle_vote_result
  frame_queries(1,2) frame_rebroadcast(1) frame_online_peers(1)

end
