(* ===== verification/Node_Protocol.thy ===== *)
theory Node_Protocol
  imports DDPoA_Node
begin

text \<open>
  The consensus node as a state machine: the calls that the engine, the network and the timers
  make on it, in any order, and what holds of every node that such a run reaches. The
  properties of \<open>engine/ddpoa_node.py\<close> are here.
\<close>

section \<open>Runs of a node\<close>

datatype node_call =
    Vote | Rebroadcast | Ask_Vote | Ask_Rebroadcast | Count_Online | Check_Peers
  | Seen key | Connected key string | Connect_Timer key | Ping key
  | Arrive consensus_message | Receive
  | Ballot consensus_message key | Result consensus_message key | Timer
  | Slot string | Penalize key | Reward key | Downgrade key
  | Bootstrap int int "key list" int
  | Send_Empty_Slot | Send_Request | Send_Bootstrap key bytes int bytes | Send_Request_To key

definition node_step :: "stv \<Rightarrow> (string \<Rightarrow> string) \<Rightarrow> node_call \<Rightarrow> ddpoa_node \<Rightarrow> ddpoa_node" where
  "node_step stv sha c n = (case c of
     Vote \<Rightarrow> snd (vote n)
   | Rebroadcast \<Rightarrow> snd (rebroadcast_ballot n)
   | Ask_Vote \<Rightarrow> snd (should_vote n)
   | Ask_Rebroadcast \<Rightarrow> snd (should_rebroadcast_ballot n)
   | Count_Online \<Rightarrow> snd (online_peers n)
   | Check_Peers \<Rightarrow> snd (check_on_peers n)
   | Seen k \<Rightarrow> snd (cn_seen k n)
   | Connected k ip \<Rightarrow> snd (cn_peer_connected k ip n)
   | Connect_Timer k \<Rightarrow> snd (in_comm (modify (timer_connect k)) n)
   | Ping k \<Rightarrow> snd (send_ping k n)
   | Arrive m \<Rightarrow> snd (in_comm (modify (rpc_Message m)) n)
   | Receive \<Rightarrow> snd (node_recv n)
   | Ballot m k \<Rightarrow> snd (handle_vote stv sha m k n)
   | Result m k \<Rightarrow> snd (handle_vote_result m k n)
   | Timer \<Rightarrow> snd (timer_fires stv sha n)
   | Slot b \<Rightarrow> snd (node_next_slot sha b n)
   | Penalize k \<Rightarrow> snd (penalize k n)
   | Reward k \<Rightarrow> snd (reward k n)
   | Downgrade k \<Rightarrow> snd (downgrade k n)
   | Bootstrap e i cs slots \<Rightarrow> node_bootstrap e i cs slots n
   | Send_Empty_Slot \<Rightarrow> snd (broadcast_empty_slot n)
   | Send_Request \<Rightarrow> snd (broadcast_bootstrap_request n)
   | Send_Bootstrap k a b c \<Rightarrow> snd (send_bootstrap_message k a b c n)
   | Send_Request_To k \<Rightarrow> snd (send_bootstrap_request k n))"

definition node_run :: "stv \<Rightarrow> (string \<Rightarrow> string) \<Rightarrow> node_call list \<Rightarrow> ddpoa_node \<Rightarrow> ddpoa_node" where
  "node_run stv sha cs n = fold (node_step stv sha) cs n"

text \<open>The object before \<open>__init__\<close>: only what is given from outside counts.\<close>

definition blank_node :: "key \<Rightarrow> (nat \<Rightarrow> string \<Rightarrow> bool) \<Rightarrow> (nat \<Rightarrow> rat) \<Rightarrow> (nat \<Rightarrow> rat) \<Rightarrow> ddpoa_node" where
  "blank_node k net clock rnd =
     \<lparr>cn_key = k, cn_peers = [], cn_peer_keys = [], cn_last_peer_check = 0, cn_comm = Communicator_init net,
      cn_clock = clock, cn_tick = 0, dn_epoch = Epoch_init 0 0, dn_state = IDLE, dn_voting = VotingSystem k [] 0,
      dn_previous_vote_ts = 0, dn_previous_result_ts = 0, dn_broadcast_timer = None, dn_ready_result = [],
      dn_num_slots = 0, dn_pre_online = 0, dn_rand = rnd, dn_rtick = 0\<rparr>"

definition new_node :: "key \<Rightarrow> key list \<Rightarrow> int \<Rightarrow> (nat \<Rightarrow> string \<Rightarrow> bool) \<Rightarrow> (nat \<Rightarrow> rat) \<Rightarrow> (nat \<Rightarrow> rat) \<Rightarrow> ddpoa_node" where
  "new_node k peers slots net clock rnd = snd (DDPoANode_init peers slots (blank_node k net clock rnd))"

section \<open>Invariants of a run\<close>

lemma node_step_frame: "node_frame n (node_step stv sha c n)"
proof -
  have comm: "keeps base_frame (in_comm (modify (timer_connect k)))"
    "keeps base_frame (in_comm (modify (rpc_Message m)))" for k m
    by (rule frame_in_comm; simp add: run_simps comm_ok_steps)+
  note keeps = node_frames [THEN keepsD] comm [THEN node_frame_base, THEN keepsD]
  show ?thesis
    unfolding node_step_def by (cases c; simp only: node_call.case; rule keeps node_frame_bootstrap)
qed

lemma node_run_frame: "node_frame n (node_run stv sha cs n)"
  unfolding node_run_def
  by (induction cs arbitrary: n) (auto intro: node_frame.R_refl node_frame.R_trans [OF node_step_frame])

text \<open>The peers that \<open>__init__\<close> makes.\<close>

definition fresh_peers :: "(key, peer_node) dict \<Rightarrow> bool" where
  "fresh_peers d \<longleftrightarrow> (\<forall>k p. dget d k = Some p \<longrightarrow> pn_score p = 1)"

lemma add_peers:
  assumes "fresh_peers (cn_peers n)"
  shows "\<exists>d i. for_each ks cn_add_peer n = (Return (), n\<lparr>cn_peers := d, cn_tick := i\<rparr>)
    \<and> fresh_peers d \<and> set (dkeys d) = set (dkeys (cn_peers n)) \<union> set ks"
  using assms
proof (induction ks arbitrary: n)
  case Nil
  then show ?case by (intro exI [of _ "cn_peers n"] exI [of _ "cn_tick n"]) (simp add: run_simps)
next
  case (Cons k ks)
  obtain d i where step: "cn_add_peer k n = (Return (), n\<lparr>cn_peers := d, cn_tick := i\<rparr>)"
      and d: "fresh_peers d" "set (dkeys d) = insert k (set (dkeys (cn_peers n)))"
  proof (cases "dget (cn_peers n) k")
    case None
    show thesis
      by (rule that [where d = "dput k (PeerNode k (cn_clock n (cn_tick n))) (cn_peers n)" and i = "Suc (cn_tick n)"])
        (use Cons.prems None in \<open>auto simp: cn_add_peer_def run_simps time_now_def put_peer_def fresh_peers_def
          dict_simps PeerNode_def\<close>)
  next
    case (Some p)
    then have "k \<in> set (dkeys (cn_peers n))" by (simp add: dict.keys_look)
    then show thesis
      by (intro that [where d = "cn_peers n" and i = "cn_tick n"])
        (use Cons.prems Some in \<open>auto simp: cn_add_peer_def run_simps\<close>)
  qed
  obtain d' i' where "for_each ks cn_add_peer (n\<lparr>cn_peers := d, cn_tick := i\<rparr>)
        = (Return (), n\<lparr>cn_peers := d, cn_tick := i\<rparr>\<lparr>cn_peers := d', cn_tick := i'\<rparr>)"
      "fresh_peers d'" "set (dkeys d') = set (dkeys d) \<union> set ks"
    using Cons.IH [of "n\<lparr>cn_peers := d, cn_tick := i\<rparr>"] d(1) by auto
  then show ?case
    using step d(2) by (intro exI [of _ d'] exI [of _ i']) (simp add: run_simps)
qed

lemma new_node_facts:
  assumes "k \<in> set peers" and new: "n = new_node k peers slots net clock rnd"
  shows "node_ok n"
    and "cn_key n = k" and "set (dkeys (cn_peers n)) = set peers" and "score_at k n = Some 1"
    and "vs_peer_keys (dn_voting n) = peers" and "vs_num_slots (dn_voting n) = slots"
    and "dn_epoch n = Epoch_init 0 slots" and "dn_state n = IDLE"
    and "fst (DDPoANode_init peers slots (blank_node k net clock rnd)) = Return ()"
    and "dn_voting n = VotingSystem k peers slots" and "cn_comm n = Communicator_init net" and "dn_broadcast_timer n = None"
proof -
  define b where "b = (blank_node k net clock rnd)\<lparr>cn_peers := [], cn_peer_keys := peers\<rparr>"
  obtain d i where run: "for_each peers cn_add_peer b = (Return (), b\<lparr>cn_peers := d, cn_tick := i\<rparr>)"
      and d: "fresh_peers d" "set (dkeys d) = set peers"
    using add_peers [of b peers] by (auto simp: b_def fresh_peers_def dkeys_def)
  obtain p where p: "dget d k = Some p" using d(2) assms dict.keys_look [of k d] by auto
  have "DDPoANode_init peers slots (blank_node k net clock rnd) = (Return (),
      b\<lparr>cn_peers := dput k (pn_set_online True p) d, cn_tick := i, cn_last_peer_check := 0,
        dn_epoch := Epoch_init 0 slots, dn_state := IDLE, dn_voting := VotingSystem k peers slots,
        dn_previous_vote_ts := 0, dn_previous_result_ts := 0, dn_broadcast_timer := None, dn_ready_result := [],
        dn_num_slots := slots, dn_pre_online := 0\<rparr>)"
    using run p by (simp add: DDPoANode_init_def cn_init_def run_simps get_peer_def put_peer_def b_def [symmetric])
      (simp add: b_def blank_node_def run_simps put_peer_def)
  then have n: "n = b\<lparr>cn_peers := dput k (pn_set_online True p) d, cn_tick := i, cn_last_peer_check := 0,
        dn_epoch := Epoch_init 0 slots, dn_state := IDLE, dn_voting := VotingSystem k peers slots,
        dn_previous_vote_ts := 0, dn_previous_result_ts := 0, dn_broadcast_timer := None, dn_ready_result := [],
        dn_num_slots := slots, dn_pre_online := 0\<rparr>"
    and ret: "fst (DDPoANode_init peers slots (blank_node k net clock rnd)) = Return ()"
    by (simp_all add: new new_node_def)
  have one: "pn_score p = 1" "\<And>j q. dget d j = Some q \<Longrightarrow> pn_score q = 1"
    using d(1) p by (auto simp: fresh_peers_def)
  show "node_ok n"
    using one by (auto simp: n node_ok_def scores_ok_def score_at_def dict_simps pn_set_online_def voting_ok_init epoch_ok_init)
      (simp add: b_def blank_node_def Communicator_init_def comm_ok_def)
  show "cn_key n = k" by (simp add: n b_def blank_node_def)
  show "set (dkeys (cn_peers n)) = set peers"
    using d(2) p assms(1) by (auto simp: n dict_simps)
  show "score_at k n = Some 1" using one p by (simp add: n score_at_def dict_simps pn_set_online_def)
  show "vs_peer_keys (dn_voting n) = peers" "vs_num_slots (dn_voting n) = slots"
    "dn_epoch n = Epoch_init 0 slots" "dn_state n = IDLE"
    by (simp_all add: n VotingSystem_def)
  show "fst (DDPoANode_init peers slots (blank_node k net clock rnd)) = Return ()" by (rule ret)
  show "dn_voting n = VotingSystem k peers slots" "cn_comm n = Communicator_init net" "dn_broadcast_timer n = None"
    by (simp_all add: n b_def blank_node_def)
qed

text \<open>A node that some run reaches from its construction.\<close>

definition reachable_node :: "stv \<Rightarrow> (string \<Rightarrow> string) \<Rightarrow> key list \<Rightarrow> ddpoa_node \<Rightarrow> bool" where
  "reachable_node stv sha peers n \<longleftrightarrow> (\<exists>k slots net clock rnd cs. k \<in> set peers
     \<and> n = node_run stv sha cs (new_node k peers slots net clock rnd))"

lemma reachable_facts:
  assumes "reachable_node stv sha peers n"
  shows "node_ok n" "set (dkeys (cn_peers n)) = set peers" "vs_peer_keys (dn_voting n) = peers"
    "score_at (cn_key n) n = Some 1" "cn_key n \<in> set peers"
proof -
  obtain k slots net clock rnd cs where k: "k \<in> set peers"
      and n: "n = node_run stv sha cs (new_node k peers slots net clock rnd)"
    using assms by (auto simp: reachable_node_def)
  note frame = node_run_frame [of "new_node k peers slots net clock rnd" stv sha cs, folded n]
  note new = new_node_facts [OF k refl, of slots net clock rnd]
  show "node_ok n" "set (dkeys (cn_peers n)) = set peers" "vs_peer_keys (dn_voting n) = peers"
    "score_at (cn_key n) n = Some 1" "cn_key n \<in> set peers"
    using frame new k by (auto simp: node_frame_def)
qed

section \<open>The handlers of votes and results, branch by branch\<close>

lemma run_handle_vote: "handle_vote stv sha msg k n =
    (if msg_epoch msg \<noteq> next_epoch_number (dn_epoch n) \<or> has_voted k (msg_epoch msg) (dn_voting n) then (Return (), n)
     else let v = add_ballot (msg_epoch msg) k (msg_votes msg) (dn_voting n);
              online = comm_online_peers (cn_comm n) + 1;
              stored = int (length (entries (vs_ballots v) (msg_epoch msg)));
              n' = (cancel_timer (n\<lparr>dn_voting := v\<rparr>))\<lparr>dn_pre_online := online\<rparr>
          in if online \<ge> consensus_amount online v \<and> stored \<ge> online then broadcast_result stv sha (msg_epoch msg) n'
             else if stored \<ge> consensus_amount online v
               then (Return (), n'\<lparr>dn_broadcast_timer := Some \<lparr>bt_epoch = msg_epoch msg, bt_pending = True\<rparr>\<rparr>)
             else (Return (), n'))"
proof -
  have some: "dget (vs_ballots (add_ballot e k b v)) e = Some (entries (vs_ballots (add_ballot e k b v)) e)" for e b v
    by (simp add: ballots_add_ballot entries_def dict_simps)
  show ?thesis
    by (simp add: handle_vote_def run_simps in_voting_def run_online_peers has_all_ballots_def
        has_enough_ballots_def some cancel_timer_def Let_def)
qed

definition noted_result :: "consensus_message \<Rightarrow> key \<Rightarrow> ddpoa_node \<Rightarrow> voting" where
  "noted_result msg k n = set_peer_result (msg_epoch msg) k (msg_result msg) (dn_voting n)"

text \<open>The two quorums: all online peers for the first epoch, the consensus amount afterwards.\<close>

definition result_quorum :: "int \<Rightarrow> voting \<Rightarrow> ddpoa_node \<Rightarrow> bool" where
  "result_quorum c v n \<longleftrightarrow>
     (if ep_number (dn_epoch n) = 0 then c = comm_online_peers (cn_comm n) + 1
      else c \<ge> consensus_amount (comm_online_peers (cn_comm n) + 1) v)"

definition ready_node :: "consensus_message \<Rightarrow> key \<Rightarrow> result \<Rightarrow> ddpoa_node \<Rightarrow> ddpoa_node" where
  "ready_node msg k r n = n
     \<lparr>dn_pre_online := comm_online_peers (cn_comm n) + 1,
      dn_ready_result := dput (msg_epoch msg) True (dn_ready_result n),
      dn_voting := set_candidates (msg_epoch msg) r (noted_result msg k n)\<rparr>"

lemma noted_result_total:
  obtains r c where "get_consensus_result (msg_epoch msg) (noted_result msg k n) = Return (r, c)"
proof -
  have "dget (vs_results (noted_result msg k n)) (msg_epoch msg)
      = Some (dput k (msg_result msg) (entries (vs_results (dn_voting n)) (msg_epoch msg)))"
    by (simp add: noted_result_def results_set_peer_result dict_simps)
  moreover have "dput k (msg_result msg) d \<noteq> []" for d
    using dict.look_ins_same [of k "msg_result msg" d] by auto
  ultimately show thesis using get_consensus_result_total that by metis
qed

lemma run_handle_vote_result:
  assumes "get_consensus_result (msg_epoch msg) (noted_result msg k n) = Return (r, c)"
  shows "handle_vote_result msg k n =
    (if msg_epoch msg \<noteq> next_epoch_number (dn_epoch n) then (Return False, n)
     else if \<not> result_quorum c (noted_result msg k n) n
       then (Return False, n\<lparr>dn_voting := noted_result msg k n, dn_pre_online := comm_online_peers (cn_comm n) + 1\<rparr>)
     else if \<not> is_over (dn_epoch n) then (Return False, ready_node msg k r n)
     else (case initialize_epoch (msg_epoch msg) (ready_node msg k r n) of
        (Return _, t) \<Rightarrow> (Return True, t) | (Raise e, t) \<Rightarrow> (Raise e, t) | (Hang, t) \<Rightarrow> (Hang, t)))"
proof (cases "msg_epoch msg = next_epoch_number (dn_epoch n)")
  case True
  note run = handle_vote_result_def run_simps in_voting_def run_online_peers ready_node_def result_quorum_def
  have "get_consensus_result (next_epoch_number (dn_epoch n))
      (set_peer_result (next_epoch_number (dn_epoch n)) k (msg_result msg) (dn_voting n)) = Return (r, c)"
    using assms by (simp add: noted_result_def True)
  then show ?thesis
    by (cases "ep_number (dn_epoch n) = 0") (simp_all add: run True noted_result_def,
      simp_all add: run_simps split: prod.split outcome.split)
qed (simp add: handle_vote_result_def run_simps)

lemma ready_node_attrs [simp]:
  "get_candidates (msg_epoch msg) (dn_voting (ready_node msg k r n)) = Some r"
  "dn_num_slots (ready_node msg k r n) = dn_num_slots n" "dn_state (ready_node msg k r n) = dn_state n"
  "dn_epoch (ready_node msg k r n) = dn_epoch n" "cn_comm (ready_node msg k r n) = cn_comm n"
  by (simp_all add: ready_node_def get_candidates_def set_candidates_def dict_simps)

text \<open>Discarding old data after an epoch is seated does not change the epoch.\<close>

lemma seated_epoch_frame: "epoch_frame (seated_epoch number cs n) (snd (in_voting remove_old_epoch_data (seated_epoch number cs n)))"
  by (rule keepsD) (rule frame_voting [OF voting_frame_remove_old])

lemma initialize_epoch_effect:
  assumes "get_candidates number (dn_voting n) = Some cs"
  shows "dn_epoch (snd (initialize_epoch number n)) = set_candidates_and_witnesses cs (Epoch_init number (dn_num_slots n))"
    and "dn_state (snd (initialize_epoch number n)) = (if dn_state n = CATCHING_UP then CATCHING_UP else PRODUCTION)"
    and "dn_num_slots (snd (initialize_epoch number n)) = dn_num_slots n"
  using seated_epoch_frame [of number cs n] assms by (simp_all add: run_initialize_epoch epoch_frame_def)

lemma handle_vote_result_True:
  assumes "handle_vote_result msg k n = (Return True, t)"
  obtains r c where "get_consensus_result (msg_epoch msg) (noted_result msg k n) = Return (r, c)"
    and "msg_epoch msg = ep_number (dn_epoch n) + 1" and "result_quorum c (noted_result msg k n) n" and "is_over (dn_epoch n)"
    and "dn_epoch t = set_candidates_and_witnesses r (Epoch_init (msg_epoch msg) (dn_num_slots n))"
    and "dn_state t = (if dn_state n = CATCHING_UP then CATCHING_UP else PRODUCTION)"
proof -
  obtain r c where rc: "get_consensus_result (msg_epoch msg) (noted_result msg k n) = Return (r, c)"
    by (rule noted_result_total)
  have "t = snd (initialize_epoch (msg_epoch msg) (ready_node msg k r n))"
    "msg_epoch msg = ep_number (dn_epoch n) + 1" "result_quorum c (noted_result msg k n) n" "is_over (dn_epoch n)"
    using assms
    by (auto simp: run_handle_vote_result [OF rc] next_epoch_number_def split: if_splits prod.splits outcome.splits)
  then show thesis
    using rc initialize_epoch_effect [OF ready_node_attrs(1), of msg k r n] ready_node_attrs(2,3)
    by (intro that) simp_all
qed

section \<open>Properties\<close>

text \<open>Construction succeeds exactly for a node that is itself a member, and raises a
  \<open>KeyError\<close> otherwise.\<close>

theorem node_init_iff_member:
  "fst (DDPoANode_init peers slots (blank_node k net clock rnd)) =
     (if k \<in> set peers then Return () else Raise KeyError)"
proof (cases "k \<in> set peers")
  case True
  then show ?thesis using new_node_facts(9) [OF True refl] by simp
next
  case False
  define b where "b = (blank_node k net clock rnd)\<lparr>cn_peers := [], cn_peer_keys := peers\<rparr>"
  obtain d i where run: "for_each peers cn_add_peer b = (Return (), b\<lparr>cn_peers := d, cn_tick := i\<rparr>)"
      and d: "set (dkeys d) = set peers"
    using add_peers [of b peers] by (auto simp: b_def fresh_peers_def dkeys_def)
  have "dget d k = None" using d False dict.keys_look [of k d] by auto
  with run False show ?thesis
    by (simp add: DDPoANode_init_def cn_init_def run_simps get_peer_def b_def [symmetric])
      (simp add: b_def blank_node_def run_simps)
qed

lemma reachable_new_node: "k \<in> set peers \<Longrightarrow> reachable_node stv sha peers (node_run stv sha cs (new_node k peers slots net clock rnd))"
  unfolding reachable_node_def by blast

text \<open>Bootstrap is faithful: a node that bootstraps from the number, the index, the candidate list
  and the slots that a reachable node writes into its blocks gets exactly that node's epoch, with
  the same witness list, candidate queue and expected signer, and starts producing.\<close>

theorem bootstrap_copies_epoch:
  fixes a b :: ddpoa_node
  assumes "reachable_node stv sha peers a"
  defines "e \<equiv> dn_epoch a"
  defines "b' \<equiv> node_bootstrap (ep_number e) (ep_witness_idx e) (full_candidate_list e) (ep_num_slots e) b"
  shows "dn_epoch b' = dn_epoch a \<and> expected_signer b' = expected_signer a
    \<and> dn_state b' = PRODUCTION \<and> dn_num_slots b' = ep_num_slots (dn_epoch a)"
proof -
  have "epoch_ok e" using reachable_facts(1) [OF assms(1)] by (simp add: node_ok_def e_def)
  then have "dn_epoch b' = e" by (simp add: b'_def node_bootstrap_def epoch_ok_rebuild)
  then show ?thesis by (simp add: expected_signer_def e_def) (simp add: b'_def node_bootstrap_def e_def)
qed

theorem bootstrap_copies_epoch_witness:
  "expected_signer (node_bootstrap 4 5 [''c'', ''a'', ''b''] 2 (blank_node ''x'' (\<lambda>_ _. True) (\<lambda>i. 0) (\<lambda>i. 1/2)))
    = Some ''a''"
proof -
  let ?new = "new_node ''a'' [''a'', ''b'', ''c''] 2 (\<lambda>_ _. True) (\<lambda>i. 0) (\<lambda>i. 1/2)"
  let ?a = "node_run (\<lambda>_ _ _. Return []) id [Bootstrap 4 5 [''c'', ''a'', ''b''] 2] ?new"
  have e: "dn_epoch ?a = \<lparr>ep_number = 4, ep_witness_idx = 5, ep_candidates = [''b''],
      ep_witnesses = [''c'', ''a''], ep_num_slots = 2\<rparr>"
    by (simp add: node_run_def node_step_def node_bootstrap_def Epoch_init_def set_candidates_and_witnesses_def
        slice_to_def slice_from_def slice_bound_def)
  have "reachable_node (\<lambda>_ _ _. Return []) id [''a'', ''b'', ''c''] ?a" by (rule reachable_new_node) simp
  from bootstrap_copies_epoch [OF this, where b = "blank_node ''x'' (\<lambda>_ _. True) (\<lambda>i. 0) (\<lambda>i. 1/2)"] show ?thesis
    unfolding e by (simp add: full_candidate_list_def expected_signer_def e current_witness_eq)
qed

text \<open>C13: a vote result starts a new epoch only on a quorum: when \<open>handle_vote_result\<close> returns true,
  the message was for the next epoch, the running epoch is over, a most frequent result \<open>r\<close> has
  been sent by as many distinct peers as the quorum asks (all online nodes for the first epoch,
  the consensus amount later), and the new epoch is seated from \<open>r\<close> with its slot index at 0; the
  node is then producing unless it is catching up.\<close>

theorem new_epoch_needs_quorum:
  assumes "handle_vote_result msg k n = (Return True, t)" and "voting_ok (dn_voting n)"
  shows "\<exists>r. is_over (dn_epoch n) \<and> msg_epoch msg = ep_number (dn_epoch n) + 1
    \<and> result_quorum (int (card {j. dget (entries (vs_results (noted_result msg k n)) (msg_epoch msg)) j = Some r}))
        (noted_result msg k n) n
    \<and> ep_number (dn_epoch t) = ep_number (dn_epoch n) + 1 \<and> ep_witness_idx (dn_epoch t) = 0
    \<and> ep_witnesses (dn_epoch t) = slice_to (dn_num_slots n) r \<and> full_candidate_list (dn_epoch t) = r
    \<and> dn_state t = (if dn_state n = CATCHING_UP then CATCHING_UP else PRODUCTION)"
proof -
  obtain r c where rc: "get_consensus_result (msg_epoch msg) (noted_result msg k n) = Return (r, c)"
    and t: "msg_epoch msg = ep_number (dn_epoch n) + 1" "result_quorum c (noted_result msg k n) n" "is_over (dn_epoch n)"
      "dn_epoch t = set_candidates_and_witnesses r (Epoch_init (msg_epoch msg) (dn_num_slots n))"
      "dn_state t = (if dn_state n = CATCHING_UP then CATCHING_UP else PRODUCTION)"
    using assms(1) by (rule handle_vote_result_True)
  have "voting_ok (noted_result msg k n)"
    using assms(2) by (simp add: noted_result_def voting_ok_set_peer_result)
  then have "c = int (card {j. dget (entries (vs_results (noted_result msg k n)) (msg_epoch msg)) j = Some r})"
    using get_consensus_result_Return(2) [OF rc] by (simp add: voting_ok_def count_list_card)
  then show ?thesis
    using t by (intro exI [of _ r]) (simp add: set_candidates_and_witnesses_def Epoch_init_def full_candidate_list_def)
qed

text \<open>Receiving a ballot, or the broadcast timer, never starts an epoch: even when it completes the
  node's own result, the epoch, the state and the ready results stay as they were, so that an epoch
  only starts when a further result message or a slot change is handled.\<close>

theorem ballots_never_start_epoch:
  "dn_epoch (snd (handle_vote stv sha msg k n)) = dn_epoch n
    \<and> dn_state (snd (handle_vote stv sha msg k n)) = dn_state n
    \<and> dn_ready_result (snd (handle_vote stv sha msg k n)) = dn_ready_result n
    \<and> dn_epoch (snd (timer_fires stv sha n)) = dn_epoch n
    \<and> dn_state (snd (timer_fires stv sha n)) = dn_state n
    \<and> dn_ready_result (snd (timer_fires stv sha n)) = dn_ready_result n"
  using keepsD [OF frame_handle_vote(2), of n stv sha msg k] keepsD [OF frame_timer_fires(2), of n stv sha]
  by (simp add: epoch_frame_def)

lemma ballots_of_broadcast_result: "vs_ballots (dn_voting (snd (broadcast_result stv sha e n))) = vs_ballots (dn_voting n)"
proof -
  obtain r v where rv: "calculate_result stv sha e (dn_voting n) = (r, v)" by force
  then have "vs_ballots v = vs_ballots (dn_voting n)"
    using calculate_result_frame(3) [of stv sha e "dn_voting n"] by simp
  moreover have "dn_voting (snd (broadcast m n')) = dn_voting n'" for m and n' :: ddpoa_node
    by (rule base_frame_attributes) (rule keepsD [OF frame_broadcast])
  ultimately show ?thesis
    by (simp add: broadcast_result_def run_simps in_voting_def rv split: outcome.split)
qed

lemma ballots_after_vote: "vs_ballots (dn_voting (snd (handle_vote stv sha msg k n))) =
    (if msg_epoch msg \<noteq> next_epoch_number (dn_epoch n) \<or> has_voted k (msg_epoch msg) (dn_voting n)
     then vs_ballots (dn_voting n)
     else vs_ballots (add_ballot (msg_epoch msg) k (msg_votes msg) (dn_voting n)))"
  by (simp add: run_handle_vote Let_def ballots_of_broadcast_result cancel_timer_def)

lemma has_voted_entries: "has_voted k e v \<longleftrightarrow> dget (entries (vs_ballots v) e) k \<noteq> None"
  by (auto simp: has_voted_def entries_def dict.keys_look split: option.split)

text \<open>The first ballot counts: once a node holds a ballot of a peer for an epoch, no later vote
  message changes it, whatever messages arrive and in whatever order.\<close>

theorem first_ballot_counts:
  assumes "dget (entries (vs_ballots (dn_voting n)) e) k = Some b"
  shows "dget (entries (vs_ballots (dn_voting
      (fold (\<lambda>(msg, j) m. snd (handle_vote stv sha msg j m)) msgs n))) e) k = Some b"
  using assms
proof (induction msgs arbitrary: n)
  case (Cons p msgs)
  obtain msg j where p: "p = (msg, j)" by force
  have "dget (entries (vs_ballots (dn_voting (snd (handle_vote stv sha msg j n)))) e) k = Some b"
    using Cons.prems
    by (auto simp: ballots_after_vote ballots_add_ballot entries_dput dict_simps has_voted_entries)
  then show ?case using Cons.IH by (simp add: p)
qed simp

theorem first_ballot_counts_witness:
  "dget (entries (vs_ballots (dn_voting (fold (\<lambda>(msg, j) m. snd (handle_vote (\<lambda>_ _ _. Return []) id msg j m))
      [((ConsensusMessage VOTE)\<lparr>msg_epoch := 1, msg_votes := [''a'']\<rparr>, ''b'')]
      ((blank_node ''a'' (\<lambda>_ _. True) (\<lambda>i. 0) (\<lambda>i. 1/2))
        \<lparr>dn_voting := add_ballot 1 ''b'' [''b'', ''a''] (VotingSystem ''a'' [''a'', ''b''] 1)\<rparr>)))) 1) ''b''
    = Some [''b'', ''a'']"
  by (rule first_ballot_counts)
    (simp add: ballots_add_ballot entries_dput dict_simps)

text \<open>What receiving a ballot does, on every branch: a ballot for another epoch, or of a peer whose
  ballot is known, changes nothing; otherwise it is stored and the pending timer is cancelled, and
  then the result is computed and broadcast at once when every online peer has voted, a new timer
  is started when enough have, and nothing more happens otherwise.\<close>

theorem ballot_handling:
  defines "accepted msg k n \<equiv> msg_epoch msg = next_epoch_number (dn_epoch n) \<and> \<not> has_voted k (msg_epoch msg) (dn_voting n)"
  defines "stored msg k n \<equiv> (cancel_timer (n\<lparr>dn_voting := add_ballot (msg_epoch msg) k (msg_votes msg) (dn_voting n)\<rparr>))
      \<lparr>dn_pre_online := comm_online_peers (cn_comm n) + 1\<rparr>"
  defines "votes msg k n \<equiv> int (length (entries (vs_ballots (dn_voting (stored msg k n))) (msg_epoch msg)))"
  defines "quorum n \<equiv> max (vs_num_slots (dn_voting n)) (1 + (comm_online_peers (cn_comm n) + 1) * 2 div 3)"
  shows "handle_vote stv sha msg k n =
    (if \<not> accepted msg k n then (Return (), n)
     else if comm_online_peers (cn_comm n) + 1 \<ge> quorum n \<and> votes msg k n \<ge> comm_online_peers (cn_comm n) + 1
       then broadcast_result stv sha (msg_epoch msg) (stored msg k n)
     else if votes msg k n \<ge> quorum n
       then (Return (), (stored msg k n)\<lparr>dn_broadcast_timer := Some \<lparr>bt_epoch = msg_epoch msg, bt_pending = True\<rparr>\<rparr>)
     else (Return (), stored msg k n))"
proof (cases "accepted msg k n")
  case True
  then have acc: "msg_epoch msg = next_epoch_number (dn_epoch n)" "\<not> has_voted k (next_epoch_number (dn_epoch n)) (dn_voting n)"
    unfolding accepted_def by metis+
  have v: "dn_voting (cancel_timer m) = dn_voting m" for m by (simp add: cancel_timer_def)
  show ?thesis
    unfolding run_handle_vote Let_def
    using True by (simp add: acc stored_def votes_def quorum_def consensus_amount_def v)
next
  case False
  then show ?thesis by (auto simp: run_handle_vote accepted_def)
qed

text \<open>The end of an epoch: when the slot change makes the epoch over, the node starts the next epoch
  from the stored candidates if its result is ready, and otherwise goes idle (unless it is catching
  up), keeping the finished epoch; before the end only the slot index and the order of the
  witnesses change.\<close>

theorem next_slot_cases:
  fixes n :: ddpoa_node and sha :: "string \<Rightarrow> string" and b :: string
  assumes "ep_witnesses (dn_epoch n) \<noteq> []"
  defines "f \<equiv> snd (increment_witness sha b (dn_epoch n))"
  shows "(\<not> is_over f \<longrightarrow> node_next_slot sha b n = (Return (), n\<lparr>dn_epoch := f\<rparr>))
    \<and> (is_over f \<and> dget (dn_ready_result n) (ep_number (dn_epoch n) + 1) = None \<longrightarrow>
         fst (node_next_slot sha b n) = Return () \<and> dn_epoch (snd (node_next_slot sha b n)) = f
         \<and> dn_state (snd (node_next_slot sha b n)) = (if dn_state n = CATCHING_UP then CATCHING_UP else IDLE))
    \<and> (is_over f \<and> dget (dn_ready_result n) (ep_number (dn_epoch n) + 1) \<noteq> None \<longrightarrow>
         (case get_candidates (ep_number (dn_epoch n) + 1) (dn_voting n) of
            None \<Rightarrow> fst (node_next_slot sha b n) = Raise TypeError
          | Some cs \<Rightarrow>
              dn_epoch (snd (node_next_slot sha b n)) =
                \<lparr>ep_number = ep_number (dn_epoch n) + 1, ep_witness_idx = 0, ep_candidates = slice_from (dn_num_slots n) cs,
                 ep_witnesses = slice_to (dn_num_slots n) cs, ep_num_slots = dn_num_slots n\<rparr>
              \<and> dn_state (snd (node_next_slot sha b n)) = (if dn_state n = CATCHING_UP then CATCHING_UP else PRODUCTION)))"
proof -
  define m where "m = finalize_epoch (slotted sha b n)"
  have m: "dn_epoch m = f" "dn_voting m = dn_voting n" "dn_num_slots m = dn_num_slots n"
      "dn_state m = (if dn_state n = CATCHING_UP then CATCHING_UP else IDLE)"
    by (simp_all add: m_def f_def finalize_epoch_def move_state_def set_state_def Let_def slotted_def)
  have ready: "dget (dn_ready_result m) (ep_number (dn_epoch n) + 1) = dget (dn_ready_result n) (ep_number (dn_epoch n) + 1)"
    by (simp add: m_def finalize_epoch_def move_state_def set_state_def Let_def slotted_def dict_simps)
  note run = run_node_next_slot [of sha b n, unfolded next_epoch_number_def Let_def, folded m_def]
  have f: "dn_epoch (slotted sha b n) = f" by (simp add: slotted_def f_def)
  show ?thesis
  proof (cases "is_over f \<and> dget (dn_ready_result n) (ep_number (dn_epoch n) + 1) \<noteq> None")
    case True
    then have step: "node_next_slot sha b n = initialize_epoch (ep_number (dn_epoch n) + 1) m"
      using assms(1) by (simp add: run f ready)
    show ?thesis
    proof (cases "get_candidates (ep_number (dn_epoch n) + 1) (dn_voting n)")
      case None
      then show ?thesis using True by (simp add: step run_initialize_epoch m)
    next
      case (Some cs)
      then have "get_candidates (ep_number (dn_epoch n) + 1) (dn_voting m) = Some cs" by (simp add: m)
      from initialize_epoch_effect [OF this] show ?thesis
        using True Some by (auto simp: step m set_candidates_and_witnesses_def Epoch_init_def)
    qed
  next
    case False
    then show ?thesis using assms(1) by (auto simp: run f ready m) (simp_all add: slotted_def f_def)
  qed
qed

theorem next_slot_cases_witness:
  "dn_state (snd (node_next_slot id ''b''
      ((blank_node ''a'' (\<lambda>_ _. True) (\<lambda>i. 0) (\<lambda>i. 1/2))
        \<lparr>dn_epoch := \<lparr>ep_number = 1, ep_witness_idx = 2, ep_candidates = [], ep_witnesses = [''a''], ep_num_slots = 1\<rparr>\<rparr>)))
    = IDLE"
proof -
  let ?n = "(blank_node ''a'' (\<lambda>_ _. True) (\<lambda>i. 0) (\<lambda>i. 1/2))
    \<lparr>dn_epoch := \<lparr>ep_number = 1, ep_witness_idx = 2, ep_candidates = [], ep_witnesses = [''a''], ep_num_slots = 1\<rparr>\<rparr>"
  have "is_over (snd (increment_witness id ''b'' (dn_epoch ?n)))"
    by (simp add: run_increment Let_def is_over_def ROUNDS_PER_EPOCH_def)
  then show ?thesis using next_slot_cases [of ?n id "''b''"] by (simp add: blank_node_def)
qed

section \<open>The state machine of a node\<close>

text \<open>Which call moves the state of a node from where to where.\<close>

inductive call_move :: "node_call \<Rightarrow> node_state \<Rightarrow> node_state \<Rightarrow> bool" where
  stay: "(\<And>e i cs slots. c \<noteq> Bootstrap e i cs slots) \<Longrightarrow> call_move c s s"
| bootstrapped: "call_move (Bootstrap e i cs slots) s PRODUCTION"
| voted: "s \<noteq> CATCHING_UP \<Longrightarrow> call_move Vote s ELECTION"
| epoch_ended: "s \<noteq> CATCHING_UP \<Longrightarrow> call_move (Slot b) s IDLE"
| next_epoch: "s \<noteq> CATCHING_UP \<Longrightarrow> call_move (Slot b) s PRODUCTION"
| elected: "s \<noteq> CATCHING_UP \<Longrightarrow> call_move (Result msg k) s PRODUCTION"

inductive_simps call_move_catching_up: "call_move c CATCHING_UP t"

lemma call_move_unchanged: "call_move c s s \<or> (\<exists>e i cs slots. c = Bootstrap e i cs slots)"
  by (metis call_move.stay)

text \<open>What a single call does to the epoch and the state.\<close>

definition ballot_frame :: "ddpoa_node \<Rightarrow> ddpoa_node \<Rightarrow> bool" where
  "ballot_frame s t \<longleftrightarrow> dn_epoch t = dn_epoch s
     \<and> (dn_state t = dn_state s \<or> dn_state s \<noteq> CATCHING_UP \<and> dn_state t = ELECTION)"

interpretation ballot_frame: state_preorder ballot_frame
  by unfold_locales (auto simp: ballot_frame_def)

lemma epoch_ballot_frame: "keeps epoch_frame m \<Longrightarrow> keeps ballot_frame m"
  by (simp add: keeps_def epoch_frame_def ballot_frame_def)

lemma ballot_frame_vote: "keeps ballot_frame vote"
  unfolding vote_def
  by (intro ballot_frame.all ballot_frame.modify frame_draw_ballot frame_send_ballot frame_voting
      voting_frame.modify voting_frame_ops epoch_ballot_frame)
    (simp add: ballot_frame_def move_state_def set_state_def)

definition epoch_moves :: "ddpoa_node \<Rightarrow> ddpoa_node \<Rightarrow> bool" where
  "epoch_moves s t \<longleftrightarrow>
     (ep_number (dn_epoch t) = ep_number (dn_epoch s) \<and> dn_state t = dn_state s)
     \<or> (ep_number (dn_epoch t) = ep_number (dn_epoch s) \<and> is_over (dn_epoch t)
         \<and> dn_state t = (if dn_state s = CATCHING_UP then CATCHING_UP else IDLE))
     \<or> (ep_number (dn_epoch t) = ep_number (dn_epoch s) + 1
         \<and> dn_state t = (if dn_state s = CATCHING_UP then CATCHING_UP else PRODUCTION))"

lemma initialize_epoch_moves:
  "ep_number (dn_epoch (snd (initialize_epoch e n))) = e"
  "dn_state (snd (initialize_epoch e n)) = (if dn_state n = CATCHING_UP then CATCHING_UP else PRODUCTION)"
proof -
  have "ep_number (dn_epoch (snd (initialize_epoch e n))) = e
    \<and> dn_state (snd (initialize_epoch e n)) = (if dn_state n = CATCHING_UP then CATCHING_UP else PRODUCTION)"
  proof (cases "get_candidates e (dn_voting n)")
    case None
    then show ?thesis by (simp add: run_initialize_epoch Epoch_init_def)
  next
    case (Some cs)
    from initialize_epoch_effect [OF this] show ?thesis
      by (simp add: set_candidates_and_witnesses_def Epoch_init_def)
  qed
  then show "ep_number (dn_epoch (snd (initialize_epoch e n))) = e"
    "dn_state (snd (initialize_epoch e n)) = (if dn_state n = CATCHING_UP then CATCHING_UP else PRODUCTION)"
    by auto
qed

lemma next_slot_moves: "epoch_moves n (snd (node_next_slot sha b n))"
proof -
  have f: "dn_epoch (finalize_epoch m) = dn_epoch m"
      "dn_state (finalize_epoch m) = (if dn_state m = CATCHING_UP then CATCHING_UP else IDLE)" for m
    by (simp_all add: finalize_epoch_def move_state_def set_state_def Let_def)
  have s: "ep_number (dn_epoch (slotted sha b n)) = ep_number (dn_epoch n)" "dn_state (slotted sha b n) = dn_state n"
    by (simp_all add: slotted_def)
  show ?thesis
    by (auto simp: run_node_next_slot Let_def epoch_moves_def initialize_epoch_moves f s next_epoch_number_def)
qed

lemma vote_result_moves: "epoch_moves n (snd (handle_vote_result msg k n))
    \<and> (dn_state (snd (handle_vote_result msg k n)) = dn_state n
       \<or> dn_state n \<noteq> CATCHING_UP \<and> dn_state (snd (handle_vote_result msg k n)) = PRODUCTION)"
proof -
  obtain r c where rc: "get_consensus_result (msg_epoch msg) (noted_result msg k n) = Return (r, c)"
    by (rule noted_result_total)
  obtain o' t where init: "initialize_epoch (msg_epoch msg) (ready_node msg k r n) = (o', t)" by force
  then have "ep_number (dn_epoch t) = msg_epoch msg"
      "dn_state t = (if dn_state n = CATCHING_UP then CATCHING_UP else PRODUCTION)"
    using initialize_epoch_moves [of "msg_epoch msg" "ready_node msg k r n"] by simp_all
  moreover have "snd (case (o', t) of (Return _, t) \<Rightarrow> (Return True, t) | (Raise e, t) \<Rightarrow> (Raise e, t) | (Hang, t) \<Rightarrow> (Hang, t)) = t"
    by (simp split: outcome.split)
  ultimately show ?thesis
    unfolding run_handle_vote_result [OF rc] init
    by (simp add: epoch_moves_def next_epoch_number_def)
qed

lemma other_calls:
  assumes "\<And>e i cs slots. c \<noteq> Bootstrap e i cs slots" "\<And>b. c \<noteq> Slot b" "\<And>m k. c \<noteq> Result m k"
    "c \<noteq> Vote" "\<And>k. c \<noteq> Downgrade k"
  shows "epoch_frame n (node_step stv sha c n)"
proof -
  have comm: "keeps base_frame (in_comm (modify (timer_connect k)))"
    "keeps base_frame (in_comm (modify (rpc_Message m)))" for k m
    by (rule frame_in_comm; simp add: run_simps comm_ok_steps)+
  note keeps = node_base_frames [THEN epoch_frame_base, THEN keepsD] comm [THEN epoch_frame_base, THEN keepsD]
    frame_scores(3,4) [THEN keepsD] frame_handle_vote(2) [THEN keepsD] frame_timer_fires(2) [THEN keepsD]
    frame_queries(3,4) [THEN keepsD] frame_rebroadcast(2) [THEN keepsD] frame_online_peers(2) [THEN keepsD]
  show ?thesis
    unfolding node_step_def
    by (insert assms, cases c; simp only: node_call.case; (rule keeps)?; blast)
qed

lemma node_step_moves:
  assumes "\<And>e i cs slots. c \<noteq> Bootstrap e i cs slots"
  shows "call_move c (dn_state n) (dn_state (node_step stv sha c n))"
    and "ep_number (dn_epoch (node_step stv sha c n)) \<in> {ep_number (dn_epoch n), ep_number (dn_epoch n) + 1}"
proof -
  consider b where "c = Slot b" | m k where "c = Result m k" | "c = Vote" | k where "c = Downgrade k"
    | "epoch_frame n (node_step stv sha c n)"
    using other_calls [of c n stv sha] assms by metis
  then have "call_move c (dn_state n) (dn_state (node_step stv sha c n))
    \<and> ep_number (dn_epoch (node_step stv sha c n)) \<in> {ep_number (dn_epoch n), ep_number (dn_epoch n) + 1}"
  proof cases
    case 1
    then show ?thesis
      using next_slot_moves [of n sha b] call_move.intros assms
      by (auto simp: node_step_def epoch_moves_def intro: call_move.intros)
  next
    case 2
    then show ?thesis
      using vote_result_moves [of n m k]
      by (auto simp: node_step_def epoch_moves_def intro: call_move.intros)
  next
    case 3
    then show ?thesis
      using keepsD [OF ballot_frame_vote, of n]
      by (auto simp: node_step_def ballot_frame_def intro: call_move.intros)
  next
    case 4
    then show ?thesis
      by (auto simp: node_step_def downgrade_def in_epoch_def run_simps split: prod.split intro!: call_move.stay)
        (metis downgrade_frame(2) snd_conv)+
  next
    case 5
    then show ?thesis using assms by (auto simp: epoch_frame_def intro!: call_move.stay)
  qed
  then show "call_move c (dn_state n) (dn_state (node_step stv sha c n))"
    "ep_number (dn_epoch (node_step stv sha c n)) \<in> {ep_number (dn_epoch n), ep_number (dn_epoch n) + 1}"
    by auto
qed

definition is_bootstrap :: "node_call \<Rightarrow> bool" where
  "is_bootstrap c = (case c of Bootstrap _ _ _ _ \<Rightarrow> True | _ \<Rightarrow> False)"

lemma not_is_bootstrap: "\<not> is_bootstrap c \<Longrightarrow> c \<noteq> Bootstrap e i cs slots"
  by (auto simp: is_bootstrap_def)

lemma plain_step:
  assumes "\<not> is_bootstrap c"
  shows "call_move c (dn_state n) (dn_state (node_step stv sha c n))"
    and "ep_number (dn_epoch (node_step stv sha c n)) \<in> {ep_number (dn_epoch n), ep_number (dn_epoch n) + 1}"
  by (rule node_step_moves; rule not_is_bootstrap [OF assms])+

text \<open>C17: the state machine: every call, whatever its outcome, moves the state along the relation
  \<open>call_move\<close>: only voting leads to ELECTION, only the end of an epoch to IDLE, a new epoch or a
  bootstrap to PRODUCTION, and no call leads into WAITING_FOR_BOOTSTRAP or CATCHING_UP.\<close>

theorem node_state_machine:
  "call_move c (dn_state n) (dn_state (node_step stv sha c n))"
proof (cases "is_bootstrap c")
  case True
  then show ?thesis
    by (auto simp: is_bootstrap_def node_step_def node_bootstrap_def intro: call_move.intros split: node_call.splits)
qed (rule plain_step(1))

text \<open>C18: a node that is catching up stays so, whatever calls are made on it, until it is bootstrapped:
  voting results, slots and epoch changes do not bring it into production.\<close>

theorem catching_up_until_bootstrap:
  assumes "dn_state n = CATCHING_UP" and "\<forall>c \<in> set cs. \<not> is_bootstrap c"
  shows "dn_state (node_run stv sha cs n) = CATCHING_UP"
  using assms
proof (induction cs arbitrary: n)
  case (Cons c cs)
  have "call_move c CATCHING_UP (dn_state (node_step stv sha c n))"
    using plain_step(1) [where c = c and n = n and stv = stv and sha = sha] Cons.prems by simp
  then have "dn_state (node_step stv sha c n) = CATCHING_UP"
    using Cons.prems(2) by (auto simp: call_move_catching_up is_bootstrap_def)
  with Cons show ?case by (simp add: node_run_def)
qed (simp add: node_run_def)

theorem catching_up_until_bootstrap_witness:
  "dn_state (node_run (\<lambda>_ _ _. Return []) id [Vote, Slot ''b'', Result ((ConsensusMessage VOTE_RESULT)\<lparr>msg_epoch := 1\<rparr>) ''a'']
      ((blank_node ''a'' (\<lambda>_ _. True) (\<lambda>i. 0) (\<lambda>i. 1/2))\<lparr>dn_state := CATCHING_UP\<rparr>)) = CATCHING_UP"
  by (rule catching_up_until_bootstrap) (simp_all add: is_bootstrap_def)

text \<open>C19: epoch numbers never fall and never skip: a run of calls without a bootstrap takes the epoch
  number through every number between its first and its last value, one call at a time.\<close>

theorem epoch_numbers_advance:
  assumes "\<forall>c \<in> set cs. \<not> is_bootstrap c"
  shows "ep_number (dn_epoch n) \<le> ep_number (dn_epoch (node_run stv sha cs n))
    \<and> (\<forall>m. ep_number (dn_epoch n) \<le> m \<and> m \<le> ep_number (dn_epoch (node_run stv sha cs n)) \<longrightarrow>
        (\<exists>j \<le> length cs. ep_number (dn_epoch (node_run stv sha (take j cs) n)) = m))"
  using assms
proof (induction cs rule: rev_induct)
  case (snoc c cs)
  let ?num = "\<lambda>cs. ep_number (dn_epoch (node_run stv sha cs n))"
  have last: "?num (cs @ [c]) \<in> {?num cs, ?num cs + 1}"
    using plain_step(2) [where c = c and n = "node_run stv sha cs n" and stv = stv and sha = sha] snoc.prems
    by (simp add: node_run_def)
  have IH: "ep_number (dn_epoch n) \<le> ?num cs"
    "\<And>m. ep_number (dn_epoch n) \<le> m \<Longrightarrow> m \<le> ?num cs \<Longrightarrow> \<exists>j \<le> length cs. ?num (take j cs) = m"
    using snoc by auto
  have "\<exists>j \<le> length (cs @ [c]). ?num (take j (cs @ [c])) = m"
    if m: "ep_number (dn_epoch n) \<le> m" "m \<le> ?num (cs @ [c])" for m
  proof (cases "m \<le> ?num cs")
    case True
    then obtain j where "j \<le> length cs" "?num (take j cs) = m" using IH(2) m(1) by blast
    then show ?thesis by (intro exI [of _ j]) simp
  next
    case False
    then have "?num (cs @ [c]) = m" using last m(2) by auto
    then show ?thesis by (intro exI [of _ "Suc (length cs)"]) simp
  qed
  moreover have "ep_number (dn_epoch n) \<le> ?num (cs @ [c])" using IH(1) last by auto
  ultimately show ?case by blast
qed (simp add: node_run_def)

theorem epoch_numbers_advance_witness:
  "0 \<le> ep_number (dn_epoch (node_run (\<lambda>_ _ _. Return []) id [Vote, Slot ''b'']
      (new_node ''a'' [''a''] 1 (\<lambda>_ _. True) (\<lambda>i. 0) (\<lambda>i. 1/2))))"
  using epoch_numbers_advance [of "[Vote, Slot ''b'']" "new_node ''a'' [''a''] 1 (\<lambda>_ _. True) (\<lambda>i. 0) (\<lambda>i. 1/2)"
      "\<lambda>_ _ _. Return []" id] new_node_facts(7) [of "''a''" "[''a'']", OF _ refl]
  by (simp add: is_bootstrap_def Epoch_init_def)

text \<open>C12: agreement of two nodes on an epoch: if both start the same next epoch on a quorum of results,
  \<open>M\<close> holds everyone under whose key one of them has stored a result for that epoch, each of them sees as many
  nodes online, itself included, as there are in \<open>M\<close>, and at most a third of \<open>M\<close> told them
  different results, then they seat the same epoch: the same witness list, candidate queue and
  expected signer.\<close>

theorem epoch_agreement:
  assumes "handle_vote_result msgA kA a = (Return True, tA)" and "handle_vote_result msgB kB b = (Return True, tB)"
    and "ep_number (dn_epoch a) = ep_number (dn_epoch b)" and "dn_num_slots a = dn_num_slots b"
    and "voting_ok (dn_voting a)" and "voting_ok (dn_voting b)" and "finite M"
    and "int (card M) \<le> comm_online_peers (cn_comm a) + 1" and "int (card M) \<le> comm_online_peers (cn_comm b) + 1"
    and "set (dkeys (entries (vs_results (noted_result msgA kA a)) (msg_epoch msgA))) \<subseteq> M"
    and "set (dkeys (entries (vs_results (noted_result msgB kB b)) (msg_epoch msgB))) \<subseteq> M"
    and "F \<subseteq> M" and "3 * card F \<le> card M"
    and "\<forall>k \<in> M - F. \<forall>x y. dget (entries (vs_results (noted_result msgA kA a)) (msg_epoch msgA)) k = Some x \<longrightarrow>
        dget (entries (vs_results (noted_result msgB kB b)) (msg_epoch msgB)) k = Some y \<longrightarrow> x = y"
  shows "dn_epoch tA = dn_epoch tB \<and> expected_signer tA = expected_signer tB"
proof -
  obtain rA cA where A: "get_consensus_result (msg_epoch msgA) (noted_result msgA kA a) = Return (rA, cA)"
    and A': "msg_epoch msgA = ep_number (dn_epoch a) + 1" "result_quorum cA (noted_result msgA kA a) a"
      "dn_epoch tA = set_candidates_and_witnesses rA (Epoch_init (msg_epoch msgA) (dn_num_slots a))"
    using assms(1) by (rule handle_vote_result_True) blast
  obtain rB cB where B: "get_consensus_result (msg_epoch msgB) (noted_result msgB kB b) = Return (rB, cB)"
    and B': "msg_epoch msgB = ep_number (dn_epoch b) + 1" "result_quorum cB (noted_result msgB kB b) b"
      "dn_epoch tB = set_candidates_and_witnesses rB (Epoch_init (msg_epoch msgB) (dn_num_slots b))"
    using assms(2) by (rule handle_vote_result_True) blast
  have same: "msg_epoch msgB = msg_epoch msgA" using A' B' assms(3) by simp
  have "kA \<in> M" using assms(10) by (auto simp: noted_result_def results_set_peer_result entries_dput dict_simps split: if_splits)
  then have "1 \<le> card M" using assms(7) by (metis One_nat_def Suc_leI card_gt_0_iff empty_iff)
  then have count: "cA \<ge> 1 + int (card M) * 2 div 3" "cB \<ge> 1 + int (card M) * 2 div 3"
    using A'(2) B'(2) assms(8,9) by (auto simp: result_quorum_def consensus_amount_def split: if_splits)
  have ok: "voting_ok (noted_result msgA kA a)" "voting_ok (noted_result msgB kB b)"
    using assms(5,6) by (simp_all add: noted_result_def voting_ok_set_peer_result)
  have "rA = rB"
    using quorums_agree [OF assms(7,10) _ ok A count(1) _ count(2) assms(12,13)] assms(11,14) B
    by (simp add: same)
  then show ?thesis using A'(3) B'(3) assms(4) same by (simp add: expected_signer_def)
qed

definition pair_node :: "key \<Rightarrow> key \<Rightarrow> ddpoa_node" where
  "pair_node k j = (blank_node k (\<lambda>_ _. True) (\<lambda>i. 0) (\<lambda>i. 1/2))
     \<lparr>cn_comm := (Communicator_init (\<lambda>_ _. True))\<lparr>cm_peers := [(j, \<lparr>pr_ip = j, pr_stub = True, pr_connected = True\<rparr>)]\<rparr>,
      dn_voting := set_peer_result 1 k [''b'', ''a''] (VotingSystem k [''a'', ''b''] 1), dn_num_slots := 1\<rparr>"

definition pair_message :: consensus_message where
  "pair_message = (ConsensusMessage VOTE_RESULT)\<lparr>msg_epoch := 1, msg_result := [''b'', ''a'']\<rparr>"

lemma pair_returns: "fst (handle_vote_result pair_message ''b'' (pair_node ''a'' ''b'')) = Return True"
  "fst (handle_vote_result pair_message ''a'' (pair_node ''b'' ''a'')) = Return True"
  by code_simp+

lemma pair_facts:
  "comm_online_peers (cn_comm (pair_node k j)) = 1" "ep_number (dn_epoch (pair_node k j)) = 0"
  "dn_num_slots (pair_node k j) = 1" "voting_ok (dn_voting (pair_node k j))" "msg_epoch pair_message = 1"
  "entries (vs_results (noted_result pair_message i (pair_node k j))) 1 = dput i [''b'', ''a''] (dput k [''b'', ''a''] [])"
proof -
  show "voting_ok (dn_voting (pair_node k j))"
    by (simp add: pair_node_def voting_ok_set_peer_result voting_ok_init)
  show "entries (vs_results (noted_result pair_message i (pair_node k j))) 1 = dput i [''b'', ''a''] (dput k [''b'', ''a''] [])"
    by (simp add: noted_result_def pair_node_def pair_message_def results_set_peer_result entries_dput ConsensusMessage_def)
      (simp add: VotingSystem_def entries_def)
qed (simp_all add: pair_node_def blank_node_def comm_online_peers_def dvalues_def Communicator_init_def Epoch_init_def
    pair_message_def ConsensusMessage_def)

theorem epoch_agreement_witness:
  "dn_epoch (snd (handle_vote_result pair_message ''b'' (pair_node ''a'' ''b'')))
    = dn_epoch (snd (handle_vote_result pair_message ''a'' (pair_node ''b'' ''a'')))"
proof -
  note a = prod.collapse [of "handle_vote_result pair_message ''b'' (pair_node ''a'' ''b'')", unfolded pair_returns, symmetric]
  note b = prod.collapse [of "handle_vote_result pair_message ''a'' (pair_node ''b'' ''a'')", unfolded pair_returns, symmetric]
  show ?thesis
    using epoch_agreement [OF a b, of "{''a'', ''b''}" "{}"]
    by (simp add: pair_facts dput_def dkeys_def dget_def)
qed

theorem new_epoch_needs_quorum_witness:
  "\<exists>r. int (card {j. dget (entries (vs_results (noted_result pair_message ''b'' (pair_node ''a'' ''b''))) 1) j = Some r}) = 2
    \<and> full_candidate_list (dn_epoch (snd (handle_vote_result pair_message ''b'' (pair_node ''a'' ''b'')))) = r"
  using new_epoch_needs_quorum [OF prod.collapse [of "handle_vote_result pair_message ''b'' (pair_node ''a'' ''b'')",
      unfolded pair_returns, symmetric]]
  by (auto simp: pair_facts result_quorum_def)

lemma vote_effect:
  assumes "vote n = (Return (), t)"
  obtains b where "fst (draw_ballot n) = Return b"
    and "dn_voting t = add_ballot (next_epoch_number (dn_epoch n)) (cn_key n) b (dn_voting n)"
    and "dn_epoch t = dn_epoch n" and "dn_state t = (if dn_state n = CATCHING_UP then CATCHING_UP else ELECTION)"
    and "cn_key t = cn_key n"
proof -
  obtain b i where b: "draw_ballot n = (Return b, n\<lparr>dn_rtick := i\<rparr>)"
    using assms by (auto simp: vote_def run_simps draw_ballot_def split: outcome.splits)
  define m where "m = move_state ELECTION (n\<lparr>dn_rtick := i,
      dn_voting := add_ballot (next_epoch_number (dn_epoch n)) (cn_key n) b (dn_voting n)\<rparr>)"
  have send: "send_ballot b (next_epoch_number (dn_epoch n)) m = (Return (), t)"
    using assms by (simp add: vote_def run_simps b in_voting_def m_def)
  have attrs: "dn_voting t = dn_voting m" "dn_epoch t = dn_epoch m" "dn_state t = dn_state m" "cn_key t = cn_key m"
  proof -
    obtain u where u: "broadcast ((ConsensusMessage VOTE)\<lparr>msg_votes := b, msg_epoch := next_epoch_number (dn_epoch n)\<rparr>) m
          = (Return (), u)"
        and t: "dn_voting t = dn_voting u" "dn_epoch t = dn_epoch u" "dn_state t = dn_state u" "cn_key t = cn_key u"
      using send by (auto simp: send_ballot_def run_simps time_now_def split: prod.splits outcome.splits)
    have f: "base_frame m u" using frame_broadcast u by (rule keeps_run)
    show "dn_voting t = dn_voting m" "dn_epoch t = dn_epoch m" "dn_state t = dn_state m" "cn_key t = cn_key m"
      using base_frame_attributes [OF f] f t by (simp_all add: base_frame_def)
  qed
  show thesis
    by (rule that [of b]) (use b attrs in \<open>simp_all add: m_def move_state_def set_state_def\<close>)
qed

text \<open>A node votes once per epoch: when \<open>vote\<close> returns, the ballot it drew is stored under the
  node's own key for the next epoch, the epoch is unchanged, the state is ELECTION (unless the node
  is catching up), and \<open>should_vote\<close> is false from then on for that epoch.\<close>

theorem vote_once:
  assumes "vote n = (Return (), t)"
  shows "(\<exists>b. fst (draw_ballot n) = Return b
        \<and> dget (entries (vs_ballots (dn_voting t)) (ep_number (dn_epoch n) + 1)) (cn_key n) = Some b)
    \<and> dn_epoch t = dn_epoch n \<and> dn_state t = (if dn_state n = CATCHING_UP then CATCHING_UP else ELECTION)
    \<and> fst (should_vote t) = Return False"
proof -
  obtain b where b: "fst (draw_ballot n) = Return b"
    and t: "dn_voting t = add_ballot (next_epoch_number (dn_epoch n)) (cn_key n) b (dn_voting n)"
      "dn_epoch t = dn_epoch n" "dn_state t = (if dn_state n = CATCHING_UP then CATCHING_UP else ELECTION)"
      "cn_key t = cn_key n"
    using assms by (rule vote_effect)
  have stored: "dget (entries (vs_ballots (dn_voting t)) (ep_number (dn_epoch n) + 1)) (cn_key n) = Some b"
    by (simp add: t ballots_add_ballot entries_dput dict_simps next_epoch_number_def)
  then have "has_voted (cn_key t) (next_epoch_number (dn_epoch t)) (dn_voting t)"
    by (simp add: has_voted_entries next_epoch_number_def t(2,4))
  then have "fst (should_vote t) = Return False"
    by (simp add: should_vote_def run_simps run_online_peers)
  with b t stored show ?thesis by blast
qed

lemma vote_returns: "fst (vote (new_node ''a'' [''a''] 1 (\<lambda>_ _. True) (\<lambda>i. 0) (\<lambda>i. 1/2))) = Return ()"
  by code_simp

theorem vote_once_witness:
  "fst (should_vote (snd (vote (new_node ''a'' [''a''] 1 (\<lambda>_ _. True) (\<lambda>i. 0) (\<lambda>i. 1/2))))) = Return False"
  using vote_once [OF prod.collapse [of "vote (new_node ''a'' [''a''] 1 (\<lambda>_ _. True) (\<lambda>i. 0) (\<lambda>i. 1/2))",
      unfolded vote_returns, symmetric]] by simp

section \<open>Unanimous results\<close>

definition result_message :: "int \<Rightarrow> result \<Rightarrow> consensus_message" where
  "result_message e r = (ConsensusMessage VOTE_RESULT)\<lparr>msg_result := r, msg_epoch := e\<rparr>"

definition receive_results :: "int \<Rightarrow> result \<Rightarrow> key list \<Rightarrow> ddpoa_node \<Rightarrow> ddpoa_node" where
  "receive_results e r ks n = fold (\<lambda>k m. snd (handle_vote_result (result_message e r) k m)) ks n"

lemma result_message_fields [simp]: "msg_epoch (result_message e r) = e" "msg_result (result_message e r) = r"
  by (simp_all add: result_message_def)

text \<open>The node holds the result \<open>r\<close> of exactly the peers \<open>ks\<close>, and no other result.\<close>

definition unanimous :: "int \<Rightarrow> result \<Rightarrow> key list \<Rightarrow> voting \<Rightarrow> bool" where
  "unanimous e r ks v \<longleftrightarrow> dkeys (entries (vs_results v) e) = ks \<and> set (dvalues (entries (vs_results v) e)) \<subseteq> {r}"

text \<open>One more peer; a repeated message of a known one changes nothing.\<close>

definition joined :: "key list \<Rightarrow> key \<Rightarrow> key list" where
  "joined ks k = (if k \<in> set ks then ks else ks @ [k])"

lemma joined_facts: "set (joined ks k) = insert k (set ks)" "distinct ks \<Longrightarrow> distinct (joined ks k)"
  by (auto simp: joined_def)

lemma dput_joined:
  "dkeys (dput k r d) = joined (dkeys d) k" "set (dvalues (dput k r d)) \<subseteq> insert r (set (dvalues d))"
  by (induction d) (auto simp: dput_def dkeys_def dvalues_def joined_def)

lemma unanimous_noted:
  assumes "unanimous e r ks (dn_voting n)"
  shows "unanimous e r (joined ks k) (noted_result (result_message e r) k n)"
    and "get_consensus_result e (noted_result (result_message e r) k n) = Return (r, int (length (joined ks k)))"
proof -
  let ?d = "entries (vs_results (dn_voting n)) e" and ?v = "noted_result (result_message e r) k n"
  have d: "entries (vs_results ?v) e = dput k r ?d"
    by (simp add: noted_result_def results_set_peer_result entries_dput)
  show un: "unanimous e r (joined ks k) ?v"
    using assms dput_joined [of k r ?d] unfolding unanimous_def d by auto
  obtain r' c where rc: "get_consensus_result e ?v = Return (r', c)"
    using noted_result_total [of "result_message e r" k n] by auto
  have "r' = r" using get_consensus_result_Return(1) [OF rc] un by (auto simp: unanimous_def)
  moreover have "count_list xs r = length xs" if "set xs \<subseteq> {r}" for xs :: "result list"
    using that by (induction xs) auto
  then have "c = int (length (dvalues (entries (vs_results ?v) e)))"
    using get_consensus_result_Return(2) [OF rc] un by (simp add: unanimous_def \<open>r' = r\<close>)
  ultimately show "get_consensus_result e ?v = Return (r, int (length (joined ks k)))"
    using rc un by (simp add: unanimous_def length_dvalues)
qed

text \<open>Results for an epoch that has already started are ignored.\<close>

lemma late_results: "ep_number (dn_epoch n) + 1 \<noteq> e \<Longrightarrow> receive_results e r ks n = n"
  by (induction ks) (simp_all add: receive_results_def handle_vote_result_def run_simps next_epoch_number_def)

lemma receive_unanimous:
  assumes "unanimous e r ks (dn_voting n)" "e = ep_number (dn_epoch n) + 1" "is_over (dn_epoch n)"
    and "distinct ks" "\<not> set js \<subseteq> set ks" "int (card (set (ks @ js))) = comm_online_peers (cn_comm n) + 1"
    and "ep_number (dn_epoch n) = 0 \<or> vs_num_slots (dn_voting n) \<le> comm_online_peers (cn_comm n) + 1"
  shows "dn_epoch (receive_results e r js n) = set_candidates_and_witnesses r (Epoch_init e (dn_num_slots n))"
  using assms
proof (induction js arbitrary: ks n)
  case (Cons k js)
  let ?msg = "result_message e r"
  let ?v = "noted_result ?msg k n"
  let ?c = "int (length (joined ks k))"
  note un = unanimous_noted [OF Cons.prems(1), of k]
  have run: "handle_vote_result ?msg k n =
    (if \<not> result_quorum (?c) ?v n
       then (Return False, n\<lparr>dn_voting := ?v, dn_pre_online := comm_online_peers (cn_comm n) + 1\<rparr>)
     else (case initialize_epoch e (ready_node ?msg k r n) of
        (Return _, t) \<Rightarrow> (Return True, t) | (Raise e, t) \<Rightarrow> (Raise e, t) | (Hang, t) \<Rightarrow> (Hang, t)))"
    using run_handle_vote_result [of ?msg k n r ?c] un(2) Cons.prems(2,3)
    by (simp add: next_epoch_number_def)
  show ?case
  proof (cases "result_quorum (?c) ?v n")
    case True
    have "get_candidates e (dn_voting (ready_node ?msg k r n)) = Some r"
      using ready_node_attrs(1) [of ?msg k r n] by simp
    from initialize_epoch_effect(1) [OF this] have "dn_epoch (snd (handle_vote_result ?msg k n))
        = set_candidates_and_witnesses r (Epoch_init e (dn_num_slots n))"
      using True by (auto simp: run split: prod.split outcome.split)
    then show ?thesis
      using late_results [of "snd (handle_vote_result ?msg k n)" e r js]
      by (simp add: receive_results_def set_candidates_and_witnesses_def Epoch_init_def)
  next
    case False
    let ?n = "n\<lparr>dn_voting := ?v, dn_pre_online := comm_online_peers (cn_comm n) + 1\<rparr>"
    have slots: "vs_num_slots ?v = vs_num_slots (dn_voting n)" by (simp add: noted_result_def)
    have "\<not> set js \<subseteq> set (joined ks k)"
    proof
      assume "set js \<subseteq> set (joined ks k)"
      then have "set (ks @ k # js) = set (joined ks k)" by (auto simp: joined_facts)
      then have "?c = comm_online_peers (cn_comm n) + 1"
        using Cons.prems(4,6) distinct_card [OF joined_facts(2) [OF Cons.prems(4)], of k] by simp
      with False Cons.prems(7) slots online_peers_nonneg [of "cn_comm n"] show False
        by (auto simp: result_quorum_def consensus_amount_def split: if_splits)
    qed
    then have "dn_epoch (receive_results e r js ?n) = set_candidates_and_witnesses r (Epoch_init e (dn_num_slots ?n))"
      using Cons.prems un(1) slots joined_facts [of ks k] by (intro Cons.IH [where ks = "joined ks k"]) simp_all
    then show ?thesis using False by (simp add: receive_results_def run)
  qed
qed simp

text \<open>Progress: once the epoch is over and the node holds the same result \<open>r\<close> of the peers \<open>ks\<close> (its
  own among them, say), receiving that result of all the other online nodes starts the next epoch
  from \<open>r\<close>, in whatever order and however often they come, provided at least one of them is still to come.\<close>

theorem unanimous_results_start_epoch:
  assumes "unanimous e r ks (dn_voting n)" and "e = ep_number (dn_epoch n) + 1" and "is_over (dn_epoch n)"
    and "distinct ks" and "\<not> set js \<subseteq> set ks" and "int (card (set (ks @ js))) = comm_online_peers (cn_comm n) + 1"
    and "ep_number (dn_epoch n) = 0 \<or> vs_num_slots (dn_voting n) \<le> comm_online_peers (cn_comm n) + 1"
  shows "ep_number (dn_epoch (receive_results e r js n)) = e
    \<and> ep_witnesses (dn_epoch (receive_results e r js n)) = slice_to (dn_num_slots n) r
    \<and> full_candidate_list (dn_epoch (receive_results e r js n)) = r"
  using receive_unanimous [OF assms]
  by (simp add: set_candidates_and_witnesses_def Epoch_init_def full_candidate_list_def)

theorem unanimous_results_start_epoch_witness:
  "ep_witnesses (dn_epoch (receive_results 1 [''b'', ''a''] [''b''] (pair_node ''a'' ''b''))) = [''b'']"
proof -
  have "entries (vs_results (dn_voting (pair_node ''a'' ''b''))) 1 = [(''a'', [''b'', ''a''])]"
    by (simp add: pair_node_def results_set_peer_result entries_dput) (simp add: VotingSystem_def entries_def dput_def)
  then have "unanimous 1 [''b'', ''a''] [''a''] (dn_voting (pair_node ''a'' ''b''))"
    by (simp add: unanimous_def dkeys_def dvalues_def)
  moreover have "is_over (dn_epoch (pair_node ''a'' ''b''))"
    by (simp add: pair_node_def blank_node_def Epoch_init_def is_over_def)
  ultimately show ?thesis
    using unanimous_results_start_epoch [of 1 "[''b'', ''a'']" "[''a'']" "pair_node ''a'' ''b''" "[''b'']"]
    by (simp add: pair_facts slice_to_def slice_bound_def)
qed

end
