(* ===== verification/Block_Cache.thy ===== *)
theory Block_Cache
  imports Config_Utils
begin

text \<open>
  The validator's service as the engine sees it, and the class \<open>BlockCache\<close> of
  \<open>engine/ddpoa_engine.py\<close>. \<open>ZmqService\<close> is code of the Sawtooth SDK: its answers are the fields
  \<open>sv_*\<close> of the record \<open>service\<close>, functions of the calls made so far, any of which may raise;
  \<open>sv_log\<close> is a ghost log of the calls. A loop over \<open>previous_id\<close> that may not end is a
  \<open>partial_function\<close>, whose \<open>None\<close> is a call that never returns; the contract \<open>parent_chain\<close>
  says when it does.
\<close>

section \<open>Blocks and the service\<close>

record block =
  b_block_id :: bytes
  b_previous_id :: bytes
  b_signer_id :: bytes
  b_block_num :: int
  b_payload :: bytes
  b_summary :: bytes

datatype service_call = Summarize | Finalize bytes | Cancel | Initialize | Check "bytes list"
  | Commit bytes | Fail bytes | Ignore bytes | Chain_Head | Get_Blocks "bytes list"

record service =
  sv_log :: "service_call list"
  sv_unit :: "service_call list \<Rightarrow> service_call \<Rightarrow> unit outcome"
  sv_summary :: "service_call list \<Rightarrow> bytes outcome"
  sv_finalize :: "service_call list \<Rightarrow> bytes \<Rightarrow> bytes outcome"
  sv_head :: "service_call list \<Rightarrow> block outcome"
  sv_blocks :: "service_call list \<Rightarrow> bytes list \<Rightarrow> (bytes, block) dict outcome"

definition call_service :: "service_call \<Rightarrow> (service \<Rightarrow> 'a outcome) \<Rightarrow> (service, 'a) py" where
  "call_service c answer = (\<lambda>s. (answer s, s\<lparr>sv_log := sv_log s @ [c]\<rparr>))"

definition service_unit :: "service_call \<Rightarrow> (service, unit) py" where
  "service_unit c = call_service c (\<lambda>s. sv_unit s (sv_log s) c)"

definition summarize_block :: "(service, bytes) py" where
  "summarize_block = call_service Summarize (\<lambda>s. sv_summary s (sv_log s))"

definition finalize_block :: "bytes \<Rightarrow> (service, bytes) py" where
  "finalize_block data = call_service (Finalize data) (\<lambda>s. sv_finalize s (sv_log s) data)"

definition get_chain_head :: "(service, block) py" where
  "get_chain_head = call_service Chain_Head (\<lambda>s. sv_head s (sv_log s))"

text \<open>\<open>service.get_blocks([i])[i]\<close>\<close>

definition get_block :: "bytes \<Rightarrow> (service, block) py" where
  "get_block i = bindP (call_service (Get_Blocks [i]) (\<lambda>s. sv_blocks s (sv_log s) [i]))
     (\<lambda>d. from_option KeyError (dget d i))"

section \<open>The cache\<close>

record block_cache =
  bc_cache :: "(bytes, block) dict"
  bc_cache_ids :: "bytes list"

definition BlockCache_init :: block_cache where
  "BlockCache_init = \<lparr>bc_cache = [], bc_cache_ids = []\<rparr>"

text \<open>\<open>append\<close>: the state is the cache and the service that \<open>ignore_block\<close> is called on.\<close>

definition cache_append :: "block \<Rightarrow> (block_cache \<times> service, unit) py" where
  "cache_append b =
     thenP (modify (\<lambda>(c, s). (c\<lparr>bc_cache_ids := bc_cache_ids c @ [b_block_id b],
         bc_cache := dput (b_block_id b) b (bc_cache c)\<rparr>, s)))
     (bindP (gets (\<lambda>(c, s). bc_cache_ids c)) (\<lambda>ids.
       if length ids > 10 then
         thenP (modify (\<lambda>(c, s). (c\<lparr>bc_cache_ids := tl ids\<rparr>, s)))
        (bindP (gets (\<lambda>(c, s). dget (bc_cache c) (hd ids))) (\<lambda>found.
         bindP (from_option KeyError found) (\<lambda>_.
         thenP (modify (\<lambda>(c, s). (c\<lparr>bc_cache := ddel (hd ids) (bc_cache c)\<rparr>, s)))
           (on_field snd (\<lambda>s (c, _). (c, s)) (service_unit (Ignore (hd ids)))))))
       else ret ()))"

definition block_from_id :: "block_cache \<Rightarrow> bytes \<Rightarrow> block option" where
  "block_from_id c i = dget (bc_cache c) i"

definition block_by_num_and_signer :: "block_cache \<Rightarrow> int \<Rightarrow> key option \<Rightarrow> block option" where
  "block_by_num_and_signer c num signer =
     List.find (\<lambda>b. b_block_num b = num \<and> Some (hex (b_signer_id b)) = signer) (dvalues (bc_cache c))"

definition contains :: "block_cache \<Rightarrow> bytes \<Rightarrow> bool" where
  "contains c i \<longleftrightarrow> i \<in> set (bc_cache_ids c)"

text \<open>\<open>traversable\<close>: follow \<open>previous_id\<close> through the cache until it leaves it.\<close>

partial_function (option) traversable_loop :: "(bytes, block) dict \<Rightarrow> bytes \<Rightarrow> bytes \<Rightarrow> bool option" where
  "traversable_loop d prev to_id =
     (case dget d prev of
        None \<Rightarrow> Some (prev = to_id)
      | Some b \<Rightarrow> if b_block_id b = to_id then Some True else traversable_loop d (b_previous_id b) to_id)"

definition traversable :: "block_cache \<Rightarrow> bytes \<Rightarrow> bytes \<Rightarrow> bool option" where
  "traversable c from_id to_id = traversable_loop (bc_cache c) from_id to_id"

partial_function (option) block_path_loop ::
    "(bytes, block) dict \<Rightarrow> block \<Rightarrow> bytes \<Rightarrow> bytes list \<Rightarrow> bytes list outcome option" where
  "block_path_loop d cur to_id ids =
     (if b_previous_id cur \<noteq> to_id then
        (case dget d (b_previous_id cur) of
           None \<Rightarrow> Some (Raise KeyError)
         | Some b \<Rightarrow> block_path_loop d b to_id (ids @ [b_block_id cur]))
      else Some (Return (rev (ids @ [b_block_id cur]))))"

definition block_path :: "block_cache \<Rightarrow> bytes \<Rightarrow> bytes \<Rightarrow> bytes list outcome option" where
  "block_path c from_id to_id =
     (case dget (bc_cache c) from_id of
        None \<Rightarrow> Some (Raise KeyError)
      | Some b \<Rightarrow> block_path_loop (bc_cache c) b to_id [])"

partial_function (option) longest_chain_loop ::
    "(bytes, block) dict \<Rightarrow> block \<Rightarrow> bytes list \<Rightarrow> bytes list option" where
  "longest_chain_loop d cur ids =
     (case dget d (b_previous_id cur) of
        None \<Rightarrow> Some (rev ids)
      | Some b \<Rightarrow> longest_chain_loop d b (ids @ [b_block_id b]))"

definition longest_chain :: "block_cache \<Rightarrow> bytes \<Rightarrow> bytes list outcome option" where
  "longest_chain c from_id =
     (case dget (bc_cache c) from_id of
        None \<Rightarrow> Some (Raise KeyError)
      | Some b \<Rightarrow> map_option Return (longest_chain_loop (bc_cache c) b [from_id]))"

declare traversable_loop.simps [code] block_path_loop.simps [code] longest_chain_loop.simps [code]

section \<open>The contract of a chain of parents\<close>

locale parent_chain =
  fixes ok :: "'d \<Rightarrow> bool"
    and parent :: "'d \<Rightarrow> 'k \<Rightarrow> 'k option"
    and height :: "'d \<Rightarrow> 'k \<Rightarrow> nat"
  assumes height_parent: "ok d \<Longrightarrow> parent d k = Some j \<Longrightarrow> parent d j = Some i \<Longrightarrow> height d j < height d k"
begin

text \<open>Every walk to the parents ends, so a property that a parent hands down holds everywhere.\<close>

lemma chain_induct:
  assumes "ok d" and step: "\<And>k. (\<And>j. parent d k = Some j \<Longrightarrow> P j) \<Longrightarrow> P k"
  shows "P k"
proof -
  have inner: "\<forall>k. height d k < n \<longrightarrow> parent d k \<noteq> None \<longrightarrow> P k" for n
  proof (induction n)
    case (Suc n)
    show ?case
    proof (intro allI impI)
      fix k assume k: "height d k < Suc n"
      show "P k"
      proof (rule step)
        fix j assume j: "parent d k = Some j"
        show "P j"
        proof (cases "parent d j")
          case (Some i)
          then have "height d j < n" using height_parent [OF assms(1) j] k by fastforce
          with Suc.IH Some show ?thesis by auto
        qed (auto intro: step)
      qed
    qed
  qed simp
  show ?thesis
  proof (cases "parent d k")
    case (Some j)
    then show ?thesis using inner [of "Suc (height d k)"] by simp
  qed (auto intro: step)
qed

end

text \<open>The cache: the parent of a cached id is the \<open>previous_id\<close> of its block.\<close>

definition parent_of :: "(bytes, block) dict \<Rightarrow> bytes \<Rightarrow> bytes option" where
  "parent_of d i = map_option b_previous_id (dget d i)"

definition height_of :: "(bytes, block) dict \<Rightarrow> bytes \<Rightarrow> nat" where
  "height_of d i = (case dget d i of None \<Rightarrow> 0 | Some b \<Rightarrow> nat (b_block_num b))"

text \<open>Every block is stored under its id, and a cached parent has a smaller block number.\<close>

definition linked :: "(bytes, block) dict \<Rightarrow> bool" where
  "linked d \<longleftrightarrow> (\<forall>i b. dget d i = Some b \<longrightarrow> b_block_id b = i \<and> 0 \<le> b_block_num b
     \<and> (\<forall>c. dget d (b_previous_id b) = Some c \<longrightarrow> b_block_num c < b_block_num b))"

interpretation cache_chain: parent_chain linked parent_of height_of
proof unfold_locales
  fix d k j i
  assume "linked d" "parent_of d k = Some j" "parent_of d j = Some i"
  then obtain b c where b: "dget d k = Some b" "j = b_previous_id b" and c: "dget d j = Some c"
    by (auto simp: parent_of_def)
  then have "0 \<le> b_block_num c" "b_block_num c < b_block_num b"
    using \<open>linked d\<close> unfolding linked_def by metis+
  then show "height_of d j < height_of d k" by (simp add: height_of_def b(1) c)
qed

text \<open>\<open>ancestor d i to\<close>: following \<open>previous_id\<close> from \<open>i\<close> through cached blocks comes to \<open>to\<close>.\<close>

inductive ancestor :: "(bytes, block) dict \<Rightarrow> bytes \<Rightarrow> bytes \<Rightarrow> bool" for d where
  here: "ancestor d to to"
| up: "dget d i = Some b \<Longrightarrow> ancestor d (b_previous_id b) to \<Longrightarrow> ancestor d i to"

inductive_simps ancestor_iff: "ancestor d i to"
inductive_cases ancestor_cases: "ancestor d i to"

text \<open>A list of cached ids, each the parent of the next, the first a child of \<open>p\<close>.\<close>

fun chain_above :: "(bytes, block) dict \<Rightarrow> bytes \<Rightarrow> bytes list \<Rightarrow> bool" where
  "chain_above d p [] = True"
| "chain_above d p (i # is) \<longleftrightarrow> (case dget d i of None \<Rightarrow> False | Some b \<Rightarrow> b_previous_id b = p \<and> chain_above d i is)"

section \<open>Facts\<close>

lemma chain_above_append: "chain_above d p (xs @ ys) \<longleftrightarrow> chain_above d p xs \<and> chain_above d (last (p # xs)) ys"
  by (induction xs arbitrary: p) (auto split: option.splits)

lemma traversable_loop_result:
  assumes "linked d"
  shows "traversable_loop d i to = Some (ancestor d i to)"
proof (induction i rule: cache_chain.chain_induct [OF assms])
  case (1 i)
  show ?case
  proof (cases "dget d i")
    case None
    then show ?thesis by (subst traversable_loop.simps) (auto simp: ancestor_iff [of d i])
  next
    case (Some b)
    then have "traversable_loop d (b_previous_id b) to = Some (ancestor d (b_previous_id b) to)"
      using 1 by (simp add: parent_of_def)
    moreover have "b_block_id b = i" using Some assms by (auto simp: linked_def)
    ultimately show ?thesis
      using Some by (subst traversable_loop.simps) (auto simp: ancestor_iff [of d i])
  qed
qed

lemma block_path_loop_result:
  assumes "linked d" "dget d i = Some b"
  shows "if ancestor d (b_previous_id b) to
    then \<exists>ids. block_path_loop d b to acc = Some (Return (ids @ i # rev acc)) \<and> chain_above d to (ids @ [i])
    else block_path_loop d b to acc = Some (Raise KeyError)"
  using assms(2)
proof (induction i arbitrary: b acc rule: cache_chain.chain_induct [OF assms(1)])
  case (1 i)
  have id: "b_block_id b = i" using 1(2) assms(1) by (auto simp: linked_def)
  show ?case
  proof (cases "b_previous_id b = to")
    case True
    then show ?thesis
      using 1(2) id by (subst (1 2) block_path_loop.simps) (auto intro: ancestor.here)
  next
    case False
    show ?thesis
    proof (cases "dget d (b_previous_id b)")
      case None
      then have "\<not> ancestor d (b_previous_id b) to" using False by (auto elim: ancestor_cases)
      then show ?thesis using None False by (subst (2) block_path_loop.simps) simp
    next
      case (Some c)
      have anc: "ancestor d (b_previous_id b) to \<longleftrightarrow> ancestor d (b_previous_id c) to"
        using False Some by (auto simp: ancestor_iff [of d "b_previous_id b"])
      have step: "block_path_loop d b to acc = block_path_loop d c to (acc @ [i])"
        by (subst block_path_loop.simps) (simp add: False Some id)
      have "parent_of d i = Some (b_previous_id b)" using 1(2) by (simp add: parent_of_def)
      note IH = 1(1) [OF this Some, of "acc @ [i]"]
      show ?thesis
      proof (cases "ancestor d (b_previous_id c) to")
        case True
        with IH obtain ids where "block_path_loop d c to (acc @ [i]) = Some (Return (ids @ b_previous_id b # i # rev acc))"
            "chain_above d to (ids @ [b_previous_id b])" by auto
        then show ?thesis
          unfolding step using True anc 1(2) chain_above_append [of d to "ids @ [b_previous_id b]" "[i]"]
          by (auto intro!: exI [of _ "ids @ [b_previous_id b]"])
      qed (use IH step anc in simp)
    qed
  qed
qed

lemma longest_chain_loop_result:
  assumes "linked d" "dget d i = Some b"
  shows "\<exists>ids p. longest_chain_loop d b acc = Some (ids @ rev acc) \<and> dget d p = None
    \<and> chain_above d p (ids @ [i])"
  using assms(2)
proof (induction i arbitrary: b acc rule: cache_chain.chain_induct [OF assms(1)])
  case (1 i)
  show ?case
  proof (cases "dget d (b_previous_id b)")
    case None
    then have "longest_chain_loop d b acc = Some (rev acc)" by (subst longest_chain_loop.simps) simp
    then show ?thesis
      using None 1(2) by (intro exI [of _ "[]"] exI [of _ "b_previous_id b"]) simp
  next
    case (Some c)
    have id: "b_block_id c = b_previous_id b" using Some assms(1) by (auto simp: linked_def)
    have step: "longest_chain_loop d b acc = longest_chain_loop d c (acc @ [b_previous_id b])"
      by (subst longest_chain_loop.simps) (simp add: Some id)
    have "parent_of d i = Some (b_previous_id b)" using 1(2) by (simp add: parent_of_def)
    from 1(1) [OF this Some, of "acc @ [b_previous_id b]"] obtain ids p where
        "longest_chain_loop d c (acc @ [b_previous_id b]) = Some (ids @ b_previous_id b # rev acc)"
        "dget d p = None" "chain_above d p (ids @ [b_previous_id b])" by auto
    then show ?thesis
      unfolding step using 1(2) chain_above_append [of d p "ids @ [b_previous_id b]" "[i]"]
      by (intro exI [of _ "ids @ [b_previous_id b]"] exI [of _ p]) simp
  qed
qed

text \<open>A cache whose dictionary is in the order of its id list, with every block under its id.\<close>

definition cache_ok :: "block_cache \<Rightarrow> bool" where
  "cache_ok c \<longleftrightarrow> dkeys (bc_cache c) = bc_cache_ids c \<and> distinct (bc_cache_ids c) \<and> length (bc_cache_ids c) \<le> 10
     \<and> (\<forall>i b. dget (bc_cache c) i = Some b \<longrightarrow> b_block_id b = i)"

lemma run_cache_append: "cache_append b (c, s) =
    (let ids = bc_cache_ids c @ [b_block_id b]; d = dput (b_block_id b) b (bc_cache c)
     in if length ids \<le> 10 then (Return (), (\<lparr>bc_cache = d, bc_cache_ids = ids\<rparr>, s))
        else if dget d (hd ids) = None then (Raise KeyError, (\<lparr>bc_cache = d, bc_cache_ids = tl ids\<rparr>, s))
        else (sv_unit s (sv_log s) (Ignore (hd ids)),
          (\<lparr>bc_cache = ddel (hd ids) d, bc_cache_ids = tl ids\<rparr>, s\<lparr>sv_log := sv_log s @ [Ignore (hd ids)]\<rparr>)))"
  by (auto simp: cache_append_def run_simps Let_def service_unit_def call_service_def split: option.split prod.split)

text \<open>Appending a block that is not cached to a consistent cache.\<close>

lemma fresh_append:
  assumes "cache_ok c" and "b_block_id b \<notin> set (bc_cache_ids c)"
  defines "full \<equiv> length (bc_cache_ids c) = 10" and "oldest \<equiv> hd (bc_cache_ids c)"
  shows "fst (cache_append b (c, s)) = (if full then sv_unit s (sv_log s) (Ignore oldest) else Return ())"
    and "snd (snd (cache_append b (c, s))) = s\<lparr>sv_log := sv_log s @ (if full then [Ignore oldest] else [])\<rparr>"
    and "cache_ok (fst (snd (cache_append b (c, s))))"
    and "block_from_id (fst (snd (cache_append b (c, s)))) i =
        (if i = b_block_id b then Some b else if full \<and> i = oldest then None else block_from_id c i)"
    and "bc_cache_ids (fst (snd (cache_append b (c, s)))) = (if full then tl (bc_cache_ids c) else bc_cache_ids c) @ [b_block_id b]"
proof -
  let ?ids = "bc_cache_ids c" and ?d = "dput (b_block_id b) b (bc_cache c)"
  have c: "dkeys (bc_cache c) = ?ids" "distinct ?ids" "length ?ids \<le> 10"
      "\<And>i b. dget (bc_cache c) i = Some b \<Longrightarrow> b_block_id b = i"
    using assms(1) by (auto simp: cache_ok_def)
  have keys: "dkeys ?d = ?ids @ [b_block_id b]" using assms(2) c(1) by (simp add: dict_simps)
  have "fst (cache_append b (c, s)) = (if full then sv_unit s (sv_log s) (Ignore oldest) else Return ())
    \<and> snd (snd (cache_append b (c, s))) = s\<lparr>sv_log := sv_log s @ (if full then [Ignore oldest] else [])\<rparr>
    \<and> cache_ok (fst (snd (cache_append b (c, s))))
    \<and> block_from_id (fst (snd (cache_append b (c, s)))) i =
        (if i = b_block_id b then Some b else if full \<and> i = oldest then None else block_from_id c i)
    \<and> bc_cache_ids (fst (snd (cache_append b (c, s)))) = (if full then tl ?ids else ?ids) @ [b_block_id b]"
  proof (cases full)
    case False
    then show ?thesis
      using c assms(2) keys
      by (auto simp: full_def run_cache_append Let_def cache_ok_def block_from_id_def dict_simps split: if_splits)
  next
    case True
    then obtain j ids where ids: "?ids = j # ids" by (cases ?ids) (auto simp: full_def)
    then have j: "j \<noteq> b_block_id b" "j \<notin> set ids" "dget ?d j \<noteq> None"
      using assms(2) c(2) keys dict.keys_look [of j ?d] by auto
    have "dkeys (ddel j ?d) = ids @ [b_block_id b]"
      using j by (auto simp: dict.keys_del keys ids filter_id_conv)
    then show ?thesis
      using c assms(2) True j ids
      by (auto simp: full_def oldest_def run_cache_append Let_def cache_ok_def block_from_id_def dict_simps split: if_splits)
  qed
  then show "fst (cache_append b (c, s)) = (if full then sv_unit s (sv_log s) (Ignore oldest) else Return ())"
    "snd (snd (cache_append b (c, s))) = s\<lparr>sv_log := sv_log s @ (if full then [Ignore oldest] else [])\<rparr>"
    "cache_ok (fst (snd (cache_append b (c, s))))"
    "block_from_id (fst (snd (cache_append b (c, s)))) i =
        (if i = b_block_id b then Some b else if full \<and> i = oldest then None else block_from_id c i)"
    "bc_cache_ids (fst (snd (cache_append b (c, s)))) = (if full then tl ?ids else ?ids) @ [b_block_id b]"
    by blast+
qed

section \<open>Properties\<close>

text \<open>The cache holds the ten newest blocks: appending a block that is not cached keeps the cache
  consistent; while there are fewer than ten it only adds the block, and at ten it drops exactly
  the oldest one and tells the validator to ignore it.\<close>

theorem cache_keeps_newest:
  assumes "cache_ok c" and "b_block_id b \<notin> set (bc_cache_ids c)"
  shows "cache_ok (fst (snd (cache_append b (c, s))))
    \<and> (\<forall>i. block_from_id (fst (snd (cache_append b (c, s)))) i =
        (if i = b_block_id b then Some b
         else if length (bc_cache_ids c) = 10 \<and> i = hd (bc_cache_ids c) then None else block_from_id c i))
    \<and> sv_log (snd (snd (cache_append b (c, s)))) =
        sv_log s @ (if length (bc_cache_ids c) = 10 then [Ignore (hd (bc_cache_ids c))] else [])"
  using fresh_append [OF assms, of s] by simp

definition test_service :: service where
  "test_service = \<lparr>sv_log = [], sv_unit = (\<lambda>_ _. Return ()), sv_summary = (\<lambda>_. Return []),
     sv_finalize = (\<lambda>_ _. Return ''f''), sv_head = (\<lambda>_. Raise UnknownBlock), sv_blocks = (\<lambda>_ _. Return [])\<rparr>"

definition test_block :: "bytes \<Rightarrow> bytes \<Rightarrow> int \<Rightarrow> block" where
  "test_block i p n = \<lparr>b_block_id = i, b_previous_id = p, b_signer_id = ''s'', b_block_num = n,
     b_payload = [], b_summary = []\<rparr>"

theorem cache_keeps_newest_witness:
  "block_from_id (fst (snd (cache_append (test_block ''b'' ''a'' 1) (BlockCache_init, test_service)))) ''b''
    = Some (test_block ''b'' ''a'' 1)"
  using cache_keeps_newest [of BlockCache_init "test_block ''b'' ''a'' 1" test_service]
  by (simp add: cache_ok_def BlockCache_init_def dkeys_def test_block_def)

text \<open>The abstract cache is the list of the blocks that were announced: the cache holds its last ten, in their order.\<close>

definition newest :: "block list \<Rightarrow> block list" where
  "newest bs = drop (length bs - 10) bs"

definition older :: "block list \<Rightarrow> block list" where
  "older bs = take (length bs - 10) bs"

definition cache_of :: "block list \<Rightarrow> block_cache" where
  "cache_of bs = \<lparr>bc_cache = map (\<lambda>b. (b_block_id b, b)) bs, bc_cache_ids = map b_block_id bs\<rparr>"

lemma older_newest: "older bs @ newest bs = bs"
  by (simp add: older_def newest_def)

lemma newest_snoc:
  "newest (bs @ [b]) = (if length (newest bs) = 10 then tl (newest bs) @ [b] else newest bs @ [b])"
  "older (bs @ [b]) = (if length (newest bs) = 10 then older bs @ [hd (newest bs)] else older bs)"
proof -
  have suc: "Suc (length bs) - 10 = Suc (length bs - 10)" if "10 \<le> length bs" using that by arith
  have "drop (Suc (length bs) - 10) bs = tl (newest bs)" if "10 \<le> length bs"
    unfolding suc [OF that] newest_def by (simp add: drop_Suc tl_drop)
  then show "newest (bs @ [b]) = (if length (newest bs) = 10 then tl (newest bs) @ [b] else newest bs @ [b])"
    by (auto simp: newest_def)
  have "take (Suc (length bs) - 10) bs = older bs @ [hd (newest bs)]" if "10 \<le> length bs"
    unfolding suc [OF that] older_def newest_def using that by (simp add: take_Suc_conv_app_nth hd_drop_conv_nth)
  then show "older (bs @ [b]) = (if length (newest bs) = 10 then older bs @ [hd (newest bs)] else older bs)"
    by (auto simp: older_def newest_def)
qed

lemma cache_of_append:
  assumes "distinct (map b_block_id (w @ [b]))" "length w \<le> 10" "\<forall>log i. sv_unit s log (Ignore i) = Return ()"
  shows "cache_append b (cache_of w, s) =
    (Return (), (if length w = 10
       then (cache_of (tl w @ [b]), s\<lparr>sv_log := sv_log s @ [Ignore (b_block_id (hd w))]\<rparr>) else (cache_of (w @ [b]), s)))"
proof -
  have fresh: "dget (map (\<lambda>b. (b_block_id b, b)) w) (b_block_id b) = None"
    using assms(1) by (auto simp: dget_def map_of_eq_None_iff image_iff)
  show ?thesis
  proof (cases "length w = 10")
    case True
    then obtain c v where w: "w = c # v" by (cases w) auto
    have "filter (\<lambda>p. fst p \<noteq> b_block_id c) (map (\<lambda>b. (b_block_id b, b)) v) = map (\<lambda>b. (b_block_id b, b)) v"
      using assms(1) by (fastforce simp: filter_id_conv w image_iff)
    then show ?thesis
      using fresh assms(1,3) True by (simp add: run_cache_append Let_def cache_of_def w dput_fresh dget_def ddel_def) auto
  qed (use fresh assms(2) in \<open>simp add: run_cache_append Let_def cache_of_def dput_fresh\<close>)
qed

text \<open>C34: the cache refines the window of the ten newest blocks: however many different blocks are announced one after
  the other, each \<open>append\<close> returns, the dictionary and the list of ids hold exactly the last ten in the order
  in which they came, and the validator has been told to ignore exactly the others, in that order and once each.\<close>

theorem cache_refines_window:
  assumes "distinct (map b_block_id bs)" and "\<forall>log i. sv_unit v log (Ignore i) = Return ()"
  shows "for_each bs cache_append (BlockCache_init, v) =
    (Return (), (cache_of (newest bs), v\<lparr>sv_log := sv_log v @ map (\<lambda>b. Ignore (b_block_id b)) (older bs)\<rparr>))"
  using assms(1)
proof (induction bs rule: rev_induct)
  case (snoc b bs)
  let ?v = "v\<lparr>sv_log := sv_log v @ map (\<lambda>b. Ignore (b_block_id b)) (older bs)\<rparr>"
  have "distinct (map b_block_id (newest bs @ [b]))"
    using snoc.prems older_newest [of bs] by (metis distinct_append map_append append_assoc)
  moreover have "length (newest bs) \<le> 10" by (simp add: newest_def)
  ultimately have "cache_append b (cache_of (newest bs), ?v) =
      (Return (), (cache_of (newest (bs @ [b])), v\<lparr>sv_log := sv_log v @ map (\<lambda>b. Ignore (b_block_id b)) (older (bs @ [b]))\<rparr>))"
    using cache_of_append [of "newest bs" b ?v] assms(2) by (simp add: newest_snoc)
  then show ?case using snoc by (simp add: for_each_append run_simps)
qed (simp add: run_simps newest_def older_def cache_of_def BlockCache_init_def)

theorem cache_refines_window_witness:
  "sv_log (snd (snd (for_each (map (\<lambda>i. test_block [i] '''' 1) ''abcdefghijkl'') cache_append (BlockCache_init, test_service))))
    = [Ignore ''a'', Ignore ''b'']"
  using cache_refines_window [of "map (\<lambda>i. test_block [i] '''' 1) ''abcdefghijkl''" test_service]
  by (simp add: test_block_def test_service_def older_def)

text \<open>A block id that is listed twice breaks the cache later: when its second entry is the oldest,
  the block is already gone, and appending any other block raises a \<open>KeyError\<close> after adding it,
  without telling the validator anything.\<close>

theorem duplicate_block_raises:
  assumes "length (bc_cache_ids c) = 10" and "dget (bc_cache c) (hd (bc_cache_ids c)) = None"
    and "b_block_id b \<noteq> hd (bc_cache_ids c)"
  shows "fst (cache_append b (c, s)) = Raise KeyError \<and> snd (snd (cache_append b (c, s))) = s
    \<and> block_from_id (fst (snd (cache_append b (c, s)))) (b_block_id b) = Some b"
proof -
  have "hd (bc_cache_ids c @ [b_block_id b]) = hd (bc_cache_ids c)" using assms(1) by (cases "bc_cache_ids c") auto
  then show ?thesis
    using assms by (simp add: run_cache_append Let_def block_from_id_def dict_simps)
qed

definition append_all :: "block list \<Rightarrow> block_cache \<times> service" where
  "append_all bs = fold (\<lambda>b cs. snd (cache_append b cs)) bs (BlockCache_init, test_service)"

theorem duplicate_block_raises_witness:
  "fst (cache_append (test_block ''n'' ''m'' 13) (append_all (map (\<lambda>i. test_block i '''' 1)
      [''a'', ''a'', ''b'', ''c'', ''d'', ''e'', ''f'', ''g'', ''h'', ''i'', ''j'']))) = Raise KeyError"
proof -
  let ?cs = "append_all (map (\<lambda>i. test_block i '''' 1)
      [''a'', ''a'', ''b'', ''c'', ''d'', ''e'', ''f'', ''g'', ''h'', ''i'', ''j''])"
  have "length (bc_cache_ids (fst ?cs)) = 10" "dget (bc_cache (fst ?cs)) (hd (bc_cache_ids (fst ?cs))) = None"
    "b_block_id (test_block ''n'' ''m'' 13) \<noteq> hd (bc_cache_ids (fst ?cs))"
    by code_simp+
  from duplicate_block_raises [OF this, of "snd ?cs"] show ?thesis by simp
qed

text \<open>C35: walking the cache ends and is right: when cached parents have smaller numbers, \<open>traversable\<close>
  returns whether the target is an ancestor, and for an ancestor of a cached block's parent
  \<open>block_path\<close> returns the cached chain from just above the target up to the block, while it raises
  when there is no such chain.\<close>

theorem cache_walks:
  assumes "linked (bc_cache c)" and "dget (bc_cache c) i = Some b"
  shows "traversable c i to = Some (ancestor (bc_cache c) i to)
    \<and> (if ancestor (bc_cache c) (b_previous_id b) to
       then \<exists>ids. block_path c i to = Some (Return (ids @ [i])) \<and> chain_above (bc_cache c) to (ids @ [i])
       else block_path c i to = Some (Raise KeyError))
    \<and> (\<exists>ids p. longest_chain c i = Some (Return (ids @ [i])) \<and> dget (bc_cache c) p = None
         \<and> chain_above (bc_cache c) p (ids @ [i]))"
  using traversable_loop_result [OF assms(1), of i to] block_path_loop_result [OF assms, of to "[]"]
    longest_chain_loop_result [OF assms, of "[i]"] assms(2)
  by (auto simp: traversable_def block_path_def longest_chain_def split: if_splits)

definition walk_cache :: block_cache where
  "walk_cache = \<lparr>bc_cache = [(''b'', test_block ''b'' ''a'' 1), (''c'', test_block ''c'' ''b'' 2)],
     bc_cache_ids = [''b'', ''c'']\<rparr>"

theorem cache_walks_witness:
  "traversable walk_cache ''c'' ''a'' = Some True \<and> (\<exists>ids. block_path walk_cache ''c'' ''a'' = Some (Return (ids @ [''c''])))"
proof -
  have c: "dget (bc_cache walk_cache) ''c'' = Some (test_block ''c'' ''b'' 2)"
    and b: "dget (bc_cache walk_cache) ''b'' = Some (test_block ''b'' ''a'' 1)"
    by (simp_all add: walk_cache_def dget_def)
  have linked: "linked (bc_cache walk_cache)"
    by (auto simp: linked_def walk_cache_def dget_def test_block_def split: if_splits)
  have anc: "ancestor (bc_cache walk_cache) ''b'' ''a''" "ancestor (bc_cache walk_cache) ''c'' ''a''"
    using b c by (auto simp: ancestor_iff [of _ "''b''"] ancestor_iff [of _ "''c''"] test_block_def intro: ancestor.here)
  from cache_walks [OF linked c, of "''a''"] show ?thesis
    using anc by (auto simp: test_block_def)
qed

end
