(* ===== verification/Engine.thy ===== *)
theory Engine
  imports DDPoA_Node Block_Cache
begin

text \<open>
  \<open>DDPoAEngine\<close> of \<open>engine/ddpoa_engine.py\<close>: the handlers of the validator's notifications and
  of the peers' messages, catching up, block production and the main loop. The code it calls
  that is not in the repository is the record \<open>libs\<close>: the poll and the digest, the protobuf
  parser and serialiser of \<open>ConsensusData\<close> and \<open>==\<close> between a byte string and a \<open>Block\<close>, which
  the SDK does not define. The clock is that of the node.
\<close>

section \<open>State\<close>

record consensus_data =
  cd_timestamp :: int
  cd_epoch :: int
  cd_witness_idx :: int
  cd_candidates :: "key list"
  cd_consensus :: string
  cd_num_slots :: int

record libs =
  lib_stv :: stv
  lib_sha :: "string \<Rightarrow> string"
  lib_parse :: "bytes \<Rightarrow> consensus_data outcome"
  lib_serialize :: "consensus_data \<Rightarrow> bytes outcome"
  lib_same :: "bytes \<Rightarrow> block \<Rightarrow> bool"

record engine =
  en_service :: service
  en_node :: ddpoa_node
  en_local_id :: bytes
  en_cache :: block_cache
  en_members :: "key list"
  en_ips :: "(key, string) dict"
  en_pre_committed :: "bytes \<times> int"
  en_exit :: bool
  en_slot_started_at :: rat
  en_waiting_own :: bool
  en_waiting_commit :: int
  en_waiting_validation :: int
  en_bootstrap_msgs :: "bootstrap list"
  en_bootstrap_cache :: "(string, block) dict"
  en_ff_target :: "int option"
  en_ff_target_id :: "bytes option"
  en_num_slots :: int
  en_requested :: bool
  en_pre_request :: rat
  en_loop_pre_request :: rat
  en_loop_start :: rat
  en_loop_starting :: bool

text \<open>The last three are the local variables of the loop of \<open>start\<close>. \<open>en_ff_target_id\<close> is \<open>None\<close>
  while the attribute does not exist.\<close>

definition in_node :: "(ddpoa_node, 'a) py \<Rightarrow> (engine, 'a) py" where
  "in_node = on_field en_node (\<lambda>n s. s\<lparr>en_node := n\<rparr>)"

definition in_service :: "(service, 'a) py \<Rightarrow> (engine, 'a) py" where
  "in_service = on_field en_service (\<lambda>x s. s\<lparr>en_service := x\<rparr>)"

definition in_cache :: "(block_cache \<times> service, 'a) py \<Rightarrow> (engine, 'a) py" where
  "in_cache = on_field (\<lambda>s. (en_cache s, en_service s)) (\<lambda>(c, x) s. s\<lparr>en_cache := c, en_service := x\<rparr>)"

text \<open>A walk over the cache that may never return.\<close>

definition from_walk :: "'a option \<Rightarrow> ('s, 'a) py" where
  "from_walk r = (case r of None \<Rightarrow> hang | Some x \<Rightarrow> ret x)"

definition add_validation :: "int \<Rightarrow> engine \<Rightarrow> engine" where
  "add_validation k s = s\<lparr>en_waiting_validation := en_waiting_validation s + k\<rparr>"

definition add_commit :: "int \<Rightarrow> engine \<Rightarrow> engine" where
  "add_commit k s = s\<lparr>en_waiting_commit := en_waiting_commit s + k\<rparr>"

definition node_state_of :: "engine \<Rightarrow> node_state" where
  "node_state_of s = dn_state (en_node s)"

definition signer_of :: "engine \<Rightarrow> key option" where
  "signer_of s = expected_signer (en_node s)"

section \<open>Slots\<close>

definition waiting :: "engine \<Rightarrow> bool" where
  "waiting s \<longleftrightarrow> en_waiting_own s \<or> en_waiting_validation s > 0 \<or> en_waiting_commit s > 0"

definition time_for_next_block :: "(engine, bool) py" where
  "time_for_next_block = bindP (in_node time_now) (\<lambda>now. gets (\<lambda>s. now - en_slot_started_at s > BLOCK_INTERVAL))"

definition slot_is_missed :: "(engine, bool) py" where
  "slot_is_missed = bindP (in_node time_now) (\<lambda>now. gets (\<lambda>s.
     now - en_slot_started_at s > BLOCK_INTERVAL + SLOT_TIMEOUT \<and> \<not> waiting s
     \<and> is_initialized (dn_epoch (en_node s))))"

definition try_cancel :: "(engine, unit) py" where
  "try_cancel = try_except (in_service (service_unit Cancel)) (\<lambda>e. e = InvalidState) (\<lambda>_. ret ())"

definition next_slot :: "libs \<Rightarrow> rat \<Rightarrow> (engine, unit) py" where
  "next_slot L start_ts =
     bindP (gets (\<lambda>s. hex (fst (en_pre_committed s)))) (\<lambda>block_id.
     thenP (in_node (node_next_slot (lib_sha L) block_id))
    (thenP (modify (\<lambda>s. s\<lparr>en_slot_started_at := start_ts\<rparr>))
    (thenP try_cancel
    (bindP (gets (\<lambda>s. is_current_witness (en_node s))) (\<lambda>mine.
       whenP mine (in_service (service_unit Initialize)))))))"

text \<open>\<open>self._next_slot(int(time.time()))\<close>\<close>

definition next_slot_now :: "libs \<Rightarrow> (engine, unit) py" where
  "next_slot_now L = bindP (in_node time_now) (\<lambda>now. next_slot L (of_int (py_int now)))"

text \<open>Without an expected signer, \<open>None[:10]\<close> in the log message of \<open>penalize\<close> raises.\<close>

definition handle_missed_slot :: "libs \<Rightarrow> (engine, unit) py" where
  "handle_missed_slot L =
     bindP (gets signer_of) (\<lambda>found. bindP (from_option TypeError found) (\<lambda>peer.
     thenP (in_node (penalize peer))
    (bindP (gets signer_of) (\<lambda>found. bindP (from_option TypeError found) (\<lambda>peer.
     thenP (in_node (downgrade peer)) (next_slot_now L))))))"

definition summarize :: "(engine, bytes option) py" where
  "summarize = try_except (bindP (in_service summarize_block) (\<lambda>b. ret (Some b)))
     (\<lambda>e. e = InvalidState \<or> e = BlockNotReady) (\<lambda>_. ret None)"

definition consensus_data_of :: "rat \<Rightarrow> engine \<Rightarrow> consensus_data" where
  "consensus_data_of now s =
     \<lparr>cd_timestamp = py_int now, cd_epoch = ep_number (dn_epoch (en_node s)),
      cd_witness_idx = ep_witness_idx (dn_epoch (en_node s)),
      cd_candidates = full_candidate_list (dn_epoch (en_node s)),
      cd_consensus = ''ddpoa:0.1'', cd_num_slots = ep_num_slots (dn_epoch (en_node s))\<rparr>"

definition finalize :: "libs \<Rightarrow> (engine, bytes option) py" where
  "finalize L =
     bindP (in_node time_now) (\<lambda>now.
     bindP (gets (consensus_data_of now)) (\<lambda>consensus.
       try_except
         (bindP (from_outcome (lib_serialize L consensus)) (\<lambda>data.
          bindP (in_service (finalize_block data)) (\<lambda>block_id.
          thenP (modify (\<lambda>s. s\<lparr>en_waiting_own := True\<rparr>)) (ret (Some block_id)))))
         (\<lambda>e. e = BlockNotReady \<or> e = InvalidState) (\<lambda>_. ret None)))"

section \<open>Catching up\<close>

text \<open>The walk from the chain head down to a block of the given chain, at most ten blocks deep.\<close>

fun common_loop :: "nat \<Rightarrow> bytes list \<Rightarrow> block \<Rightarrow> (engine, (bytes \<times> bytes) option) py" where
  "common_loop 0 chain cur = ret None"
| "common_loop (Suc k) chain cur =
     (if b_previous_id cur \<in> set chain then ret (Some (b_previous_id cur, b_block_id cur))
      else bindP (in_service (get_block (b_previous_id cur))) (common_loop k chain))"

definition common_and_forked_block :: "bytes list \<Rightarrow> (engine, (bytes \<times> bytes) option) py" where
  "common_and_forked_block chain = bindP (in_service get_chain_head) (common_loop 10 chain)"

definition check_all :: "bytes list \<Rightarrow> (engine, unit) py" where
  "check_all ids = thenP (modify (add_validation (int (length ids)))) (in_service (service_unit (Check ids)))"

definition fastforward_lagging :: "bytes \<Rightarrow> bytes \<Rightarrow> (engine, unit) py" where
  "fastforward_lagging target_id pre_id =
     bindP (gets (\<lambda>s. block_path (en_cache s) target_id pre_id)) (\<lambda>w.
     bindP (from_walk w) (\<lambda>r. bindP (from_outcome r) check_all))"

definition fastforward_fork :: "bytes \<Rightarrow> bytes \<Rightarrow> (engine, unit) py" where
  "fastforward_fork target_id pre_id =
     bindP (gets (\<lambda>s. longest_chain (en_cache s) target_id)) (\<lambda>w.
     bindP (from_walk w) (\<lambda>r. bindP (from_outcome r) (\<lambda>chain.
     bindP (common_and_forked_block chain) (\<lambda>found. case found of
       None \<Rightarrow> ret ()
     | Some (common_block, forked_block) \<Rightarrow>
         whenP (common_block \<noteq> [] \<and> forked_block \<noteq> [])
           (thenP (in_service (service_unit (Fail forked_block)))
             (bindP (from_option ValueError (index_of chain common_block)) (\<lambda>i.
               check_all (try_remove (try_remove (drop i chain) pre_id) common_block))))))))"

definition fastforward_bootstrap :: "(engine, unit) py" where
  "fastforward_bootstrap =
     bindP (gets (\<lambda>s. map (\<lambda>b. (b_block_id b, b_block_num b)) (dvalues (en_bootstrap_cache s)))) (\<lambda>block_ids.
       check_all (map fst (sort_key snd block_ids)))"

definition begin_catch_up :: "bytes \<Rightarrow> int \<Rightarrow> engine \<Rightarrow> engine" where
  "begin_catch_up target_id target_num s =
     s\<lparr>en_node := set_state CATCHING_UP (en_node s), en_ff_target := Some target_num, en_ff_target_id := Some target_id\<rparr>"

definition fastforward :: "libs \<Rightarrow> bytes \<Rightarrow> int \<Rightarrow> (engine, unit) py" where
  "fastforward L target_id target_num =
     bindP (gets (\<lambda>s. fst (en_pre_committed s))) (\<lambda>pre_id.
     bindP (gets node_state_of) (\<lambda>st.
       if target_id = pre_id then modify (\<lambda>s. s\<lparr>en_requested := False, en_bootstrap_msgs := []\<rparr>)
       else if st \<noteq> CATCHING_UP then
         thenP (modify (begin_catch_up target_id target_num))
        (bindP (gets (\<lambda>s. block_from_id (en_cache s) target_id)) (\<lambda>found.
         bindP (gets (\<lambda>s. \<exists>b \<in> set (dvalues (en_bootstrap_cache s)). lib_same L target_id b)) (\<lambda>cached.
         case found of
           Some _ \<Rightarrow>
             bindP (gets (\<lambda>s. traversable (en_cache s) target_id pre_id)) (\<lambda>w. bindP (from_walk w) (\<lambda>lagging.
               if lagging then fastforward_lagging target_id pre_id else fastforward_fork target_id pre_id))
         | None \<Rightarrow> whenP cached fastforward_bootstrap)))
       else ret ()))"

section \<open>Notifications of the validator\<close>

definition note_own_block :: "block \<Rightarrow> engine \<Rightarrow> engine" where
  "note_own_block b s =
     (if en_waiting_own s then s\<lparr>en_waiting_own := b_signer_id b \<noteq> en_local_id s\<rparr> else s)"

text \<open>\<open>_handle_new_block\<close> after the block is cached: the next block of the chain goes to the validator.\<close>

definition check_next_block :: "block \<Rightarrow> (engine, unit) py" where
  "check_next_block b =
     bindP (gets en_pre_committed) (\<lambda>(pre_id, pre_num).
     bindP (gets signer_of) (\<lambda>expected.
       whenP (b_previous_id b = pre_id \<and> b_block_num b = pre_num + 1 \<and> Some (hex (b_signer_id b)) = expected)
         (thenP (modify (note_own_block b))
           (check_all [b_block_id b]))))"

text \<open>A block further ahead: the node may have missed some, and asks for a bootstrap at most every six seconds.\<close>

definition request_if_behind :: "block \<Rightarrow> (engine, unit) py" where
  "request_if_behind b =
     bindP (gets en_pre_committed) (\<lambda>(pre_id, pre_num).
     bindP (gets waiting) (\<lambda>busy.
       whenP (b_block_num b > pre_num + 1 \<and> \<not> busy)
         (bindP (gets (\<lambda>s. traversable (en_cache s) (b_previous_id b) pre_id)) (\<lambda>w. bindP (from_walk w) (\<lambda>_.
          bindP (in_node time_now) (\<lambda>now.
          bindP (gets (\<lambda>s. now - en_pre_request s > 6 \<or> \<not> en_requested s)) (\<lambda>ask.
            whenP ask
              (bindP (in_node time_now) (\<lambda>t.
               thenP (modify (\<lambda>s. s\<lparr>en_pre_request := t, en_requested := True\<rparr>))
                 (in_node broadcast_bootstrap_request))))))))))"

definition route_new_block :: "block \<Rightarrow> (engine, unit) py" where
  "route_new_block b =
     bindP (gets node_state_of) (\<lambda>st.
       if st = WAITING_FOR_BOOTSTRAP then
         modify (\<lambda>s. s\<lparr>en_bootstrap_cache := dput (hex (b_block_id b)) b (en_bootstrap_cache s)\<rparr>)
       else if st = CATCHING_UP then
         bindP (gets en_ff_target_id) (\<lambda>found. bindP (from_option AttributeError found) (\<lambda>target_id.
         bindP (gets (\<lambda>s. traversable (en_cache s) (b_block_id b) target_id)) (\<lambda>w. bindP (from_walk w) (\<lambda>on_path.
           if on_path then check_all [b_block_id b] else request_if_behind b))))
       else request_if_behind b)"

definition handle_new_block :: "libs \<Rightarrow> block \<Rightarrow> (engine, unit) py" where
  "handle_new_block L b =
     bindP (gets en_members) (\<lambda>members.
       if hex (b_signer_id b) \<notin> set members then in_service (service_unit (Fail (b_block_id b)))
       else
         bindP (from_outcome (lib_parse L (b_payload b))) (\<lambda>consensus.
         bindP (in_node time_now) (\<lambda>now.
           if now < of_int (cd_timestamp consensus) then
             thenP (in_node (penalize (hex (b_signer_id b)))) (in_service (service_unit (Fail (b_block_id b))))
           else
             thenP (in_node (cn_seen (hex (b_signer_id b))))
            (thenP (in_cache (cache_append b))
            (thenP (check_next_block b)
              (route_new_block b))))))"

definition handle_valid_block :: "bytes \<Rightarrow> (engine, unit) py" where
  "handle_valid_block block_id =
     bindP (in_service (get_block block_id)) (\<lambda>b.
     thenP (modify (add_validation (- 1)))
    (bindP (gets en_pre_committed) (\<lambda>(pre_id, pre_num).
     bindP (gets node_state_of) (\<lambda>st.
     bindP (gets signer_of) (\<lambda>expected.
       if st = CATCHING_UP \<and> b_previous_id b = pre_id then in_service (service_unit (Commit block_id))
       else if Some (hex (b_signer_id b)) = expected \<and> b_previous_id b = pre_id \<and> b_block_num b = pre_num + 1 then
         thenP (modify (add_commit 1)) (in_service (service_unit (Commit block_id)))
       else in_service (service_unit (Fail block_id)))))))"

text \<open>\<open>self.block_cache.block_from_id(i)\<close>, or the block that the validator has.\<close>

definition cached_or_fetched :: "bytes \<Rightarrow> (engine, block) py" where
  "cached_or_fetched i =
     bindP (gets (\<lambda>s. block_from_id (en_cache s) i)) (\<lambda>found. case found of
       Some b \<Rightarrow> ret b
     | None \<Rightarrow> in_service (get_block i))"

definition handle_invalid_block :: "libs \<Rightarrow> bytes \<Rightarrow> (engine, unit) py" where
  "handle_invalid_block L block_id =
     bindP (cached_or_fetched block_id) (\<lambda>b.
     bindP (from_outcome (lib_parse L (b_payload b))) (\<lambda>consensus.
     thenP (in_node (penalize (hex (b_signer_id b))))
    (thenP (in_node (downgrade (hex (b_signer_id b))))
    (thenP (next_slot L (of_int (cd_timestamp consensus)))
      (modify (add_validation (- 1)))))))"

definition finish_catch_up :: "block \<Rightarrow> consensus_data \<Rightarrow> engine \<Rightarrow> engine" where
  "finish_catch_up b consensus s =
     (if node_state_of s = CATCHING_UP \<and> Some (b_block_num b) = en_ff_target s then
        s\<lparr>en_node := node_bootstrap (cd_epoch consensus) (cd_witness_idx consensus) (cd_candidates consensus)
            (cd_num_slots consensus) (en_node s),
          en_bootstrap_msgs := [], en_requested := False\<rparr>
      else s)"

definition handle_committed_block :: "libs \<Rightarrow> bytes \<Rightarrow> (engine, unit) py" where
  "handle_committed_block L block_id =
     bindP (gets (\<lambda>s. dget (en_bootstrap_cache s) (hex block_id))) (\<lambda>found.
     bindP (case found of Some b \<Rightarrow> ret b | None \<Rightarrow> cached_or_fetched block_id) (\<lambda>b.
     bindP (from_outcome (lib_parse L (b_payload b))) (\<lambda>consensus.
     thenP (modify (\<lambda>s. s\<lparr>en_pre_committed := (b_block_id b, b_block_num b)\<rparr>))
    (thenP (in_node (reward (hex (b_signer_id b))))
    (thenP (modify (add_commit (- 1)))
    (thenP (modify (finish_catch_up b consensus))
    (thenP (next_slot L (of_int (cd_timestamp consensus)))
    (bindP (gets (\<lambda>s. block_by_num_and_signer (en_cache s) (b_block_num b + 1) (signer_of s))) (\<lambda>next. case next of
       None \<Rightarrow> ret ()
     | Some nb \<Rightarrow> check_all [b_block_id nb])))))))))"

definition handle_peer_connected :: "bytes \<Rightarrow> (engine, unit) py" where
  "handle_peer_connected peer_id =
     bindP (gets node_state_of) (\<lambda>st.
     thenP (whenP (st = WAITING_FOR_BOOTSTRAP) (in_node (send_bootstrap_request (hex peer_id))))
    (bindP (gets (\<lambda>s. dget (en_ips s) (hex peer_id))) (\<lambda>found. bindP (from_option KeyError found) (\<lambda>ip.
       in_node (cn_peer_connected (hex peer_id) ip)))))"

section \<open>Messages of the peers\<close>

text \<open>The chain heads that the bootstrap messages speak of, with their numbers and counts.\<close>

fun note_head :: "bytes \<Rightarrow> int \<Rightarrow> (bytes, int \<times> int) dict \<Rightarrow> (bytes, int \<times> int) dict" where
  "note_head i num d = (case dget d i of
     Some (n, c) \<Rightarrow> dput i (n, c + 1) d
   | None \<Rightarrow> dput i (num, 1) d)"

fun count_heads :: "bootstrap list \<Rightarrow> (bytes, int \<times> int) dict \<Rightarrow> (bytes, int \<times> int) dict" where
  "count_heads [] d = d"
| "count_heads (m # ms) d =
     count_heads ms (note_head (bs_pre_id m) (bs_num_blocks m - 1) (note_head (bs_chain_head_id m) (bs_num_blocks m) d))"

text \<open>\<open>blocks.sort(key=itemgetter(2, 1), reverse=True)\<close>: by count, then by number.\<close>

definition rank_heads :: "bootstrap list \<Rightarrow> (bytes \<times> int \<times> int) list" where
  "rank_heads ms = sort_key_desc (\<lambda>(i, num, c). (c, num)) (count_heads ms [])"

definition handle_bootstrap :: "libs \<Rightarrow> bootstrap \<Rightarrow> (engine, unit) py" where
  "handle_bootstrap L bs =
     thenP (modify (\<lambda>s. s\<lparr>en_bootstrap_msgs := en_bootstrap_msgs s @ [bs]\<rparr>))
    (bindP (gets (\<lambda>s. rank_heads (en_bootstrap_msgs s))) (\<lambda>heads.
     bindP (from_option IndexError (case heads of [] \<Rightarrow> None | h # _ \<Rightarrow> Some h)) (\<lambda>(head_id, num, c).
     bindP (in_node online_peers) (\<lambda>online.
     bindP (gets (\<lambda>s. consensus_amount online (dn_voting (en_node s)) - 1)) (\<lambda>needed.
     thenP (whenP (c \<ge> needed) (fastforward L head_id num))
    (bindP (gets (\<lambda>s. int (length (en_bootstrap_msgs s)))) (\<lambda>received.
     bindP (in_node online_peers) (\<lambda>online.
       whenP (received = online - 1)
         (modify (\<lambda>s. s\<lparr>en_bootstrap_msgs := [], en_requested := False\<rparr>))))))))))"

definition handle_peer_msgs :: "libs \<Rightarrow> consensus_message \<Rightarrow> (engine, unit) py" where
  "handle_peer_msgs L msg =
     bindP (gets en_members) (\<lambda>members.
       if msg_signer msg \<notin> set members then ret ()
       else
         thenP (in_node (cn_seen (msg_signer msg)))
         (case msg_type msg of
            VOTE \<Rightarrow> in_node (handle_vote (lib_stv L) (lib_sha L) msg (msg_signer msg))
          | VOTE_RESULT \<Rightarrow>
              bindP (in_node (handle_vote_result msg (msg_signer msg))) (\<lambda>new_epoch.
                whenP new_epoch (bindP (in_node time_now) (\<lambda>now. modify (\<lambda>s. s\<lparr>en_slot_started_at := now\<rparr>))))
          | EMPTY_SLOT \<Rightarrow>
              bindP (gets signer_of) (\<lambda>expected.
                whenP (Some (msg_signer msg) = expected) (next_slot L (of_int (msg_timestamp msg))))
          | BOOTSTRAP_REQUEST \<Rightarrow>
              bindP (in_service get_chain_head) (\<lambda>head.
                in_node (send_bootstrap_message (msg_signer msg) (b_block_id head) (b_block_num head) (b_previous_id head)))
          | BOOTSTRAP \<Rightarrow> handle_bootstrap L (msg_bootstrap msg)
          | SYNC_REQUEST \<Rightarrow> ret ()))"

section \<open>Start and the main loop\<close>

text \<open>
  \<open>__init__\<close> and \<open>start\<close> up to the loop: the decoded settings (members, their addresses, the
  slots) and the chain head are given, \<open>now\<close> is the clock reading of \<open>__init__\<close>.
\<close>

definition Engine_init :: "service \<Rightarrow> ddpoa_node \<Rightarrow> rat \<Rightarrow> engine" where
  "Engine_init service node now =
     \<lparr>en_service = service, en_node = node, en_local_id = [], en_cache = BlockCache_init, en_members = [], en_ips = [],
      en_pre_committed = ([], 0), en_exit = False, en_slot_started_at = now, en_waiting_own = False,
      en_waiting_commit = 0, en_waiting_validation = 0, en_bootstrap_msgs = [], en_bootstrap_cache = [],
      en_ff_target = None, en_ff_target_id = None, en_num_slots = 0, en_requested = False, en_pre_request = now,
      en_loop_pre_request = now, en_loop_start = now, en_loop_starting = True\<rparr>"

definition engine_start :: "bytes \<Rightarrow> key list \<Rightarrow> string list \<Rightarrow> int \<Rightarrow> block \<Rightarrow> (engine, unit) py" where
  "engine_start local_id members ips slots head =
     thenP (modify (\<lambda>s. s\<lparr>en_local_id := local_id, en_members := members,
        en_ips := fold (\<lambda>(k, v). dput k v) (zip members ips) [], en_num_slots := slots\<rparr>))
    (thenP (in_node (DDPoANode_init members slots))
    (thenP (whenP (b_previous_id head \<noteq> GENESIS_BLOCK_ID) (in_node (modify (set_state WAITING_FOR_BOOTSTRAP))))
    (thenP (in_cache (cache_append head))
    (thenP (modify (\<lambda>s. s\<lparr>en_pre_committed := (b_block_id head, b_block_num head)\<rparr>))
    (bindP (in_node time_now) (\<lambda>now.
       modify (\<lambda>s. s\<lparr>en_loop_pre_request := now, en_loop_start := now, en_loop_starting := True\<rparr>)))))))"

datatype update = Block_New block | Block_Valid bytes | Block_Invalid bytes | Block_Commit bytes
  | Peer_Connected bytes | Peer_Disconnected bytes | Unknown_Update

definition handle_update :: "libs \<Rightarrow> update \<Rightarrow> (engine, unit) py" where
  "handle_update L u = (case u of
     Block_New b \<Rightarrow> handle_new_block L b
   | Block_Valid i \<Rightarrow> handle_valid_block i
   | Block_Invalid i \<Rightarrow> handle_invalid_block L i
   | Block_Commit i \<Rightarrow> handle_committed_block L i
   | Peer_Connected i \<Rightarrow> handle_peer_connected i
   | Peer_Disconnected i \<Rightarrow> ret ()
   | Unknown_Update \<Rightarrow> ret ())"

text \<open>The block production of one iteration: the own slot, then a slot that was missed.\<close>

definition own_slot :: "libs \<Rightarrow> (engine, unit) py" where
  "own_slot L =
     bindP (gets (\<lambda>s. is_current_witness (en_node s) \<and> \<not> waiting s)) (\<lambda>mine.
       whenP mine
         (bindP summarize (\<lambda>summary. case summary of
            Some _ \<Rightarrow> bindP (finalize L) (\<lambda>_. ret ())
          | None \<Rightarrow> thenP (in_node broadcast_empty_slot) (next_slot_now L))))"

definition missed_slot :: "libs \<Rightarrow> (engine, unit) py" where
  "missed_slot L =
     bindP slot_is_missed (\<lambda>missed.
     bindP (gets node_state_of) (\<lambda>st.
       whenP (missed \<and> (st = PRODUCTION \<or> st = ELECTION))
         (bindP (gets signer_of) (\<lambda>found.
          bindP (gets (\<lambda>s. case found of None \<Rightarrow> None | Some k \<Rightarrow> index_of (en_members s) k)) (\<lambda>position.
          bindP (from_option ValueError position) (\<lambda>_. handle_missed_slot L))))))"

definition produce :: "libs \<Rightarrow> (engine, unit) py" where
  "produce L =
     bindP (gets (\<lambda>s. node_state_of s \<noteq> IDLE \<and> en_waiting_validation s = 0)) (\<lambda>ready.
       whenP ready
         (bindP time_for_next_block (\<lambda>due. whenP due (thenP (own_slot L) (missed_slot L)))))"

definition vote_or_rebroadcast :: "(engine, unit) py" where
  "vote_or_rebroadcast =
     bindP (in_node should_vote) (\<lambda>b.
       if b then in_node vote
       else bindP (in_node should_rebroadcast_ballot) (\<lambda>r. whenP r (in_node rebroadcast_ballot)))"

definition retry_bootstrap :: "(engine, unit) py" where
  "retry_bootstrap =
     bindP (gets node_state_of) (\<lambda>st.
       whenP (st = WAITING_FOR_BOOTSTRAP)
         (bindP (in_node time_now) (\<lambda>now.
          bindP (gets (\<lambda>s. now - en_loop_pre_request s > 5)) (\<lambda>due.
            whenP due
              (bindP (gets (\<lambda>s. dkeys (cn_peers (en_node s)))) (\<lambda>peers.
               thenP (for_each peers (\<lambda>k. in_node (send_bootstrap_request k)))
                 (bindP (in_node time_now) (\<lambda>now. modify (\<lambda>s. s\<lparr>en_loop_pre_request := now\<rparr>))))))))) "

text \<open>While starting up: \<open>and\<close> stops at the first false operand.\<close>

definition still_starting :: "(engine, bool) py" where
  "still_starting =
     bindP (gets node_state_of) (\<lambda>st.
       if st = WAITING_FOR_BOOTSTRAP then ret False
       else bindP (in_node online_peers) (\<lambda>online.
         bindP (gets (\<lambda>s. online \<noteq> int (length (en_members s)))) (\<lambda>missing.
           if missing then bindP (in_node time_now) (\<lambda>now. gets (\<lambda>s. now - en_loop_start s < 70))
           else ret False)))"

definition active :: "libs \<Rightarrow> (engine, unit) py" where
  "active L =
     bindP (gets node_state_of) (\<lambda>st.
       whenP (st \<noteq> WAITING_FOR_BOOTSTRAP \<and> st \<noteq> CATCHING_UP)
         (thenP (produce L) (thenP vote_or_rebroadcast (in_node check_on_peers))))"

text \<open>The body of \<open>while True\<close> inside its \<open>try\<close>; the result is whether the loop goes on.\<close>

definition loop_body :: "libs \<Rightarrow> update option \<Rightarrow> (engine, bool) py" where
  "loop_body L u =
     thenP (case u of None \<Rightarrow> ret () | Some x \<Rightarrow> handle_update L x)
    (bindP (in_node node_recv) (\<lambda>received.
     thenP (case received of None \<Rightarrow> ret () | Some msg \<Rightarrow> handle_peer_msgs L msg)
    (bindP (gets en_exit) (\<lambda>leave.
       if leave then ret False
       else bindP (gets en_loop_starting) (\<lambda>starting.
         if starting then
           bindP still_starting (\<lambda>b. thenP (modify (\<lambda>s. s\<lparr>en_loop_starting := b\<rparr>)) (ret True))
         else thenP (active L) (thenP retry_bootstrap (ret True)))))))"

definition iteration :: "libs \<Rightarrow> update option \<Rightarrow> (engine, bool) py" where
  "iteration L u = try_except (loop_body L u) (\<lambda>_. True) (\<lambda>_. ret True)"

text \<open>\<open>stop()\<close>, called from another thread.\<close>

definition engine_stop :: "engine \<Rightarrow> engine" where
  "engine_stop s = s\<lparr>en_exit := True\<rparr>"

text \<open>The loop over the updates that the queue delivers, one poll each; it ends when \<open>stop\<close> was called.\<close>

fun main_loop :: "libs \<Rightarrow> update option list \<Rightarrow> (engine, unit) py" where
  "main_loop L [] = ret ()"
| "main_loop L (u # us) = bindP (iteration L u) (\<lambda>go_on. if go_on then main_loop L us else ret ())"

end
