(* ===== verification/Engine_Frames.thy ===== *)
theory Engine_Frames
  imports Engine
begin

text \<open>
  What every handler of the engine keeps. The contract \<open>engine_contract\<close> takes a relation
  between engine states through every handler, call by call, once; it asks that the relation
  is kept by the node's methods, by the calls \<open>P\<close> on the validator, and by the updates of the
  engine's attributes. Its instances are \<open>engine_frame\<close> (the invariant of the node and the
  configuration of the engine), \<open>logs_only P\<close> (every call on the validator satisfies \<open>P\<close>) and
  \<open>sticky\<close> (the flag that waits for the own block stays set).
\<close>

section \<open>The contract\<close>

text \<open>The cache as \<open>append\<close> leaves it, whatever its outcome.\<close>

definition appended :: "block \<Rightarrow> block_cache \<Rightarrow> block_cache \<Rightarrow> bool" where
  "appended b c d \<longleftrightarrow> (\<exists>v. d = fst (snd (cache_append b (c, v))))"

locale engine_contract = state_preorder R for R :: "engine \<Rightarrow> engine \<Rightarrow> bool" +
  fixes P :: "service_call \<Rightarrow> bool"
    and Q :: "block \<Rightarrow> bool"
  assumes slot_calls: "P Cancel" "P Initialize"
    and check_calls: "P (Check ids)" "P (Fail i)" "P (Ignore i)"
    and read_calls: "P Chain_Head" "P (Get_Blocks is)"
    and node_step: "node_frame (en_node s) n \<Longrightarrow> R s (s\<lparr>en_node := n\<rparr>)"
    and service_step: "P c \<Longrightarrow> R s (s\<lparr>en_service := (en_service s)\<lparr>sv_log := sv_log (en_service s) @ [c]\<rparr>\<rparr>)"
    and cache_step: "appended b (en_cache s) d \<Longrightarrow> R s (s\<lparr>en_cache := d\<rparr>)"
    and counters: "R s (add_validation k s)" "R s (add_commit k s)"
    and catch_up: "R s (begin_catch_up i num s)" "R s (finish_catch_up b cd s)"
    and own_block: "Q b \<Longrightarrow> R s (note_own_block b s)" "R s (s\<lparr>en_waiting_own := True\<rparr>)"
    and bookkeeping: "R s (s\<lparr>en_slot_started_at := x\<rparr>)" "R s (s\<lparr>en_requested := q, en_bootstrap_msgs := ms\<rparr>)"
      "R s (s\<lparr>en_bootstrap_msgs := ms, en_requested := q\<rparr>)" "R s (s\<lparr>en_bootstrap_msgs := ms\<rparr>)"
      "R s (s\<lparr>en_pre_request := x, en_requested := q\<rparr>)" "R s (s\<lparr>en_bootstrap_cache := d'\<rparr>)"
      "R s (s\<lparr>en_pre_committed := p\<rparr>)" "R s (s\<lparr>en_loop_pre_request := x\<rparr>)" "R s (s\<lparr>en_loop_starting := q\<rparr>)"
begin

lemma walk: "keeps R (from_walk r)"
  by (simp add: from_walk_def pure split: option.split)

lemma node: "keeps node_frame m \<Longrightarrow> keeps R (in_node m)"
  by (auto simp: keeps_def in_node_def run_simps split: prod.split) (metis node_step snd_conv)

lemma service:
  "P c \<Longrightarrow> keeps R (in_service (service_unit c))"
  "P Summarize \<Longrightarrow> keeps R (in_service summarize_block)"
  "P (Finalize data) \<Longrightarrow> keeps R (in_service (finalize_block data))"
  "keeps R (in_service get_chain_head)" "keeps R (in_service (get_block i))"
  by (auto simp: keeps_def in_service_def run_simps service_unit_def call_service_def summarize_block_def
      finalize_block_def get_chain_head_def get_block_def intro: service_step read_calls
      split: outcome.split option.split)

lemma cache: "keeps R (in_cache (cache_append b))"
proof (rule keepsI)
  fix s :: engine
  let ?c = "fst (snd (cache_append b (en_cache s, en_service s)))"
  have c: "appended b (en_cache s) ?c" unfolding appended_def by blast
  have "R s (s\<lparr>en_cache := ?c, en_service := (en_service s)\<lparr>sv_log := sv_log (en_service s) @ [Ignore i]\<rparr>\<rparr>)" for i
    using R_trans [OF cache_step [OF c] service_step [OF check_calls(3)]] by fastforce
  moreover have "R s (s\<lparr>en_cache := ?c, en_service := en_service s\<rparr>)"
    using cache_step [OF c] by simp
  ultimately show "R s (snd (in_cache (cache_append b) s))"
    by (auto simp: in_cache_def run_simps run_cache_append Let_def split: prod.split)
qed

lemmas calls = slot_calls check_calls read_calls
lemmas updates = counters catch_up own_block(2) bookkeeping
lemmas steps = all cond modify walk service cache calls node_frames [THEN node]

lemma slots: "keeps R (next_slot L t)" "keeps R (next_slot_now L)"
  "keeps R (handle_missed_slot L)" "keeps R (missed_slot L)"
proof -
  show ns: "keeps R (next_slot L t)" for t
    unfolding next_slot_def try_cancel_def by (intro steps) (simp add: updates)
  show now: "keeps R (next_slot_now L)"
    unfolding next_slot_now_def by (intro steps ns)
  show missed: "keeps R (handle_missed_slot L)"
    unfolding handle_missed_slot_def by (intro steps now)
  show "keeps R (missed_slot L)"
    unfolding missed_slot_def slot_is_missed_def by (intro steps missed)
qed

lemma check_all: "keeps R (check_all ids)"
  unfolding check_all_def by (intro steps) (simp add: updates)

lemma common_loop: "keeps R (common_loop k chain b)"
  by (induction k arbitrary: b) (auto intro: steps)

lemma fastforward: "keeps R (fastforward L i num)"
proof -
  have parts: "keeps R (fastforward_lagging i p)" "keeps R (fastforward_fork i p)"
    "keeps R fastforward_bootstrap" for p
    unfolding fastforward_lagging_def fastforward_fork_def fastforward_bootstrap_def common_and_forked_block_def
      case_prod_beta
    by (intro steps check_all common_loop)+
  show ?thesis
    unfolding fastforward_def by (intro steps parts) (simp_all add: updates)
qed

lemma new_block:
  assumes "Q b"
  shows "keeps R (handle_new_block L b)"
proof -
  have request: "keeps R (request_if_behind b)"
    unfolding request_if_behind_def case_prod_beta by (intro steps) (simp add: updates)
  have "keeps R (check_next_block b)"
    unfolding check_next_block_def case_prod_beta by (intro steps check_all) (rule own_block(1) [OF assms])
  moreover have "keeps R (route_new_block b)"
    unfolding route_new_block_def by (intro steps check_all request) (simp add: updates)
  ultimately show ?thesis
    unfolding handle_new_block_def by (intro steps)
qed

lemma blocks: "keeps R (handle_invalid_block L i)" "keeps R (handle_committed_block L i)"
proof -
  have fetch: "keeps R (cached_or_fetched i)"
    unfolding cached_or_fetched_def by (intro steps)
  show "keeps R (handle_invalid_block L i)" "keeps R (handle_committed_block L i)"
    unfolding handle_invalid_block_def handle_committed_block_def by (intro steps slots fetch check_all; simp add: updates)+
qed

lemma peers: "keeps R (handle_peer_connected i)" "keeps R (handle_peer_msgs L msg)"
proof -
  show "keeps R (handle_peer_connected i)"
    unfolding handle_peer_connected_def by (intro steps)
  have boot: "keeps R (handle_bootstrap L bs)" for bs
    unfolding handle_bootstrap_def case_prod_beta by (intro steps fastforward) (simp_all add: updates)
  show "keeps R (handle_peer_msgs L msg)"
    unfolding handle_peer_msgs_def
    by (cases "msg_type msg"; simp only: message_type.case) (intro steps slots boot; simp add: updates)+
qed

lemma update:
  assumes "\<And>i. u = Block_Valid i \<Longrightarrow> P (Commit i)" and "\<And>b. u = Block_New b \<Longrightarrow> Q b"
  shows "keeps R (handle_update L u)"
proof -
  have "keeps R (handle_valid_block i)" if "u = Block_Valid i" for i
    unfolding handle_valid_block_def case_prod_beta using assms(1) [OF that] by (intro steps) (simp_all add: updates)
  then show ?thesis
    unfolding handle_update_def using assms(2)
    by (cases u; simp only: update.case) (intro steps new_block blocks peers; simp)+
qed

lemma housekeeping: "keeps R vote_or_rebroadcast" "keeps R retry_bootstrap"
  "keeps R still_starting"
  unfolding vote_or_rebroadcast_def retry_bootstrap_def still_starting_def by (intro steps; simp add: updates)+

lemma own_slot:
  assumes "P Summarize" "\<And>d. P (Finalize d)"
  shows "keeps R (own_slot L)"
  unfolding own_slot_def summarize_def finalize_def by (intro steps assms slots) (simp_all add: updates)

lemma active:
  assumes "keeps R (own_slot L)"
  shows "keeps R (active L)"
  unfolding active_def produce_def time_for_next_block_def
  by (intro steps assms slots housekeeping)

lemma iteration:
  assumes "keeps R (own_slot L)"
    and "\<And>i. u = Some (Block_Valid i) \<Longrightarrow> P (Commit i)" and "\<And>b. u = Some (Block_New b) \<Longrightarrow> Q b"
  shows "keeps R (iteration L u)"
proof -
  have disp: "keeps R (case u of None \<Rightarrow> ret () | Some x \<Rightarrow> handle_update L x)"
    using assms(2,3) by (cases u) (auto intro: pure update)
  show ?thesis
    unfolding iteration_def loop_body_def
    by (rule handled, rule seq, rule disp)
      (intro steps active assms(1) peers housekeeping; simp add: updates)+
qed

end

section \<open>The invariant of the node\<close>

definition engine_frame :: "engine \<Rightarrow> engine \<Rightarrow> bool" where
  "engine_frame s t \<longleftrightarrow> node_frame (en_node s) (en_node t) \<and> en_members t = en_members s
     \<and> en_ips t = en_ips s \<and> en_local_id t = en_local_id s"

interpretation engine_frame: engine_contract engine_frame "\<lambda>_. True" "\<lambda>_. True"
  by unfold_locales
    (auto simp: engine_frame_def node_frame.R_refl add_validation_def add_commit_def begin_catch_up_def
      finish_catch_up_def node_frame_bootstrap note_own_block_def intro: node_frame.R_trans)

section \<open>Which calls reach the validator\<close>

definition logs_only :: "(service_call \<Rightarrow> bool) \<Rightarrow> engine \<Rightarrow> engine \<Rightarrow> bool" where
  "logs_only P s t \<longleftrightarrow>
     (\<exists>cs. sv_log (en_service t) = sv_log (en_service s) @ cs \<and> (\<forall>c \<in> set cs. P c))"

lemma logs_only_refl: "logs_only P s s"
  by (simp add: logs_only_def)

lemma logs_only_trans: "logs_only P s t \<Longrightarrow> logs_only P t u \<Longrightarrow> logs_only P s u"
proof -
  assume "logs_only P s t" "logs_only P t u"
  then obtain cs ds where "sv_log (en_service t) = sv_log (en_service s) @ cs" "\<forall>c \<in> set cs. P c"
    "sv_log (en_service u) = sv_log (en_service t) @ ds" "\<forall>c \<in> set ds. P c"
    by (auto simp: logs_only_def)
  then show ?thesis unfolding logs_only_def by (intro exI [of _ "cs @ ds"]) auto
qed

text \<open>No call but \<open>Commit\<close>; no call but \<open>Finalize\<close>.\<close>

definition no_commit :: "service_call \<Rightarrow> bool" where
  "no_commit c = (case c of Commit _ \<Rightarrow> False | _ \<Rightarrow> True)"

definition no_finalize :: "service_call \<Rightarrow> bool" where
  "no_finalize c = (case c of Finalize _ \<Rightarrow> False | _ \<Rightarrow> True)"

lemma logs_contract:
  assumes "\<And>c. (case c of Commit _ \<Rightarrow> False | Finalize _ \<Rightarrow> False | Summarize \<Rightarrow> False | _ \<Rightarrow> True) \<Longrightarrow> P c"
  shows "engine_contract (logs_only P) P (\<lambda>_. True)"
  using assms
  by unfold_locales
    (auto simp: logs_only_refl intro: logs_only_trans, auto simp: logs_only_def add_validation_def add_commit_def
      begin_catch_up_def finish_catch_up_def note_own_block_def)

interpretation uncommitted: engine_contract "logs_only no_commit" no_commit "\<lambda>_. True"
  by (rule logs_contract) (simp add: no_commit_def split: service_call.splits)

interpretation unfinalized: engine_contract "logs_only no_finalize" no_finalize "\<lambda>_. True"
  by (rule logs_contract) (simp add: no_finalize_def split: service_call.splits)

section \<open>The flag that waits for the own block\<close>

text \<open>Once the engine waits for its own block, the flag stays and no block is produced.\<close>

definition sticky :: "bytes \<Rightarrow> engine \<Rightarrow> engine \<Rightarrow> bool" where
  "sticky me s t \<longleftrightarrow> (en_local_id s = me \<longrightarrow> en_local_id t = me
     \<and> (en_waiting_own s \<longrightarrow> en_waiting_own t \<and> logs_only no_finalize s t))"

interpretation sticky: engine_contract "sticky me" no_finalize "\<lambda>b. b_signer_id b \<noteq> me" for me
  by unfold_locales
    (auto simp: sticky_def logs_only_refl intro: logs_only_trans, auto simp: logs_only_def no_finalize_def
      add_validation_def add_commit_def begin_catch_up_def finish_catch_up_def note_own_block_def)

lemma own_slot_frame: "keeps engine_frame (own_slot L)"
  by (rule engine_frame.own_slot) simp_all

lemma own_slot_sticky: "keeps (sticky me) (own_slot L)"
proof (rule keepsI)
  fix s
  show "sticky me s (snd (own_slot L s))"
  proof (cases "en_waiting_own s")
    case True
    then show ?thesis by (simp add: own_slot_def run_simps waiting_def sticky_def logs_only_refl)
  next
    case False
    then show ?thesis using keepsD [OF own_slot_frame, of s L] by (simp add: sticky_def engine_frame_def)
  qed
qed

lemma frame_iteration: "keeps engine_frame (iteration L u)"
  by (rule engine_frame.iteration) (simp_all add: own_slot_frame)

lemma commit_iteration:
  "(\<And>i. u \<noteq> Some (Block_Valid i)) \<Longrightarrow> keeps (logs_only no_commit) (iteration L u)"
  by (rule uncommitted.iteration) (auto intro: uncommitted.own_slot simp: no_commit_def)

lemma sticky_iteration:
  "(\<And>b. u = Some (Block_New b) \<Longrightarrow> b_signer_id b \<noteq> me) \<Longrightarrow> keeps (sticky me) (iteration L u)"
  by (rule sticky.iteration) (simp_all add: own_slot_sticky no_finalize_def)

section \<open>The size of the cache\<close>

text \<open>
  Blocks are cached under their own ids, every cached id is listed, and at most ten are listed. An id
  that is listed twice (\<open>duplicate_block_raises\<close>) does not break this, although it breaks \<open>cache_ok\<close>.
\<close>

definition cache_bounded :: "block_cache \<Rightarrow> bool" where
  "cache_bounded c \<longleftrightarrow> wf_dict (bc_cache c) \<and> set (dkeys (bc_cache c)) \<subseteq> set (bc_cache_ids c) \<and> length (bc_cache_ids c) \<le> 10
     \<and> (\<forall>i b. dget (bc_cache c) i = Some b \<longrightarrow> b_block_id b = i)"

lemma append_bounded:
  assumes "cache_bounded c" "appended b c d"
  shows "cache_bounded d"
proof -
  obtain v where d: "d = fst (snd (cache_append b (c, v)))" using assms(2) by (auto simp: appended_def)
  define D where "D = dput (b_block_id b) b (bc_cache c)"
  obtain h T where ids: "bc_cache_ids c @ [b_block_id b] = h # T" by (cases "bc_cache_ids c") simp_all
  have D: "wf_dict D" "set (dkeys D) \<subseteq> set (h # T)" "\<And>i x. dget D i = Some x \<Longrightarrow> b_block_id x = i" "length T \<le> 10"
    using assms(1) arg_cong [OF ids, of length] arg_cong [OF ids, of set]
    by (auto simp: D_def cache_bounded_def dict_simps dict.ok_ins split: if_splits)
  have "d = (if length (h # T) \<le> 10 then \<lparr>bc_cache = D, bc_cache_ids = h # T\<rparr>
      else if dget D h = None then \<lparr>bc_cache = D, bc_cache_ids = T\<rparr> else \<lparr>bc_cache = ddel h D, bc_cache_ids = T\<rparr>)"
    by (simp add: d run_cache_append Let_def ids D_def)
  then show ?thesis
    using D dict.keys_look [of h D] by (auto simp: cache_bounded_def dict_simps dict.ok_del)
qed

definition keeps_bound :: "engine \<Rightarrow> engine \<Rightarrow> bool" where
  "keeps_bound s t \<longleftrightarrow> (cache_bounded (en_cache s) \<longrightarrow> cache_bounded (en_cache t))"

interpretation keeps_bound: engine_contract keeps_bound "\<lambda>_. True" "\<lambda>_. True"
  by unfold_locales
    (auto simp: keeps_bound_def add_validation_def add_commit_def begin_catch_up_def finish_catch_up_def
      note_own_block_def intro: append_bounded)

lemma bounded_iteration: "keeps keeps_bound (iteration L u)"
  by (rule keeps_bound.iteration) (simp_all add: keeps_bound.own_slot)

end
