(* ===== verification/Engine_Properties.thy ===== *)
theory Engine_Properties
  imports Node_Protocol Engine_Frames
begin

text \<open>
  Properties of the engine of \<open>engine/ddpoa_engine.py\<close>: runs of the main loop interleaved with
  the events of the overlay network and the timers, the rules for committing, failing and
  producing blocks, catching up, and what the handlers do on their branches.
\<close>

section \<open>Runs of the engine\<close>

text \<open>One iteration of the loop with the update it polled, or an event of another thread between
  two calls: a message arrives, a peer's connect timer or ping, the ballot timer, \<open>stop\<close>.\<close>

datatype engine_event = Iteration "update option" | Message_Arrives consensus_message
  | Connect_Fires key | Peer_Pinged key | Ballot_Timer | Stop

definition node_event :: "libs \<Rightarrow> node_call \<Rightarrow> engine \<Rightarrow> engine" where
  "node_event L c s = s\<lparr>en_node := node_step (lib_stv L) (lib_sha L) c (en_node s)\<rparr>"

definition engine_step :: "libs \<Rightarrow> engine_event \<Rightarrow> engine \<Rightarrow> engine" where
  "engine_step L ev s = (case ev of
     Iteration u \<Rightarrow> snd (iteration L u s)
   | Message_Arrives m \<Rightarrow> node_event L (Arrive m) s
   | Connect_Fires k \<Rightarrow> node_event L (Connect_Timer k) s
   | Peer_Pinged k \<Rightarrow> node_event L (Ping k) s
   | Ballot_Timer \<Rightarrow> node_event L Timer s
   | Stop \<Rightarrow> engine_stop s)"

definition engine_run :: "libs \<Rightarrow> engine_event list \<Rightarrow> engine \<Rightarrow> engine" where
  "engine_run L evs s = fold (engine_step L) evs s"

definition started :: "bytes \<Rightarrow> key list \<Rightarrow> string list \<Rightarrow> int \<Rightarrow> block \<Rightarrow> service
    \<Rightarrow> (nat \<Rightarrow> string \<Rightarrow> bool) \<Rightarrow> (nat \<Rightarrow> rat) \<Rightarrow> (nat \<Rightarrow> rat) \<Rightarrow> engine" where
  "started local_id members ips slots head service net clock rnd =
     snd (engine_start local_id members ips slots head
       (Engine_init service (blank_node (hex local_id) net clock rnd) (clock 0)))"

definition reachable_engine :: "libs \<Rightarrow> key list \<Rightarrow> engine \<Rightarrow> bool" where
  "reachable_engine L members s \<longleftrightarrow> (\<exists>local_id ips slots head service net clock rnd evs.
     hex local_id \<in> set members
     \<and> s = engine_run L evs (started local_id members ips slots head service net clock rnd))"

lemma engine_step_frame: "engine_frame s (engine_step L ev s)"
proof -
  have node: "engine_frame s (node_event L c s)" for c
    by (simp add: engine_frame_def node_event_def node_step_frame)
  show ?thesis
    by (cases ev) (simp_all add: engine_step_def node keepsD [OF frame_iteration],
      simp add: engine_frame_def engine_stop_def node_frame.R_refl)
qed

lemma engine_run_frame: "engine_frame s (engine_run L evs s)"
  unfolding engine_run_def
  by (induction evs arbitrary: s) (auto intro: engine_frame.R_refl engine_frame.R_trans [OF engine_step_frame])

lemma started_frame:
  assumes "hex local_id \<in> set members"
  obtains s0 where "engine_frame s0 (started local_id members ips slots head service net clock rnd)"
    and "en_node s0 = new_node (hex local_id) members slots net clock rnd" and "en_members s0 = members"
proof -
  define init where "init = (Engine_init service (blank_node (hex local_id) net clock rnd) (clock 0))
    \<lparr>en_local_id := local_id, en_members := members, en_ips := fold (\<lambda>(k, v). dput k v) (zip members ips) [],
     en_num_slots := slots\<rparr>"
  define rest where "rest = thenP (whenP (b_previous_id head \<noteq> GENESIS_BLOCK_ID) (in_node (modify (set_state WAITING_FOR_BOOTSTRAP))))
    (thenP (in_cache (cache_append head))
    (thenP (modify (\<lambda>s. s\<lparr>en_pre_committed := (b_block_id head, b_block_num head)\<rparr>))
    (bindP (in_node time_now) (\<lambda>now.
       modify (\<lambda>s. s\<lparr>en_loop_pre_request := now, en_loop_start := now, en_loop_starting := True\<rparr>)))))"
  have start: "engine_start local_id members ips slots head =
      thenP (modify (\<lambda>s. s\<lparr>en_local_id := local_id, en_members := members,
        en_ips := fold (\<lambda>(k, v). dput k v) (zip members ips) [], en_num_slots := slots\<rparr>))
        (thenP (in_node (DDPoANode_init members slots)) rest)"
    by (simp add: engine_start_def rest_def)
  let ?n = "new_node (hex local_id) members slots net clock rnd"
  have node: "DDPoANode_init members slots (blank_node (hex local_id) net clock rnd) = (Return (), ?n)"
    using new_node_facts(9) [OF assms refl] by (simp add: new_node_def prod_eq_iff)
  have "en_node init = blank_node (hex local_id) net clock rnd" by (simp add: init_def Engine_init_def)
  then have run: "started local_id members ips slots head service net clock rnd = snd (rest (init\<lparr>en_node := ?n\<rparr>))"
    by (simp add: started_def start run_then run_modify in_node_def run_on_field node init_def [symmetric])
  have "keeps node_frame (modify (set_state WAITING_FOR_BOOTSTRAP))"
    by (rule node_frame.modify) simp
  then have "keeps engine_frame rest"
    unfolding rest_def
    by (intro engine_frame.steps engine_frame.node) (simp_all add: engine_frame_def node_frame.R_refl)
  then have "engine_frame (init\<lparr>en_node := ?n\<rparr>) (started local_id members ips slots head service net clock rnd)"
    unfolding run by (rule keepsD)
  then show thesis by (rule that) (simp_all add: init_def)
qed

lemma reachable_engine_facts:
  assumes "reachable_engine L members s"
  shows "node_ok (en_node s)" "set (dkeys (cn_peers (en_node s))) = set members"
    "vs_peer_keys (dn_voting (en_node s)) = members" "score_at (cn_key (en_node s)) (en_node s) = Some 1"
    "cn_key (en_node s) \<in> set members" "en_members s = members"
proof -
  obtain local_id ips slots head service net clock rnd evs where k: "hex local_id \<in> set members"
      and s: "s = engine_run L evs (started local_id members ips slots head service net clock rnd)"
    using assms by (auto simp: reachable_engine_def)
  obtain s0 where s0: "engine_frame s0 (started local_id members ips slots head service net clock rnd)"
      "en_node s0 = new_node (hex local_id) members slots net clock rnd" "en_members s0 = members"
    using k by (rule started_frame)
  have f: "engine_frame s0 s" unfolding s using s0(1) engine_run_frame by (rule engine_frame.R_trans)
  note new = new_node_facts [OF k refl, of slots net clock rnd]
  show "node_ok (en_node s)" "set (dkeys (cn_peers (en_node s))) = set members"
    "vs_peer_keys (dn_voting (en_node s)) = members" "score_at (cn_key (en_node s)) (en_node s) = Some 1"
    "cn_key (en_node s) \<in> set members" "en_members s = members"
    using f new s0 k by (auto simp: engine_frame_def node_frame_def)
qed

section \<open>Properties\<close>

text \<open>C16: in every engine that any run reaches, whatever updates, messages and timer events come and
  whatever exceptions they cause, the membership is the configured one, every score is a positive
  representable number of at most 1 and the own one is 1, a ballot can be filled with every member
  exactly once, connected peers can be called, and the epoch's witness list fits its slots.\<close>

theorem engine_invariant:
  assumes "reachable_engine L members s"
  shows "en_members s = members \<and> set (dkeys (cn_peers (en_node s))) = set members
    \<and> (\<forall>k \<in> set members. \<exists>x. score_at k (en_node s) = Some x \<and> score_ok x)
    \<and> score_at (cn_key (en_node s)) (en_node s) = Some 1
    \<and> (\<exists>b. fst (draw_ballot (en_node s)) = Return b \<and> mset b = mset members)
    \<and> comm_ok (cn_comm (en_node s)) \<and> voting_ok (dn_voting (en_node s)) \<and> epoch_ok (dn_epoch (en_node s))"
proof -
  note facts = reachable_engine_facts [OF assms]
  have known: "\<exists>p. dget (cn_peers (en_node s)) k = Some p \<and> score_ok (pn_score p)" if "k \<in> set members" for k
  proof -
    have "k \<in> set (dkeys (cn_peers (en_node s)))" using that facts(2) by simp
    then obtain p where "dget (cn_peers (en_node s)) k = Some p" unfolding dict.keys_look by auto
    then show ?thesis using facts(1) by (auto simp: node_ok_def scores_ok_def score_at_def)
  qed
  then have scores: "\<exists>x. score_at k (en_node s) = Some x \<and> score_ok x" if "k \<in> set members" for k
    using that by (force simp: score_at_def)
  have "\<exists>b. fill_ballot (dn_rand (en_node s)) (dn_rtick (en_node s)) (cn_peers (en_node s)) (dn_voting (en_node s)) = Return b
      \<and> mset b = mset (vs_peer_keys (dn_voting (en_node s)))"
    by (rule fill_ballot_permutes) (use facts(3) known in auto)
  then have "\<exists>b. fst (draw_ballot (en_node s)) = Return b \<and> mset b = mset members"
    using facts(3) by (auto simp: draw_ballot_def)
  then show ?thesis using facts scores by (auto simp: node_ok_def)
qed

definition test_libs :: libs where
  "test_libs = \<lparr>lib_stv = (\<lambda>_ _ _. Return []), lib_sha = id, lib_parse = (\<lambda>_. Raise DecodeError),
     lib_serialize = (\<lambda>_. Return []), lib_same = (\<lambda>_ _. False)\<rparr>"

definition test_engine :: engine where
  "test_engine = started ''a'' [hex ''a'', hex ''b''] [''x'', ''y''] 1 (test_block ''h'' GENESIS_BLOCK_ID 0)
     test_service (\<lambda>_ _. True) (\<lambda>i. 0) (\<lambda>i. 1/2)"

lemma reachable_test_engine: "reachable_engine L [hex ''a'', hex ''b''] (engine_run L evs test_engine)"
  unfolding reachable_engine_def test_engine_def
  by (intro exI conjI) (rule list.set_intros(1), rule refl)

theorem engine_invariant_witness:
  "\<exists>b. fst (draw_ballot (en_node (engine_run test_libs [Iteration (Some (Block_Valid ''q'')), Ballot_Timer] test_engine))) = Return b
    \<and> mset b = {# hex ''a'', hex ''b'' #}"
  using engine_invariant [OF reachable_test_engine [of test_libs "[Iteration (Some (Block_Valid ''q'')), Ballot_Timer]"]]
  by simp

text \<open>C1: the commit rule: when the validator reports a block as valid, the engine makes exactly one
  further call, which commits it when the block extends the last committed one and comes from the
  expected signer with the next number, or when the node is catching up and the block extends the
  last committed one, and fails it otherwise; no other state but the two counters changes.\<close>

theorem commit_rule:
  assumes "get_block i (en_service s) = (Return b, svc)"
  defines "next \<equiv> Some (hex (b_signer_id b)) = signer_of s \<and> b_previous_id b = fst (en_pre_committed s)
      \<and> b_block_num b = snd (en_pre_committed s) + 1"
    and "ahead \<equiv> node_state_of s = CATCHING_UP \<and> b_previous_id b = fst (en_pre_committed s)"
  shows "snd (handle_valid_block i s) = s
    \<lparr>en_service := svc\<lparr>sv_log := sv_log svc @ [if ahead \<or> next then Commit i else Fail i]\<rparr>,
     en_waiting_validation := en_waiting_validation s - 1,
     en_waiting_commit := en_waiting_commit s + (if next \<and> \<not> ahead then 1 else 0)\<rparr>"
proof -
  obtain pre_id pre_num where pre: "en_pre_committed s = (pre_id, pre_num)" by force
  note run = handle_valid_block_def run_simps in_service_def assms(1) service_unit_def call_service_def
    add_validation_def add_commit_def node_state_of_def signer_of_def pre
  consider "ahead" | "\<not> ahead" "next" | "\<not> ahead" "\<not> next" by blast
  then show ?thesis
  proof cases
    case 1
    then have "dn_state (en_node s) = CATCHING_UP" "b_previous_id b = pre_id"
      by (simp_all add: ahead_def node_state_of_def pre)
    with 1 show ?thesis by (simp add: run)
  next
    case 2
    then have "dn_state (en_node s) \<noteq> CATCHING_UP" "b_previous_id b = pre_id" "b_block_num b = pre_num + 1"
      "expected_signer (en_node s) = Some (hex (b_signer_id b))"
      by (auto simp: ahead_def next_def node_state_of_def signer_of_def pre)
    with 2 show ?thesis by (simp add: run)
  next
    case 3
    then have "dn_state (en_node s) = CATCHING_UP \<Longrightarrow> b_previous_id b \<noteq> pre_id"
      "Some (hex (b_signer_id b)) = expected_signer (en_node s) \<Longrightarrow> b_previous_id b = pre_id \<Longrightarrow> b_block_num b \<noteq> pre_num + 1"
      by (auto simp: ahead_def next_def node_state_of_def signer_of_def pre)
    with 3 show ?thesis by (simp add: run)
  qed
qed

text \<open>C2: blocks are committed in no other way: an iteration of the loop that does not handle a report of
  a valid block never asks the validator to commit anything.\<close>

theorem no_other_commit:
  assumes "\<And>i. u \<noteq> Some (Block_Valid i)"
  shows "\<exists>cs. sv_log (en_service (snd (iteration L u s))) = sv_log (en_service s) @ cs \<and> (\<forall>i. Commit i \<notin> set cs)"
  using keepsD [OF commit_iteration [OF assms], of s L]
  by (auto simp: logs_only_def no_commit_def split: service_call.splits)

theorem no_other_commit_witness:
  "\<exists>cs. sv_log (en_service (snd (iteration test_libs (Some (Block_New (test_block ''i'' ''h'' 1))) test_engine)))
      = sv_log (en_service test_engine) @ cs \<and> (\<forall>i. Commit i \<notin> set cs)"
  by (rule no_other_commit) simp

definition serving :: "block \<Rightarrow> engine \<Rightarrow> engine" where
  "serving b s = s\<lparr>en_service := test_service\<lparr>sv_blocks := (\<lambda>_ _. Return [(b_block_id b, b)])\<rparr>\<rparr>"

lemma get_block_serving: "get_block (b_block_id b) (en_service (serving b s)) =
    (Return b, (en_service (serving b s))\<lparr>sv_log := [Get_Blocks [b_block_id b]]\<rparr>)"
  by (simp add: get_block_def run_simps call_service_def serving_def test_service_def dget_def)

theorem commit_rule_witness:
  "sv_log (en_service (snd (handle_valid_block ''i'' (serving (test_block ''i'' ''h'' 7) test_engine))))
    = [Get_Blocks [''i''], Fail ''i'']"
proof -
  let ?s = "serving (test_block ''i'' ''h'' 7) test_engine"
  have get: "get_block ''i'' (en_service ?s) =
      (Return (test_block ''i'' ''h'' 7), (en_service ?s)\<lparr>sv_log := [Get_Blocks [''i'']]\<rparr>)"
    using get_block_serving [of "test_block ''i'' ''h'' 7" test_engine] by (simp add: test_block_def)
  have "node_state_of ?s = IDLE" "signer_of ?s = None" by code_simp+
  with commit_rule [OF get] show ?thesis by simp
qed

text \<open>C3: the production rule: an engine asks the validator to finalise a block only while it produces
  (not while it waits for a bootstrap or catches up, and not while idle), in a slot of its own,
  more than \<open>BLOCK_INTERVAL\<close> seconds after the slot started, and while it waits for no own block, no
  validation and no commit.\<close>

theorem production_rule:
  assumes "\<not> logs_only no_finalize s (snd (active L s))"
  shows "node_state_of s \<in> {PRODUCTION, ELECTION} \<and> is_current_witness (en_node s) \<and> \<not> waiting s
    \<and> en_waiting_validation s = 0
    \<and> cn_clock (en_node s) (cn_tick (en_node s)) - en_slot_started_at s > BLOCK_INTERVAL"
proof -
  define t where "t = s\<lparr>en_node := (en_node s)\<lparr>cn_tick := Suc (cn_tick (en_node s))\<rparr>\<rparr>"
  have due: "time_for_next_block s = (Return (cn_clock (en_node s) (cn_tick (en_node s)) - en_slot_started_at s > BLOCK_INTERVAL), t)"
    by (simp add: time_for_next_block_def run_simps in_node_def time_now_def t_def)
  have log: "logs_only no_finalize s t" by (simp add: t_def logs_only_def)
  have rest: "keeps (logs_only no_finalize) (thenP vote_or_rebroadcast (in_node check_on_peers))"
    "keeps (logs_only no_finalize) (missed_slot L)"
    by (intro unfinalized.seq unfinalized.housekeeping unfinalized.slots unfinalized.node node_frames)+
  have running: "node_state_of s \<notin> {WAITING_FOR_BOOTSTRAP, CATCHING_UP}"
    using assms by (auto simp: active_def run_simps logs_only_refl split: if_splits)
  have own: "\<not> logs_only no_finalize t (snd (own_slot L t))" and ready: "node_state_of s \<noteq> IDLE" "en_waiting_validation s = 0"
    and time: "cn_clock (en_node s) (cn_tick (en_node s)) - en_slot_started_at s > BLOCK_INTERVAL"
  proof -
    have "\<not> logs_only no_finalize s (snd (produce L s))"
    proof
      assume p: "logs_only no_finalize s (snd (produce L s))"
      have "logs_only no_finalize s (snd (thenP (produce L) (thenP vote_or_rebroadcast (in_node check_on_peers)) s))"
        using p unfinalized.R_trans [OF p keepsD [OF rest(1)]]
        by (auto simp: run_then split: prod.split outcome.split)
      with assms running show False by (simp add: active_def run_simps)
    qed
    then have q: "node_state_of s \<noteq> IDLE" "en_waiting_validation s = 0"
        "cn_clock (en_node s) (cn_tick (en_node s)) - en_slot_started_at s > BLOCK_INTERVAL"
        "\<not> logs_only no_finalize s (snd (thenP (own_slot L) (missed_slot L) t))"
      using log by (auto simp: produce_def run_bind run_gets run_when due logs_only_refl split: if_splits)
    then show "node_state_of s \<noteq> IDLE" "en_waiting_validation s = 0"
      "cn_clock (en_node s) (cn_tick (en_node s)) - en_slot_started_at s > BLOCK_INTERVAL" by auto
    show "\<not> logs_only no_finalize t (snd (own_slot L t))"
    proof
      assume "logs_only no_finalize t (snd (own_slot L t))"
      then have o: "logs_only no_finalize s (snd (own_slot L t))" using log unfinalized.R_trans by blast
      have "logs_only no_finalize s (snd (thenP (own_slot L) (missed_slot L) t))"
        using o unfinalized.R_trans [OF o keepsD [OF rest(2)]]
        by (auto simp: run_then split: prod.split outcome.split)
      with q(4) show False by simp
    qed
  qed
  have "is_current_witness (en_node t) \<and> \<not> waiting t"
    using own by (auto simp: own_slot_def run_simps logs_only_refl split: if_splits)
  then have "is_current_witness (en_node s) \<and> \<not> waiting s"
    by (simp add: t_def is_current_witness_def waiting_def)
  then show ?thesis using running ready time by (cases "node_state_of s") auto
qed

definition producing_engine :: engine where
  "producing_engine = test_engine\<lparr>en_node := (blank_node ''k'' (\<lambda>_ _. True) (\<lambda>i. 100) (\<lambda>i. 1/2))
     \<lparr>dn_state := PRODUCTION, dn_epoch := \<lparr>ep_number = 1, ep_witness_idx = 0, ep_candidates = [],
       ep_witnesses = [''k''], ep_num_slots = 1\<rparr>\<rparr>, en_slot_started_at := 0\<rparr>"

theorem production_rule_witness: "is_current_witness (en_node producing_engine) \<and> \<not> waiting producing_engine"
proof -
  have "sv_log (en_service (snd (active test_libs producing_engine))) = [Summarize, Finalize []]"
    and "sv_log (en_service producing_engine) = []"
    by code_simp+
  then have "\<not> logs_only no_finalize producing_engine (snd (active test_libs producing_engine))"
    by (simp add: logs_only_def no_finalize_def)
  from production_rule [OF this] show ?thesis by simp
qed

text \<open>C29: one block at a time, and the way it gets stuck: once the engine waits for its own block, it
  keeps waiting and asks the validator for no further block, whatever happens, until a new block
  signed by itself is handled; the commit, failure or loss of its block does not end the wait.\<close>

theorem waits_for_own_block:
  assumes "en_waiting_own s" and "\<forall>ev \<in> set evs. \<forall>b. ev = Iteration (Some (Block_New b)) \<longrightarrow> b_signer_id b \<noteq> en_local_id s"
  shows "en_waiting_own (engine_run L evs s) \<and> logs_only no_finalize s (engine_run L evs s)"
proof -
  have step: "sticky me u (engine_step L ev u)"
    if "\<forall>b. ev = Iteration (Some (Block_New b)) \<longrightarrow> b_signer_id b \<noteq> me" for me u ev
  proof (cases ev)
    case (Iteration x)
    then show ?thesis using that keepsD [OF sticky_iteration, of x me u L] by (auto simp: engine_step_def)
  qed (simp_all add: engine_step_def node_event_def engine_stop_def sticky_def logs_only_def)
  have "sticky (en_local_id s) u (engine_run L es u)"
    if "\<forall>ev \<in> set es. \<forall>b. ev = Iteration (Some (Block_New b)) \<longrightarrow> b_signer_id b \<noteq> en_local_id s" for es u
    using that
  proof (induction es arbitrary: u)
    case (Cons ev es)
    then have "sticky (en_local_id s) u (engine_step L ev u)"
      "sticky (en_local_id s) (engine_step L ev u) (engine_run L es (engine_step L ev u))"
      by (auto intro: step)
    then show ?case by (simp add: engine_run_def) (rule sticky.R_trans)
  qed (simp add: engine_run_def sticky.R_refl)
  with assms show ?thesis by (auto simp: sticky_def)
qed

theorem waits_for_own_block_witness:
  "en_waiting_own (engine_run test_libs [Iteration (Some (Block_Commit ''q'')), Iteration (Some (Block_Invalid ''q''))]
    (test_engine\<lparr>en_waiting_own := True\<rparr>))"
  using waits_for_own_block [of "test_engine\<lparr>en_waiting_own := True\<rparr>"
    "[Iteration (Some (Block_Commit ''q'')), Iteration (Some (Block_Invalid ''q''))]" test_libs] by simp

text \<open>The guards on new blocks: a block whose signer is not a member only makes the engine fail it;
  a block from the future (its timestamp is ahead of the clock) is failed and its signer, unless it
  is the node itself, loses a quarter of its score; neither is cached or checked.\<close>

theorem new_block_guards:
  "(hex (b_signer_id b) \<notin> set (en_members s) \<longrightarrow>
      snd (handle_new_block L b s) = s\<lparr>en_service := (en_service s)\<lparr>sv_log := sv_log (en_service s) @ [Fail (b_block_id b)]\<rparr>\<rparr>)
   \<and> (hex (b_signer_id b) \<in> set (en_members s) \<longrightarrow> hex (b_signer_id b) \<noteq> cn_key (en_node s) \<longrightarrow>
      (\<forall>cd p. lib_parse L (b_payload b) = Return cd \<longrightarrow> dget (cn_peers (en_node s)) (hex (b_signer_id b)) = Some p \<longrightarrow>
        cn_clock (en_node s) (cn_tick (en_node s)) < of_int (cd_timestamp cd) \<longrightarrow>
        snd (handle_new_block L b s) = s
          \<lparr>en_node := put_peer (hex (b_signer_id b)) (p\<lparr>pn_score := penalized_score (pn_score p)\<rparr>)
              ((en_node s)\<lparr>cn_tick := Suc (cn_tick (en_node s))\<rparr>),
           en_service := (en_service s)\<lparr>sv_log := sv_log (en_service s) @ [Fail (b_block_id b)]\<rparr>\<rparr>))"
  by (auto simp: handle_new_block_def run_simps in_service_def service_unit_def call_service_def in_node_def
      time_now_def penalize_def set_score_def get_peer_def)

definition member_block :: "bytes \<Rightarrow> block" where
  "member_block i = (test_block i ''h'' 1)\<lparr>b_signer_id := ''b''\<rparr>"

theorem new_block_guards_witness:
  "sv_log (en_service (snd (handle_new_block test_libs ((member_block ''i'')\<lparr>b_signer_id := ''z''\<rparr>) test_engine)))
    = sv_log (en_service test_engine) @ [Fail ''i'']"
proof -
  have "en_members test_engine = [hex ''a'', hex ''b'']"
    using reachable_engine_facts(6) [OF reachable_test_engine [of test_libs "[]"]] by (simp add: engine_run_def)
  then show ?thesis
    using new_block_guards [of "(member_block ''i'')\<lparr>b_signer_id := ''z''\<rparr>" test_engine test_libs]
    by (simp add: member_block_def test_block_def del: hex.simps)
qed

text \<open>The guards on messages: a message whose signer is not a member is ignored altogether, and an
  EMPTY_SLOT message of a member other than the expected signer only marks the member as seen: the
  slot, the epoch and the validator are left alone.\<close>

theorem message_guards:
  "(msg_signer msg \<notin> set (en_members s) \<longrightarrow> handle_peer_msgs L msg s = (Return (), s))
   \<and> (msg_signer msg \<in> set (en_members s) \<longrightarrow> msg_type msg = EMPTY_SLOT \<longrightarrow> Some (msg_signer msg) \<noteq> signer_of s \<longrightarrow>
        handle_peer_msgs L msg s = in_node (cn_seen (msg_signer msg)) s)"
proof -
  have "signer_of (snd (in_node (cn_seen k) s)) = signer_of s" for k
  proof -
    obtain r t where rt: "cn_seen k (en_node s) = (r, t)" by force
    have "base_frame (en_node s) t" using frame_seen rt by (rule keeps_run)
    then show ?thesis
      by (simp add: in_node_def run_simps rt signer_of_def expected_signer_def base_frame_attributes)
  qed
  then have "Some (msg_signer msg) \<noteq> signer_of s \<Longrightarrow>
      thenP (in_node (cn_seen (msg_signer msg))) (bindP (gets signer_of) (\<lambda>expected.
        whenP (Some (msg_signer msg) = expected) (next_slot L (of_int (msg_timestamp msg))))) s
      = in_node (cn_seen (msg_signer msg)) s"
    by (auto simp: run_then run_bind run_gets run_when split: prod.split outcome.split)
      (metis snd_conv)+
  then show ?thesis by (auto simp: handle_peer_msgs_def run_bind run_gets run_ret)
qed

theorem message_guards_witness:
  "handle_peer_msgs test_libs (ConsensusMessage EMPTY_SLOT) test_engine = (Return (), test_engine)"
proof -
  have "en_members test_engine = [hex ''a'', hex ''b'']"
    using reachable_engine_facts(6) [OF reachable_test_engine [of test_libs "[]"]] by (simp add: engine_run_def)
  then show ?thesis
    using message_guards [of "ConsensusMessage EMPTY_SLOT" test_engine test_libs] by (simp add: ConsensusMessage_def)
qed

text \<open>C38: while the node waits for a bootstrap, a peer that connects and is not in the overlay table yet
  makes \<open>_handle_peer_connected\<close> raise a \<open>KeyError\<close> from the bootstrap request, before the peer is
  added: the table of peers stays as it is.\<close>

theorem connect_while_waiting_raises:
  assumes "node_state_of s = WAITING_FOR_BOOTSTRAP" and "dget (cm_peers (cn_comm (en_node s))) (hex i) = None"
  shows "fst (handle_peer_connected i s) = Raise KeyError
    \<and> cn_comm (en_node (snd (handle_peer_connected i s))) = cn_comm (en_node s)"
  using assms
  by (simp add: handle_peer_connected_def run_simps in_node_def send_bootstrap_request_def send_to_def stamp_def
      time_now_def in_comm_def comm_send_def)

definition waiting_engine :: engine where
  "waiting_engine = test_engine\<lparr>en_node := (blank_node ''k'' (\<lambda>_ _. True) (\<lambda>i. 100) (\<lambda>i. 1/2))
     \<lparr>dn_state := WAITING_FOR_BOOTSTRAP, cn_peers := [(''k'', PeerNode ''k'' 0)]\<rparr>, en_loop_pre_request := 0\<rparr>"

theorem connect_while_waiting_raises_witness:
  "fst (handle_peer_connected ''b'' waiting_engine) = Raise KeyError"
  using connect_while_waiting_raises [of waiting_engine "''b''"]
  by (simp add: waiting_engine_def node_state_of_def blank_node_def Communicator_init_def)

text \<open>The retry of the bootstrap request fails likewise: as soon as some known member is not in the
  overlay table (the node itself is a known member and never connects to itself), the loop raises a \<open>KeyError\<close> and the timer is not
  reset.\<close>

theorem bootstrap_retry_raises:
  assumes "node_state_of s = WAITING_FOR_BOOTSTRAP"
    and "cn_clock (en_node s) (cn_tick (en_node s)) - en_loop_pre_request s > 5"
    and "k \<in> set (dkeys (cn_peers (en_node s)))" and "dget (cm_peers (cn_comm (en_node s))) k = None"
  shows "fst (retry_bootstrap s) = Raise KeyError
    \<and> en_loop_pre_request (snd (retry_bootstrap s)) = en_loop_pre_request s"
proof -
  have sent: "dget (cm_peers (cn_comm (en_node t))) j = None \<Longrightarrow>
      fst (in_node (send_bootstrap_request j) t) = Raise KeyError" for j t
    by (simp add: run_simps in_node_def send_bootstrap_request_def send_to_def stamp_def time_now_def in_comm_def comm_send_def)
  have keeps: "cm_peers (cn_comm (en_node (snd (in_node (send_bootstrap_request j) t)))) = cm_peers (cn_comm (en_node t))"
    "en_loop_pre_request (snd (in_node (send_bootstrap_request j) t)) = en_loop_pre_request t" for j t
    by (simp_all add: run_simps in_node_def send_bootstrap_request_def send_to_def stamp_def time_now_def in_comm_def
        comm_send_def peer_send_frame split: option.split)
  have total: "fst (in_node (send_bootstrap_request j) t) \<in> {Return (), Raise KeyError}" for j t
    by (simp add: run_simps in_node_def send_bootstrap_request_def send_to_def stamp_def time_now_def in_comm_def
        comm_send_def split: option.split)
  have loop: "fst (for_each ks (\<lambda>j. in_node (send_bootstrap_request j)) t) = Raise KeyError
      \<and> en_loop_pre_request (snd (for_each ks (\<lambda>j. in_node (send_bootstrap_request j)) t)) = en_loop_pre_request t"
    if "k \<in> set ks" "dget (cm_peers (cn_comm (en_node t))) k = None" for ks t
    using that
  proof (induction ks arbitrary: t)
    case (Cons j ks)
    obtain r u where ru: "in_node (send_bootstrap_request j) t = (r, u)" by force
    show ?case
    proof (cases r)
      case (Return x)
      then have "k \<in> set ks" using Cons.prems sent [of t j] ru by auto
      moreover have "dget (cm_peers (cn_comm (en_node u))) k = None" "en_loop_pre_request u = en_loop_pre_request t"
        using keeps [of j t] ru Cons.prems(2) by simp_all
      ultimately show ?thesis using Cons.IH [of u] ru Return by (simp add: run_then)
    next
      case (Raise e)
      then show ?thesis using total [of j t] keeps(2) [of j t] ru by (simp add: run_then)
    next
      case Hang
      then show ?thesis using total [of j t] ru by simp
    qed
  qed simp
  define t where "t = s\<lparr>en_node := (en_node s)\<lparr>cn_tick := Suc (cn_tick (en_node s))\<rparr>\<rparr>"
  have now: "in_node time_now s = (Return (cn_clock (en_node s) (cn_tick (en_node s))), t)"
    by (simp add: in_node_def run_simps time_now_def t_def)
  have t: "dkeys (cn_peers (en_node t)) = dkeys (cn_peers (en_node s))" "cn_comm (en_node t) = cn_comm (en_node s)"
    "en_loop_pre_request t = en_loop_pre_request s" by (simp_all add: t_def)
  show ?thesis
    using loop [of "dkeys (cn_peers (en_node s))" t] assms
    by (auto simp: retry_bootstrap_def run_bind run_gets run_when now t run_then split: prod.split outcome.split)
qed

theorem bootstrap_retry_raises_witness: "fst (retry_bootstrap waiting_engine) = Raise KeyError"
  using bootstrap_retry_raises [of waiting_engine "''k''"]
  by (simp add: waiting_engine_def node_state_of_def blank_node_def Communicator_init_def dkeys_def)

section \<open>Slots and catching up\<close>

text \<open>What remains of \<open>_next_slot\<close> after the node's part leaves the node alone.\<close>

definition same_node :: "engine \<Rightarrow> engine \<Rightarrow> bool" where
  "same_node s t \<longleftrightarrow> en_node t = en_node s \<and> en_pre_committed t = en_pre_committed s
     \<and> en_waiting_commit t = en_waiting_commit s"

interpretation same_node: state_preorder same_node
  by unfold_locales (auto simp: same_node_def)

lemma same_node_service: "keeps same_node (in_service m)"
  by (simp add: keeps_def in_service_def run_simps same_node_def split: prod.split)

lemma same_node_check_all: "keeps same_node (check_all ids)"
  unfolding check_all_def
  by (intro same_node.seq same_node.modify same_node_service) (simp add: same_node_def add_validation_def)

lemma next_slot_node:
  "en_node (snd (next_slot L ts s)) = snd (node_next_slot (lib_sha L) (hex (fst (en_pre_committed s))) (en_node s))"
  "en_pre_committed (snd (next_slot L ts s)) = en_pre_committed s"
  "en_waiting_commit (snd (next_slot L ts s)) = en_waiting_commit s"
proof -
  define rest where "rest = thenP (modify (\<lambda>s. s\<lparr>en_slot_started_at := ts\<rparr>))
    (thenP try_cancel (bindP (gets (\<lambda>s. is_current_witness (en_node s))) (\<lambda>mine.
       whenP mine (in_service (service_unit Initialize)))))"
  have rest: "keeps same_node rest"
    unfolding rest_def try_cancel_def
    by (intro same_node.all same_node.modify same_node_service) (simp add: same_node_def)
  obtain r n where rn: "node_next_slot (lib_sha L) (hex (fst (en_pre_committed s))) (en_node s) = (r, n)" by force
  have "next_slot L ts s = (case in_node (node_next_slot (lib_sha L) (hex (fst (en_pre_committed s)))) s of
      (Return _, t) \<Rightarrow> rest t | (Raise e, t) \<Rightarrow> (Raise e, t) | (Hang, t) \<Rightarrow> (Hang, t))"
    by (simp add: next_slot_def run_bind run_gets run_then rest_def [symmetric])
  then have step: "snd (next_slot L ts s) = (case r of Return _ \<Rightarrow> snd (rest (s\<lparr>en_node := n\<rparr>)) | _ \<Rightarrow> s\<lparr>en_node := n\<rparr>)"
    by (simp add: in_node_def run_on_field rn split: outcome.split)
  show "en_node (snd (next_slot L ts s)) = snd (node_next_slot (lib_sha L) (hex (fst (en_pre_committed s))) (en_node s))"
    "en_pre_committed (snd (next_slot L ts s)) = en_pre_committed s"
    "en_waiting_commit (snd (next_slot L ts s)) = en_waiting_commit s"
    using keepsD [OF rest, of "s\<lparr>en_node := n\<rparr>"] by (auto simp: step rn same_node_def split: outcome.split)
qed

text \<open>A commit that is handled to the point where the next slot starts.\<close>

definition rewarded :: "key \<Rightarrow> ddpoa_node \<Rightarrow> ddpoa_node" where
  "rewarded k n = snd (reward k n)"

lemma reward_returns: "score_at k n \<noteq> None \<Longrightarrow> reward k n = (Return (), rewarded k n)"
  by (auto simp: rewarded_def reward_def set_score_def get_peer_def run_simps score_at_def)

definition committed :: "block \<Rightarrow> consensus_data \<Rightarrow> engine \<Rightarrow> engine" where
  "committed b cd s = finish_catch_up b cd (add_commit (- 1)
     (s\<lparr>en_pre_committed := (b_block_id b, b_block_num b), en_node := rewarded (hex (b_signer_id b)) (en_node s)\<rparr>))"

lemma run_handle_committed:
  assumes "block_from_id (en_cache s) i = Some b" "dget (en_bootstrap_cache s) (hex i) = None"
    and "lib_parse L (b_payload b) = Return cd" "score_at (hex (b_signer_id b)) (en_node s) \<noteq> None"
  defines "t \<equiv> snd (handle_committed_block L i s)"
  shows "en_node t = snd (node_next_slot (lib_sha L) (hex (b_block_id b)) (en_node (committed b cd s)))"
    and "en_pre_committed t = (b_block_id b, b_block_num b)" and "en_waiting_commit t = en_waiting_commit s - 1"
proof -
  define rest where "rest = bindP (gets (\<lambda>s. block_by_num_and_signer (en_cache s) (b_block_num b + 1) (signer_of s)))
    (\<lambda>next. case next of None \<Rightarrow> ret () | Some nb \<Rightarrow> check_all [b_block_id nb])"
  have rest: "keeps same_node rest" unfolding rest_def by (intro same_node.all same_node_check_all)
  have "handle_committed_block L i s = thenP (next_slot L (of_int (cd_timestamp cd))) rest (committed b cd s)"
    using assms(1-4)
    by (simp add: handle_committed_block_def run_bind run_gets run_then run_modify run_from_outcome cached_or_fetched_def
        run_ret in_node_def run_on_field reward_returns rest_def committed_def)
  then have "same_node (snd (next_slot L (of_int (cd_timestamp cd)) (committed b cd s))) t"
    using keepsD [OF rest] by (auto simp: t_def run_then same_node.R_refl split: prod.split outcome.split)
  moreover have "en_pre_committed (committed b cd s) = (b_block_id b, b_block_num b)"
    "en_waiting_commit (committed b cd s) = en_waiting_commit s - 1"
    by (simp_all add: committed_def finish_catch_up_def add_commit_def)
  ultimately show "en_node t = snd (node_next_slot (lib_sha L) (hex (b_block_id b)) (en_node (committed b cd s)))"
    "en_pre_committed t = (b_block_id b, b_block_num b)" "en_waiting_commit t = en_waiting_commit s - 1"
    using next_slot_node [of L "of_int (cd_timestamp cd)" "committed b cd s"] by (simp_all add: same_node_def)
qed

text \<open>C14: catching up joins the others: a node that is catching up and handles the commit of its target
  block, which it finds in its cache, is signed by a member and is not the one of the last slot of its epoch, gets, from the data that the producer put into the block,
  exactly the epoch that the producer itself has after the slot of that block, so that they
  expect the same signer, and it starts producing.\<close>

theorem catch_up_joins_epoch:
  assumes "node_state_of s = CATCHING_UP" and "en_ff_target s = Some (b_block_num b)"
    and "block_from_id (en_cache s) i = Some b" and "dget (en_bootstrap_cache s) (hex i) = None"
    and "score_at (hex (b_signer_id b)) (en_node s) \<noteq> None"
    and "reachable_engine L members p" and "lib_parse L (b_payload b) = Return (consensus_data_of now p)"
    and "\<not> is_over (snd (increment_witness (lib_sha L) (hex (b_block_id b)) (dn_epoch (en_node p))))"
  defines "t \<equiv> snd (handle_committed_block L i s)"
    and "p' \<equiv> snd (node_next_slot (lib_sha L) (hex (b_block_id b)) (en_node p))"
  shows "dn_epoch (en_node t) = dn_epoch p' \<and> signer_of t = expected_signer p' \<and> node_state_of t = PRODUCTION
    \<and> en_pre_committed t = (b_block_id b, b_block_num b)"
proof -
  let ?e = "dn_epoch (en_node p)" and ?sha = "lib_sha L" and ?id = "hex (b_block_id b)"
  let ?n = "en_node (committed b (consensus_data_of now p) s)"
  have st: "dn_state (rewarded k n) = dn_state n" for k n
    using keepsD [OF frame_scores(4), of n k] by (simp add: rewarded_def epoch_frame_def)
  have "epoch_ok ?e" using reachable_engine_facts(1) [OF assms(6)] by (simp add: node_ok_def)
  then have n: "dn_epoch ?n = ?e" "dn_state ?n = PRODUCTION"
    using assms(1,2) st
    by (simp_all add: committed_def finish_catch_up_def add_commit_def node_state_of_def node_bootstrap_def
        consensus_data_of_def epoch_ok_rebuild)
  have slot: "snd (node_next_slot ?sha ?id m) = slotted ?sha ?id m" if "dn_epoch m = ?e" for m
    using assms(8) that by (simp add: run_node_next_slot slotted_def)
  have "en_node t = slotted ?sha ?id ?n" "en_pre_committed t = (b_block_id b, b_block_num b)"
    using run_handle_committed(1,2) [OF assms(3,4,7,5)] slot [OF n(1)] by (simp_all add: t_def)
  moreover have "p' = slotted ?sha ?id (en_node p)" using slot by (simp add: p'_def)
  ultimately show ?thesis
    using n by (simp add: slotted_def signer_of_def expected_signer_def node_state_of_def)
qed

definition solo_data :: consensus_data where
  "solo_data = \<lparr>cd_timestamp = 0, cd_epoch = 1, cd_witness_idx = 0, cd_candidates = [hex ''a''],
     cd_consensus = ''ddpoa:0.1'', cd_num_slots = 1\<rparr>"

definition solo_libs :: libs where
  "solo_libs = test_libs\<lparr>lib_parse := (\<lambda>_. Return solo_data)\<rparr>"

definition solo_start :: engine where
  "solo_start = started ''a'' [hex ''a''] [''x''] 1 (test_block ''h'' GENESIS_BLOCK_ID 0)
     test_service (\<lambda>_ _. True) (\<lambda>i. 0) (\<lambda>i. 1/2)"

definition solo_message :: consensus_message where
  "solo_message = (result_message 1 [hex ''a''])\<lparr>msg_signer := hex ''a''\<rparr>"

definition solo_engine :: engine where
  "solo_engine = engine_run solo_libs [Message_Arrives solo_message, Iteration None] solo_start"

definition solo_block :: block where
  "solo_block = (test_block ''i'' ''h'' 1)\<lparr>b_signer_id := ''a''\<rparr>"

definition solo_behind :: engine where
  "solo_behind = solo_start\<lparr>en_node := set_state CATCHING_UP (en_node solo_start), en_ff_target := Some 1,
     en_cache := \<lparr>bc_cache = [(''i'', solo_block)], bc_cache_ids = [''i'']\<rparr>\<rparr>"

lemma reachable_solo: "reachable_engine solo_libs [hex ''a''] solo_engine"
  unfolding reachable_engine_def solo_engine_def solo_start_def
  by (intro exI conjI) (rule list.set_intros(1), rule refl)

lemma solo_epoch: "dn_epoch (en_node solo_engine) =
    \<lparr>ep_number = 1, ep_witness_idx = 0, ep_candidates = [], ep_witnesses = [hex ''a''], ep_num_slots = 1\<rparr>"
  by code_simp

theorem catch_up_joins_epoch_witness:
  "node_state_of (snd (handle_committed_block solo_libs ''i'' solo_behind)) = PRODUCTION"
proof -
  have s: "node_state_of solo_behind = CATCHING_UP" "en_ff_target solo_behind = Some (b_block_num solo_block)"
    "block_from_id (en_cache solo_behind) ''i'' = Some solo_block" "dget (en_bootstrap_cache solo_behind) (hex ''i'') = None"
    "score_at (hex (b_signer_id solo_block)) (en_node solo_behind) \<noteq> None"
    by code_simp+
  have "lib_parse solo_libs (b_payload solo_block) = Return (consensus_data_of 0 solo_engine)"
    by (simp add: solo_libs_def consensus_data_of_def solo_epoch full_candidate_list_def solo_data_def py_int_def)
  moreover have "\<not> is_over (snd (increment_witness (lib_sha solo_libs) (hex (b_block_id solo_block)) (dn_epoch (en_node solo_engine))))"
    unfolding solo_epoch by code_simp
  ultimately show ?thesis using catch_up_joins_epoch [OF s reachable_solo] by blast
qed

text \<open>C36: while the node catches up, the commit counter drifts: a valid block that extends the last
  committed one is committed without counting it, and handling its commit still subtracts one, so
  that a node that waited for nothing then has a negative counter and does not notice its next
  outstanding commit.\<close>

theorem catch_up_commit_unbalanced:
  assumes "node_state_of s = CATCHING_UP" and "get_block i (en_service s) = (Return b, svc)"
    and "b_previous_id b = fst (en_pre_committed s)" and "block_from_id (en_cache s) i = Some b"
    and "dget (en_bootstrap_cache s) (hex i) = None" and "lib_parse L (b_payload b) = Return cd"
    and "score_at (hex (b_signer_id b)) (en_node s) \<noteq> None" and "en_waiting_commit s = 0"
  defines "t \<equiv> snd (handle_committed_block L i (snd (handle_valid_block i s)))"
  shows "en_service (snd (handle_valid_block i s)) = svc\<lparr>sv_log := sv_log svc @ [Commit i]\<rparr>
    \<and> en_waiting_commit t = - 1
    \<and> \<not> en_waiting_commit (add_commit 1 t) > 0"
proof -
  obtain pre_id pre_num where pre: "en_pre_committed s = (pre_id, pre_num)" by force
  let ?u = "s\<lparr>en_service := svc\<lparr>sv_log := sv_log svc @ [Commit i]\<rparr>, en_waiting_validation := en_waiting_validation s - 1\<rparr>"
  have run: "snd (handle_valid_block i s) = ?u"
    using assms(1-3) by (simp add: handle_valid_block_def run_simps in_service_def service_unit_def call_service_def
        add_validation_def node_state_of_def pre)
  have "en_waiting_commit t = en_waiting_commit ?u - 1"
    unfolding t_def run by (rule run_handle_committed(3)) (use assms in simp_all)
  then show ?thesis using assms(8) by (simp add: run add_commit_def)
qed

definition solo_catching_up :: engine where
  "solo_catching_up = solo_behind\<lparr>en_service := test_service\<lparr>sv_blocks := (\<lambda>_ _. Return [(''i'', solo_block)])\<rparr>,
     en_pre_committed := (''h'', 0)\<rparr>"

theorem catch_up_commit_unbalanced_witness:
  "en_waiting_commit (snd (handle_committed_block solo_libs ''i'' (snd (handle_valid_block ''i'' solo_catching_up)))) = - 1"
proof -
  have get: "get_block ''i'' (en_service solo_catching_up) =
      (Return solo_block, (en_service solo_catching_up)\<lparr>sv_log := [Get_Blocks [''i'']]\<rparr>)"
    by (simp add: get_block_def run_simps call_service_def solo_catching_up_def test_service_def dget_def)
  have s: "node_state_of solo_catching_up = CATCHING_UP" "b_previous_id solo_block = fst (en_pre_committed solo_catching_up)"
    "block_from_id (en_cache solo_catching_up) ''i'' = Some solo_block"
    "dget (en_bootstrap_cache solo_catching_up) (hex ''i'') = None"
    "score_at (hex (b_signer_id solo_block)) (en_node solo_catching_up) \<noteq> None" "en_waiting_commit solo_catching_up = 0"
    by code_simp+
  have "lib_parse solo_libs (b_payload solo_block) = Return solo_data" by (simp add: solo_libs_def)
  from catch_up_commit_unbalanced [OF s(1) get s(2-4) this s(5,6)] show ?thesis by simp
qed

text \<open>A missed slot: when the expected signer \<open>w\<close> (another node) misses its slot, it loses a quarter
  of its score, the head of the candidate queue takes its place in the witness list while it goes to
  the back of the queue, and the slot advances; in an epoch without duplicate members \<open>w\<close> is no
  witness any more.\<close>

theorem missed_slot_effect:
  fixes s :: engine and L :: libs
  assumes "signer_of s = Some w" and "w \<noteq> cn_key (en_node s)" and "score_at w (en_node s) = Some x"
    and "ep_candidates (dn_epoch (en_node s)) = c # cs" and "distinct (full_candidate_list (dn_epoch (en_node s)))"
  defines "e \<equiv> snd (downgrade_witness w (dn_epoch (en_node s)))"
    and "b \<equiv> hex (fst (en_pre_committed s))"
    and "t \<equiv> snd (handle_missed_slot L s)"
  assumes "\<not> is_over (snd (increment_witness (lib_sha L) b e))"
  shows "score_at w (en_node t) = Some (penalized_score x)
    \<and> dn_epoch (en_node t) = snd (increment_witness (lib_sha L) b e)
    \<and> ep_candidates (dn_epoch (en_node t)) = cs @ [w]
    \<and> \<not> is_witness w (dn_epoch (en_node t))
    \<and> ep_witness_idx (dn_epoch (en_node t)) = ep_witness_idx (dn_epoch (en_node s)) + 1"
proof -
  obtain p where p: "dget (cn_peers (en_node s)) w = Some p" "pn_score p = x"
    using assms(3) by (auto simp: score_at_def)
  define m where "m = put_peer w (p\<lparr>pn_score := penalized_score x\<rparr>) (en_node s)"
  have pen: "penalize w (en_node s) = (Return (), m)"
    using p assms(2) by (simp add: penalize_def set_score_def get_peer_def run_simps m_def)
  have m: "dn_epoch m = dn_epoch (en_node s)" "cn_clock m = cn_clock (en_node s)" by (simp_all add: m_def put_peer_def)
  have w: "w \<in> set (ep_witnesses (dn_epoch (en_node s)))"
    using assms(1) by (simp add: signer_of_def expected_signer_def current_witness_in)
  then obtain i where i: "index_of (ep_witnesses (dn_epoch (en_node s))) w = Some i"
    using index_of_None by fastforce
  then have i': "i < length (ep_witnesses (dn_epoch (en_node s)))" "ep_witnesses (dn_epoch (en_node s)) ! i = w"
    by (auto dest: index_of_Some)
  have dg: "downgrade_witness w (dn_epoch (en_node s)) = (Return (), e)"
    using i assms(4) by (simp add: e_def downgrade_witness_def)
  have e: "ep_candidates e = cs @ [w]" "ep_witnesses e = (ep_witnesses (dn_epoch (en_node s)))[i := c]"
    using i assms(4) by (simp_all add: e_def downgrade_witness_def)
  define u where "u = m\<lparr>dn_epoch := e, cn_tick := Suc (cn_tick m)\<rparr>"
  define v where "v = s\<lparr>en_node := u\<rparr>"
  have m_signer: "expected_signer m = Some w" using assms(1) m(1) by (simp add: signer_of_def expected_signer_def)
  have down: "downgrade w m = (Return (), m\<lparr>dn_epoch := e\<rparr>)"
    by (simp add: downgrade_def in_epoch_def run_simps m(1) dg)
  have "handle_missed_slot L s = next_slot L (of_int (py_int (cn_clock m (cn_tick m)))) v"
    using assms(1)
    by (simp add: handle_missed_slot_def run_simps in_node_def pen signer_of_def m_signer down
        next_slot_now_def time_now_def u_def v_def)
  then have "en_node t = snd (node_next_slot (lib_sha L) b u)"
    using next_slot_node(1) [of L _ v] by (simp add: t_def b_def v_def)
  then have t: "en_node t = slotted (lib_sha L) b u"
    using assms(9) by (simp add: run_node_next_slot slotted_def u_def)
  have "w \<notin> set (ep_witnesses e)"
  proof -
    have d: "distinct (ep_witnesses (dn_epoch (en_node s)))" "c \<notin> set (ep_witnesses (dn_epoch (en_node s)))"
      using assms(4,5) by (auto simp: full_candidate_list_def)
    then show ?thesis
      using i' by (auto simp: e(2) set_conv_nth nth_list_update nth_eq_iff_index_eq split: if_splits)
  qed
  moreover have "score_at w u = Some (penalized_score x)"
    by (simp add: u_def m_def score_at_def put_peer_def dict_simps)
  ultimately show ?thesis
    using e(1) by (simp add: t slotted_def u_def is_witness_def score_at_def e_def)
qed

definition missing_engine :: engine where
  "missing_engine = test_engine\<lparr>en_node := (blank_node ''k'' (\<lambda>_ _. True) (\<lambda>i. 100) (\<lambda>i. 1/2))
     \<lparr>cn_peers := [(''a'', PeerNode ''a'' 0)], dn_state := PRODUCTION,
      dn_epoch := \<lparr>ep_number = 1, ep_witness_idx = 0, ep_candidates = [''b''], ep_witnesses = [''a''], ep_num_slots = 1\<rparr>\<rparr>\<rparr>"

theorem missed_slot_effect_witness:
  "\<not> is_witness ''a'' (dn_epoch (en_node (snd (handle_missed_slot test_libs missing_engine))))"
proof -
  have s: "signer_of missing_engine = Some ''a''" "''a'' \<noteq> cn_key (en_node missing_engine)"
    "score_at ''a'' (en_node missing_engine) = Some 1" "ep_candidates (dn_epoch (en_node missing_engine)) = [''b'']"
    "distinct (full_candidate_list (dn_epoch (en_node missing_engine)))"
    "\<not> is_over (snd (increment_witness (lib_sha test_libs) (hex (fst (en_pre_committed missing_engine)))
        (snd (downgrade_witness ''a'' (dn_epoch (en_node missing_engine))))))"
    by code_simp+
  from missed_slot_effect [OF s] show ?thesis by blast
qed

definition mentions :: "bootstrap list \<Rightarrow> bytes list" where
  "mentions ms = concat (map (\<lambda>m. [bs_chain_head_id m, bs_pre_id m]) ms)"

definition noted :: "(bytes, int \<times> int) dict \<Rightarrow> bytes \<Rightarrow> int" where
  "noted d i = (case dget d i of None \<Rightarrow> 0 | Some (n, c) \<Rightarrow> c)"

lemma noted_note_head: "noted (note_head i num d) j = noted d j + (if j = i then 1 else 0)"
  by (auto simp: noted_def dict_simps split: option.split prod.split)

lemma noted_count_heads: "noted (count_heads ms d) i = noted d i + int (count_list (mentions ms) i)"
  by (induction ms arbitrary: d) (simp_all add: noted_note_head mentions_def del: note_head.simps)

lemma keys_count_heads: "set (dkeys (count_heads ms d)) = set (dkeys d) \<union> set (mentions ms)"
  by (induction ms arbitrary: d) (auto simp: mentions_def dict_simps split: option.splits)

lemma wf_count_heads: "wf_dict d \<Longrightarrow> wf_dict (count_heads ms d)"
  by (induction ms arbitrary: d) (auto simp: dict.ok_ins split: option.split)

text \<open>The bootstrap head: the chain head that \<open>handle_bootstrap\<close> acts on is one that the stored
  bootstrap messages mention most often, as a head or as a parent, with its exact number of mentions;
  mentions are counted per message, not per sender, so that repeating one message \<open>k\<close> times counts
  \<open>k\<close> times.\<close>

theorem bootstrap_head:
  assumes "ms \<noteq> []"
  shows "\<exists>i num c hs. rank_heads ms = (i, num, c) # hs \<and> c = int (count_list (mentions ms) i)
    \<and> i \<in> set (mentions ms) \<and> (\<forall>j. count_list (mentions ms) j \<le> count_list (mentions ms) i)"
proof -
  let ?d = "count_heads ms []"
  have wf: "wf_dict ?d" by (simp add: wf_count_heads)
  obtain m ms' where "ms = m # ms'" using assms by (cases ms) auto
  then have ne: "bs_chain_head_id m \<in> set (dkeys ?d)" by (simp add: keys_count_heads mentions_def del: count_heads.simps)
  then have "rank_heads ms \<noteq> []"
    by (metis dkeys_def empty_iff list.set(1) list.simps(8) rank_heads_def set_empty2 set_sort_key_desc)
  then obtain i num c hs where h: "rank_heads ms = (i, num, c) # hs" by (metis neq_Nil_conv prod_cases3)
  then have "(i, num, c) \<in> set ?d" by (metis list.set_intros(1) rank_heads_def set_sort_key_desc)
  then have i: "dget ?d i = Some (num, c)" using wf by (intro item_dget)
  have count: "noted ?d j = int (count_list (mentions ms) j)" for j
    using noted_count_heads [of ms "[]" j] by (simp add: noted_def [of "[]"])
  have c: "c = int (count_list (mentions ms) i)" using count [of i] i by (simp add: noted_def)
  have "count_list (mentions ms) j \<le> count_list (mentions ms) i" for j
  proof (cases "dget ?d j")
    case None
    then have "int (count_list (mentions ms) j) = 0" using count [of j] by (simp add: noted_def)
    then show ?thesis by simp
  next
    case (Some v)
    obtain n k where v: "v = (n, k)" by force
    have "(j, n, k) \<in> set ?d" using Some v by (simp add: dget_item)
    then have "(k, n) \<le> (c, num)"
      using sort_key_desc_head [OF h [unfolded rank_heads_def], of "(j, n, k)"] by simp
    then have "k \<le> c" by (auto simp: less_eq_prod_def)
    then show ?thesis using count [of j] Some v c by (simp add: noted_def)
  qed
  moreover have "i \<in> set (mentions ms)"
    using i keys_count_heads [of ms "[]"] dict.keys_look [of i ?d] by (simp add: dkeys_def)
  ultimately show ?thesis using h c by blast
qed

theorem bootstrap_head_witness:
  "\<exists>i num c hs. rank_heads (replicate 3 \<lparr>bs_chain_head_id = ''x'', bs_num_blocks = 5, bs_pre_id = ''w''\<rparr>) = (i, num, c) # hs"
  using bootstrap_head [of "replicate 3 \<lparr>bs_chain_head_id = ''x'', bs_num_blocks = 5, bs_pre_id = ''w''\<rparr>"] by auto

text \<open>The loop survives every error: whatever exception a handler, the node, the validator or a
  parser raises, an iteration of the loop does not raise, and neither does the whole loop; only
  \<open>stop\<close> ends it, and only a call that never returns can block it.\<close>

theorem loop_never_raises:
  "fst (iteration L u s) \<noteq> Raise e \<and> fst (main_loop L us s) \<noteq> Raise e"
proof -
  have it: "fst (iteration L u s) \<noteq> Raise e" for u s
    by (auto simp: iteration_def run_simps split: prod.split outcome.split)
  have "fst (main_loop L us s) \<noteq> Raise e"
  proof (induction us arbitrary: s)
    case (Cons u us)
    obtain r t where rt: "iteration L u s = (r, t)" by force
    then show ?case using it [of u s] Cons.IH [of t] by (auto simp: run_simps split: outcome.split)
  qed (simp add: run_simps)
  with it show ?thesis by blast
qed

text \<open>C32: an outstanding commit does not stop a second one: when a witness signs two blocks \<open>i\<close> and \<open>j\<close> of the
  same height on the last committed block, and the validator reports both as valid before it reports the
  commit of the first, the engine asks to commit both, and counts two commits.\<close>

theorem equivocation_commits_twice:
  assumes "get_block i (en_service s) = (Return b, svc)"
    and "get_block j (svc\<lparr>sv_log := sv_log svc @ [Commit i]\<rparr>) = (Return c, svc')"
    and "node_state_of s \<noteq> CATCHING_UP"
    and "\<forall>x \<in> {b, c}. b_previous_id x = fst (en_pre_committed s) \<and> b_block_num x = snd (en_pre_committed s) + 1
      \<and> Some (hex (b_signer_id x)) = signer_of s"
  defines "t \<equiv> snd (handle_valid_block j (snd (handle_valid_block i s)))"
  shows "sv_log (en_service t) = sv_log svc @ [Commit i, Get_Blocks [j], Commit j]
    \<and> en_waiting_commit t = en_waiting_commit s + 2
    \<and> en_pre_committed t = en_pre_committed s"
proof -
  obtain pre_id pre_num where pre: "en_pre_committed s = (pre_id, pre_num)" by force
  have log: "sv_log svc' = sv_log svc @ [Commit i, Get_Blocks [j]]"
    using assms(2) by (auto simp: get_block_def run_simps call_service_def split: outcome.splits option.splits)
  show ?thesis
    using assms(1-4) unfolding t_def
    by (simp add: handle_valid_block_def run_simps in_service_def service_unit_def call_service_def pre log
        add_validation_def add_commit_def node_state_of_def signer_of_def)
qed

text \<open>A handler of a stopped engine leaves it stopped and finalises nothing.\<close>

definition stays_stopped :: "engine \<Rightarrow> engine \<Rightarrow> bool" where
  "stays_stopped s t \<longleftrightarrow> (en_exit s \<longrightarrow> en_exit t \<and> logs_only no_finalize s t)"

interpretation stays_stopped: engine_contract stays_stopped no_finalize "\<lambda>_. True"
  by unfold_locales
    (auto simp: stays_stopped_def logs_only_refl intro: logs_only_trans, auto simp: logs_only_def no_finalize_def
      add_validation_def add_commit_def begin_catch_up_def finish_catch_up_def note_own_block_def)

lemma stopped_body:
  assumes "en_exit s" "loop_body L u s = (r, t)"
  shows "r \<noteq> Return True" "stays_stopped s t"
proof -
  have parts: "keeps stays_stopped (case u of None \<Rightarrow> ret () | Some x \<Rightarrow> handle_update L x)"
    "keeps stays_stopped (in_node node_recv)"
    "keeps stays_stopped (case m of None \<Rightarrow> ret () | Some msg \<Rightarrow> handle_peer_msgs L msg)" for m
    by (cases u; cases m; auto intro: stays_stopped.pure stays_stopped.update stays_stopped.peers stays_stopped.node
        node_frames simp: no_finalize_def)+
  have "keeps stays_stopped (thenP (case u of None \<Rightarrow> ret () | Some x \<Rightarrow> handle_update L x)
      (bindP (in_node node_recv) (\<lambda>m. case m of None \<Rightarrow> ret () | Some msg \<Rightarrow> handle_peer_msgs L msg)))"
    by (intro stays_stopped.seq stays_stopped.bind parts)
  note prefix = keepsD [OF this, of s]
  show "r \<noteq> Return True" "stays_stopped s t"
    using assms prefix
    by (auto simp: loop_body_def run_simps stays_stopped_def split: prod.splits outcome.splits)
qed

text \<open>C31: after \<open>stop\<close> the loop ends: at once when nothing is queued, and in any case at the first iteration in
  which no handler raises, because only an exception skips the look at \<open>_exit\<close>; until then the engine stays
  stopped and finalises no block.\<close>

theorem stop_ends_loop:
  assumes "en_exit s"
  shows "(cm_queue (cn_comm (en_node s)) = [] \<longrightarrow> main_loop L (None # us) s = (Return (), s))
    \<and> (fst (iteration L u s) = Return True \<longrightarrow> (\<exists>e. fst (loop_body L u s) = Raise e))
    \<and> en_exit (snd (iteration L u s))
    \<and> (\<exists>cs. sv_log (en_service (snd (iteration L u s))) = sv_log (en_service s) @ cs \<and> (\<forall>d. Finalize d \<notin> set cs))"
proof -
  obtain r t where b: "loop_body L u s = (r, t)" by force
  note facts = stopped_body [OF assms b]
  have iter: "iteration L u s = (case r of Raise _ \<Rightarrow> (Return True, t) | _ \<Rightarrow> (r, t))"
    by (simp add: iteration_def run_simps b split: outcome.split)
  have idle: "main_loop L (None # us) s = (Return (), s)" if "cm_queue (cn_comm (en_node s)) = []"
    using assms that
    by (simp add: iteration_def loop_body_def run_simps in_node_def node_recv_def in_comm_def comm_recv_def)
  have "en_exit t" "logs_only no_finalize s t" using facts(2) assms by (simp_all add: stays_stopped_def)
  then show ?thesis
    using facts(1) idle
    by (auto simp: iter b logs_only_def no_finalize_def split: outcome.splits service_call.splits)
qed

text \<open>A producing node whose current witness signs two blocks of height 1.\<close>

definition forked_engine :: engine where
  "forked_engine = producing_engine\<lparr>en_service := test_service\<lparr>sv_blocks := (\<lambda>_ _. Return
       [(''i'', test_block ''i'' ''h'' 1), (''j'', test_block ''j'' ''h'' 1)])\<rparr>,
     en_node := (en_node producing_engine)\<lparr>dn_epoch := \<lparr>ep_number = 1, ep_witness_idx = 0, ep_candidates = [],
       ep_witnesses = [hex ''s''], ep_num_slots = 1\<rparr>\<rparr>, en_pre_committed := (''h'', 0)\<rparr>"

theorem equivocation_commits_twice_witness:
  "sv_log (en_service (snd (handle_valid_block ''j'' (snd (handle_valid_block ''i'' forked_engine)))))
    = [Get_Blocks [''i''], Commit ''i'', Get_Blocks [''j''], Commit ''j'']"
proof -
  let ?svc = "(en_service forked_engine)\<lparr>sv_log := [Get_Blocks [''i'']]\<rparr>"
  have get: "get_block ''i'' (en_service forked_engine) = (Return (test_block ''i'' ''h'' 1), ?svc)"
    "get_block ''j'' (?svc\<lparr>sv_log := sv_log ?svc @ [Commit ''i'']\<rparr>)
      = (Return (test_block ''j'' ''h'' 1), ?svc\<lparr>sv_log := [Get_Blocks [''i''], Commit ''i'', Get_Blocks [''j'']]\<rparr>)"
    by (simp_all add: get_block_def run_simps call_service_def forked_engine_def test_service_def dget_def)
  have "node_state_of forked_engine \<noteq> CATCHING_UP" by code_simp
  moreover have "signer_of forked_engine = Some (hex ''s'')" "en_pre_committed forked_engine = (''h'', 0)" by code_simp+
  ultimately show ?thesis
    using equivocation_commits_twice [OF get] by (simp add: test_block_def)
qed

theorem stop_ends_loop_witness:
  "main_loop test_libs [None, None] (engine_stop test_engine) = (Return (), engine_stop test_engine)"
proof -
  have "en_exit (engine_stop test_engine)" "cm_queue (cn_comm (en_node (engine_stop test_engine))) = []" by code_simp+
  then show ?thesis using stop_ends_loop [of "engine_stop test_engine" test_libs "[None]"] by simp
qed

lemma bounded_step: "keeps_bound s (engine_step L ev s)"
proof (cases ev)
  case (Iteration u)
  then show ?thesis using keepsD [OF bounded_iteration, of s L u] by (simp add: engine_step_def)
qed (simp_all add: engine_step_def node_event_def engine_stop_def keeps_bound_def)

lemma bounded_run: "keeps_bound s (engine_run L evs s)"
  unfolding engine_run_def
  by (induction evs arbitrary: s) (auto intro: keeps_bound.R_refl keeps_bound.R_trans [OF bounded_step])

lemma bounded_node: "keeps keeps_bound (in_node m)"
  by (simp add: keeps_def in_node_def run_simps keeps_bound_def split: prod.split)

lemma bounded_start: "keeps keeps_bound (engine_start local_id members ips slots head)"
  unfolding engine_start_def
  by (intro keeps_bound.all keeps_bound.modify keeps_bound.cache bounded_node) (simp_all add: keeps_bound_def)

text \<open>C33: the cache of a running engine never grows beyond ten blocks, in whatever order and how often blocks
  are announced: in every state that a run reaches it lists at most ten ids, holds at most ten blocks, and
  every block that it holds is listed and is found under its own id.\<close>

theorem cache_stays_bounded:
  assumes "reachable_engine L members s"
  shows "length (bc_cache_ids (en_cache s)) \<le> 10 \<and> length (bc_cache (en_cache s)) \<le> 10
    \<and> (\<forall>i b. block_from_id (en_cache s) i = Some b \<longrightarrow> b_block_id b = i \<and> contains (en_cache s) i)"
proof -
  obtain local_id ips slots head service net clock rnd evs where
      "s = engine_run L evs (started local_id members ips slots head service net clock rnd)"
    using assms by (auto simp: reachable_engine_def)
  moreover have "cache_bounded (en_cache (started local_id members ips slots head service net clock rnd))"
    using keepsD [OF bounded_start, of "Engine_init service (blank_node (hex local_id) net clock rnd) (clock 0)"
        local_id members ips slots head]
    by (simp add: started_def keeps_bound_def Engine_init_def BlockCache_init_def cache_bounded_def dkeys_def)
  ultimately have c: "cache_bounded (en_cache s)"
    using bounded_run by (simp add: keeps_bound_def)
  then have "length (bc_cache (en_cache s)) \<le> card (set (bc_cache_ids (en_cache s)))"
    using card_dkeys [of "bc_cache (en_cache s)"] card_mono [of "set (bc_cache_ids (en_cache s))" "set (dkeys (bc_cache (en_cache s)))"]
    by (auto simp: cache_bounded_def)
  then have "length (bc_cache (en_cache s)) \<le> 10"
    using c card_length [of "bc_cache_ids (en_cache s)"] by (simp add: cache_bounded_def)
  moreover have "contains (en_cache s) i" if "block_from_id (en_cache s) i = Some b" for i b
    using c that dict.keys_look [of i "bc_cache (en_cache s)"] by (auto simp: cache_bounded_def block_from_id_def contains_def)
  ultimately show ?thesis using c by (auto simp: cache_bounded_def block_from_id_def)
qed

theorem cache_stays_bounded_witness:
  "length (bc_cache (en_cache (engine_run test_libs [Iteration (Some (Block_New (member_block ''i''))), Ballot_Timer] test_engine))) \<le> 10"
  using cache_stays_bounded [OF reachable_test_engine [of test_libs "[Iteration (Some (Block_New (member_block ''i''))), Ballot_Timer]"]]
  by simp

end
