(* ===== verification/Chain_Growth.thy ===== *)
theory Chain_Growth
  imports Engine_Properties
begin

text \<open>
  The normal case of the whole engine: blocks arrive one after the other, each signed by the witness
  whose slot it is. What is shown is that an engine whose validator answers takes every such block
  through its three notifications (new, valid, committed), commits it, moves on to the next slot, at
  the end of an epoch to the next epoch, and is then ready for the next block; so engines that start
  alike and get the same blocks commit the same chain and stay in one slot.
\<close>

section \<open>The slot at a node\<close>

text \<open>What a node has beside the table of its peers: epoch, state, votes and results. A slot change depends
  only on that and changes only that.\<close>

definition same_slots :: "ddpoa_node \<Rightarrow> ddpoa_node \<Rightarrow> bool" where
  "same_slots m n \<longleftrightarrow> consensus_node.more m = consensus_node.more n"

lemma same_slots_refl [simp]: "same_slots n n"
  by (simp add: same_slots_def)

lemma same_slots_trans: "same_slots m n \<Longrightarrow> same_slots n k \<Longrightarrow> same_slots m k"
  by (simp add: same_slots_def)

lemma same_slots_fields:
  assumes "same_slots m n"
  shows "dn_epoch m = dn_epoch n" "dn_state m = dn_state n" "dn_voting m = dn_voting n"
    "dn_num_slots m = dn_num_slots n" "dn_ready_result m = dn_ready_result n" "expected_signer m = expected_signer n"
  using assms by (cases m; cases n; simp add: same_slots_def expected_signer_def)+

lemma same_slots_steps:
  assumes "same_slots m n"
  shows "same_slots (slotted sha i m) (slotted sha i n)" "same_slots (finalize_epoch m) (finalize_epoch n)"
    "same_slots (fresh_epoch k m) (fresh_epoch k n)" "same_slots (seated_epoch k cs m) (seated_epoch k cs n)"
    "same_slots (m\<lparr>dn_voting := v\<rparr>) (n\<lparr>dn_voting := v\<rparr>)"
  using assms
  by (cases m; cases n; simp add: same_slots_def slotted_def finalize_epoch_def move_state_def set_state_def Let_def
      seated_epoch_def fresh_epoch_def)+

lemma initialize_same:
  assumes "same_slots m n"
  shows "fst (initialize_epoch k m) = fst (initialize_epoch k n) \<and> same_slots (snd (initialize_epoch k m)) (snd (initialize_epoch k n))"
  using same_slots_fields(3) [OF assms] same_slots_steps(3) [OF assms] same_slots_steps(5) [OF same_slots_steps(4) [OF assms]]
  by (simp add: run_initialize_epoch in_voting_def run_on_field split: option.split prod.split)

lemma next_slot_same:
  assumes "same_slots m n"
  shows "fst (node_next_slot sha i m) = fst (node_next_slot sha i n)"
    "same_slots (snd (node_next_slot sha i m)) (snd (node_next_slot sha i n))"
proof -
  note s = same_slots_steps(1) [OF assms, of sha i]
  note f = same_slots_steps(2) [OF s]
  show "fst (node_next_slot sha i m) = fst (node_next_slot sha i n)"
    "same_slots (snd (node_next_slot sha i m)) (snd (node_next_slot sha i n))"
    using s f initialize_same [OF f] same_slots_fields(1) [OF assms] same_slots_fields(1) [OF s] same_slots_fields(5) [OF f]
    by (simp_all add: run_node_next_slot Let_def)
qed

lemma next_slot_peers:
  "cn_clock (snd (node_next_slot sha i n)) = cn_clock n" "cn_tick (snd (node_next_slot sha i n)) = cn_tick n" "cn_key (snd (node_next_slot sha i n)) = cn_key n"
  "cn_peers (snd (node_next_slot sha i n)) = cn_peers n"
  by (simp_all add: run_node_next_slot run_initialize_epoch slotted_def finalize_epoch_def
      move_state_def set_state_def Let_def in_voting_def run_on_field seated_epoch_def fresh_epoch_def
      split: option.split prod.split)

lemma next_slot_running:
  "dn_state n \<notin> {WAITING_FOR_BOOTSTRAP, CATCHING_UP}
    \<Longrightarrow> dn_state (snd (node_next_slot sha i n)) \<notin> {WAITING_FOR_BOOTSTRAP, CATCHING_UP}"
  by (simp add: run_node_next_slot run_initialize_epoch slotted_def finalize_epoch_def
      move_state_def set_state_def Let_def in_voting_def run_on_field seated_epoch_def fresh_epoch_def
      split: option.split prod.split)

section \<open>Chains\<close>

definition head_of :: "block \<Rightarrow> bytes \<times> int" where
  "head_of b = (b_block_id b, b_block_num b)"

text \<open>The node after the slots of the blocks.\<close>

definition after_slot :: "(string \<Rightarrow> string) \<Rightarrow> block \<Rightarrow> ddpoa_node \<Rightarrow> ddpoa_node" where
  "after_slot sha b n = snd (node_next_slot sha (hex (b_block_id b)) n)"

definition after_slots :: "(string \<Rightarrow> string) \<Rightarrow> block list \<Rightarrow> ddpoa_node \<Rightarrow> ddpoa_node" where
  "after_slots sha bs n = fold (after_slot sha) bs n"

text \<open>Every block extends the one before it and is signed by the witness of its slot, and no slot change raises
  (the result of the next epoch has candidates).\<close>

fun in_turn :: "(string \<Rightarrow> string) \<Rightarrow> bytes \<times> int \<Rightarrow> ddpoa_node \<Rightarrow> block list \<Rightarrow> bool" where
  "in_turn sha h n [] \<longleftrightarrow> True"
| "in_turn sha h n (b # bs) \<longleftrightarrow>
     b_previous_id b = fst h \<and> b_block_num b = snd h + 1 \<and> expected_signer n = Some (hex (b_signer_id b))
     \<and> fst (node_next_slot sha (hex (b_block_id b)) n) = Return () \<and> in_turn sha (head_of b) (after_slot sha b n) bs"

lemma after_slots_same: "same_slots m n \<Longrightarrow> same_slots (after_slots sha bs m) (after_slots sha bs n)"
  by (induction bs arbitrary: m n) (simp_all add: after_slots_def after_slot_def next_slot_same)

lemma in_turn_same: "same_slots m n \<Longrightarrow> in_turn sha h m bs = in_turn sha h n bs"
proof (induction bs arbitrary: h m n)
  case (Cons b bs)
  have "same_slots (after_slot sha b m) (after_slot sha b n)"
    using Cons.prems unfolding after_slot_def by (rule next_slot_same)
  from Cons.IH [OF this] Cons.prems show ?case by (simp add: next_slot_same(1) same_slots_fields(6))
qed simp

text \<open>The same within one epoch, where only the epoch matters.\<close>

definition after_block :: "(string \<Rightarrow> string) \<Rightarrow> block \<Rightarrow> epoch \<Rightarrow> epoch" where
  "after_block sha b e = snd (increment_witness sha (hex (b_block_id b)) e)"

definition after_blocks :: "(string \<Rightarrow> string) \<Rightarrow> block list \<Rightarrow> epoch \<Rightarrow> epoch" where
  "after_blocks sha bs e = fold (after_block sha) bs e"

fun epoch_turns :: "(string \<Rightarrow> string) \<Rightarrow> bytes \<times> int \<Rightarrow> epoch \<Rightarrow> block list \<Rightarrow> bool" where
  "epoch_turns sha h e [] \<longleftrightarrow> True"
| "epoch_turns sha h e (b # bs) \<longleftrightarrow>
     b_previous_id b = fst h \<and> b_block_num b = snd h + 1 \<and> current_witness e = Some (hex (b_signer_id b))
     \<and> \<not> is_over (after_block sha b e) \<and> epoch_turns sha (head_of b) (after_block sha b e) bs"

lemma slot_in_epoch:
  assumes "current_witness (dn_epoch n) \<noteq> None" "\<not> is_over (after_block sha b (dn_epoch n))"
  shows "node_next_slot sha (hex (b_block_id b)) n = (Return (), n\<lparr>dn_epoch := after_block sha b (dn_epoch n)\<rparr>)"
  using assms by (auto simp: run_node_next_slot slotted_def after_block_def current_witness_eq)

lemma epoch_turns_slots:
  assumes "epoch_turns sha h (dn_epoch n) bs"
  shows "in_turn sha h n bs \<and> dn_epoch (after_slots sha bs n) = after_blocks sha bs (dn_epoch n)
    \<and> dn_state (after_slots sha bs n) = dn_state n"
  using assms
proof (induction bs arbitrary: h n)
  case (Cons b bs)
  then have "node_next_slot sha (hex (b_block_id b)) n = (Return (), n\<lparr>dn_epoch := after_block sha b (dn_epoch n)\<rparr>)"
    by (intro slot_in_epoch) auto
  then show ?case
    using Cons.IH [of "head_of b" "n\<lparr>dn_epoch := after_block sha b (dn_epoch n)\<rparr>"] Cons.prems
    by (simp add: after_slots_def after_slot_def after_blocks_def expected_signer_def)
qed (simp add: after_slots_def after_blocks_def)

text \<open>The blocks that a validator was asked to commit.\<close>

fun commits :: "service_call list \<Rightarrow> bytes list" where
  "commits [] = []"
| "commits (Commit i # cs) = i # commits cs"
| "commits (_ # cs) = commits cs"

lemma commits_append [simp]: "commits (cs @ ds) = commits cs @ commits ds"
  by (induction cs rule: commits.induct) simp_all

section \<open>A healthy engine\<close>

text \<open>The validator takes every request and has the blocks, which are all new and of known members.\<close>

definition answers :: "service \<Rightarrow> block list \<Rightarrow> bool" where
  "answers v bs \<longleftrightarrow> (\<forall>log c. sv_unit v log c = Return ())
     \<and> (\<forall>b \<in> set bs. \<forall>log. \<exists>d. sv_blocks v log [b_block_id b] = Return d \<and> dget d (b_block_id b) = Some b)"

definition acceptable :: "libs \<Rightarrow> engine \<Rightarrow> block \<Rightarrow> bool" where
  "acceptable L s b \<longleftrightarrow> hex (b_signer_id b) \<in> set (en_members s) \<and> score_at (hex (b_signer_id b)) (en_node s) \<noteq> None
     \<and> b_block_id b \<notin> set (bc_cache_ids (en_cache s))
     \<and> (\<exists>cd. lib_parse L (b_payload b) = Return cd)"

definition healthy :: "libs \<Rightarrow> block list \<Rightarrow> engine \<Rightarrow> bool" where
  "healthy L bs s \<longleftrightarrow> node_state_of s \<notin> {WAITING_FOR_BOOTSTRAP, CATCHING_UP} \<and> en_bootstrap_cache s = []
     \<and> cache_ok (en_cache s)
     \<and> (\<forall>i c. block_from_id (en_cache s) i = Some c \<longrightarrow> b_block_num c \<le> snd (en_pre_committed s))
     \<and> answers (en_service s) bs \<and> (\<forall>b \<in> set bs. acceptable L s b) \<and> distinct (List.map b_block_id bs)"

text \<open>No block comes from the future: the clock reading at which \<open>_handle_new_block\<close> looks at a block is not
  before its timestamp. The handlers of one block take two readings, this one and that of \<open>seen\<close>.\<close>

fun timely :: "libs \<Rightarrow> (nat \<Rightarrow> rat) \<Rightarrow> nat \<Rightarrow> block list \<Rightarrow> bool" where
  "timely L clock i [] \<longleftrightarrow> True"
| "timely L clock i (b # bs) \<longleftrightarrow>
     (case lib_parse L (b_payload b) of Return cd \<Rightarrow> of_int (cd_timestamp cd) \<le> clock i | _ \<Rightarrow> True) \<and> timely L clock (i + 2) bs"

abbreviation on_time :: "libs \<Rightarrow> block list \<Rightarrow> engine \<Rightarrow> bool" where
  "on_time L bs s \<equiv> timely L (cn_clock (en_node s)) (cn_tick (en_node s)) bs"

section \<open>The three notifications of a block\<close>

lemma seen_returns:
  assumes "score_at k (n :: ddpoa_node) \<noteq> None"
  obtains t where "cn_seen k n = (Return (), t)" "base_frame n t" "cn_tick t = Suc (cn_tick n)"
proof -
  obtain p where "dget (cn_peers n) k = Some p" using assms by (auto simp: score_at_def)
  then have "fst (cn_seen k n) = Return ()" "cn_tick (snd (cn_seen k n)) = Suc (cn_tick n)"
    by (simp_all add: cn_seen_def get_peer_def run_simps time_now_def put_peer_def)
  then show thesis
    using that [of "snd (cn_seen k n)"] keepsD [OF frame_seen, of n k] by (simp add: prod_eq_iff)
qed

text \<open>Appending a new block, with a validator that answers.\<close>

lemma append_answered:
  assumes "cache_ok c" "b_block_id b \<notin> set (bc_cache_ids c)" "\<forall>log d. sv_unit v log d = Return ()"
  obtains c' v' where "cache_append b (c, v) = (Return (), (c', v'))" "cache_ok c'"
    "block_from_id c' (b_block_id b) = Some b" "set (bc_cache_ids c') \<subseteq> insert (b_block_id b) (set (bc_cache_ids c))"
    "\<And>i d. block_from_id c' i = Some d \<Longrightarrow> d = b \<or> block_from_id c i = Some d"
    "sv_unit v' = sv_unit v" "sv_blocks v' = sv_blocks v" "commits (sv_log v') = commits (sv_log v)"
proof -
  obtain r c' v' where run: "cache_append b (c, v) = (r, (c', v'))" by (metis prod.exhaust)
  note facts = fresh_append [OF assms(1,2), of v, unfolded run, simplified]
  show thesis
  proof (rule that)
    show "cache_append b (c, v) = (Return (), (c', v'))" using run facts(1) assms(3) by simp
    show "set (bc_cache_ids c') \<subseteq> insert (b_block_id b) (set (bc_cache_ids c))"
      using facts(5) by (auto dest: list.set_sel(2) [rotated])
    show "d = b \<or> block_from_id c i = Some d" if "block_from_id c' i = Some d" for i d
      using that facts(4) [of i] by (simp split: if_splits)
  qed (use facts in simp_all)
qed

text \<open>The three handlers on the next block of the chain; \<open>advanced\<close> is the engine after all three.\<close>

definition next_block :: "block \<Rightarrow> engine \<Rightarrow> bool" where
  "next_block b s \<longleftrightarrow> b_previous_id b = fst (en_pre_committed s) \<and> b_block_num b = snd (en_pre_committed s) + 1
     \<and> signer_of s = Some (hex (b_signer_id b))"

lemma new_block_round:
  assumes "healthy L (b # bs) s" "on_time L (b # bs) s" "next_block b s"
  obtains n c v where
    "handle_new_block L b s = (Return (), s\<lparr>en_node := n, en_cache := c, en_service := v,
        en_waiting_own := (en_waiting_own s \<and> b_signer_id b \<noteq> en_local_id s), en_waiting_validation := en_waiting_validation s + 1\<rparr>)"
    "base_frame (en_node s) n" "cn_tick n = cn_tick (en_node s) + 2" "cache_ok c" "block_from_id c (b_block_id b) = Some b"
    "set (bc_cache_ids c) \<subseteq> insert (b_block_id b) (set (bc_cache_ids (en_cache s)))"
    "\<And>i d. block_from_id c i = Some d \<Longrightarrow> d = b \<or> block_from_id (en_cache s) i = Some d"
    "sv_unit v = sv_unit (en_service s)" "sv_blocks v = sv_blocks (en_service s)" "commits (sv_log v) = commits (sv_log (en_service s))"
proof -
  have answered: "\<forall>log d. sv_unit (en_service s) log d = Return ()"
    using assms(1) by (simp add: healthy_def answers_def)
  obtain cd where accept: "hex (b_signer_id b) \<in> set (en_members s)" "score_at (hex (b_signer_id b)) (en_node s) \<noteq> None"
      "b_block_id b \<notin> set (bc_cache_ids (en_cache s))" "lib_parse L (b_payload b) = Return cd"
      "\<not> cn_clock (en_node s) (cn_tick (en_node s)) < of_int (cd_timestamp cd)"
    using assms(1,2) by (auto simp: healthy_def acceptable_def not_less)
  define n0 where "n0 = (en_node s)\<lparr>cn_tick := Suc (cn_tick (en_node s))\<rparr>"
  have n0: "base_frame (en_node s) n0" unfolding n0_def by (rule base_frame_tick)
  then have "score_at (hex (b_signer_id b)) n0 \<noteq> None" using accept(2) by (simp add: base_frame_def)
  then obtain n where seen: "cn_seen (hex (b_signer_id b)) n0 = (Return (), n)" "base_frame n0 n" "cn_tick n = Suc (cn_tick n0)"
    by (rule seen_returns)
  have n: "base_frame (en_node s) n" using n0 seen(2) by (rule base_frame.R_trans)
  have tick: "cn_tick n = cn_tick (en_node s) + 2" using seen(3) by (simp add: n0_def)
  have cache: "cache_ok (en_cache s)" using assms(1) by (simp add: healthy_def)
  from append_answered [OF cache accept(3) answered] obtain c v where
    append: "cache_append b (en_cache s, en_service s) = (Return (), (c, v))" and c: "cache_ok c"
      "block_from_id c (b_block_id b) = Some b" "set (bc_cache_ids c) \<subseteq> insert (b_block_id b) (set (bc_cache_ids (en_cache s)))"
      "\<And>i d. block_from_id c i = Some d \<Longrightarrow> d = b \<or> block_from_id (en_cache s) i = Some d"
    and v: "sv_unit v = sv_unit (en_service s)" "sv_blocks v = sv_blocks (en_service s)" "commits (sv_log v) = commits (sv_log (en_service s))"
    by blast
  define u where "u = s\<lparr>en_node := n, en_cache := c, en_service := v\<rparr>"
  have "handle_new_block L b s = thenP (check_next_block b) (route_new_block b) u"
    using accept by (simp add: handle_new_block_def run_simps in_node_def in_cache_def time_now_def n0_def [symmetric] seen append u_def)
  moreover have "check_next_block b u = (Return (), u\<lparr>en_service := v\<lparr>sv_log := sv_log v @ [Check [b_block_id b]]\<rparr>,
      en_waiting_own := (en_waiting_own s \<and> b_signer_id b \<noteq> en_local_id s), en_waiting_validation := en_waiting_validation s + 1\<rparr>)"
    using assms(3) answered base_frame_attributes(1) [OF n]
    by (auto simp: check_next_block_def run_simps next_block_def signer_of_def expected_signer_def check_all_def note_own_block_def
        add_validation_def in_service_def service_unit_def call_service_def u_def v(1) case_prod_beta)
  moreover have "route_new_block b t = (Return (), t)"
    if "node_state_of t = node_state_of s" "en_pre_committed t = en_pre_committed s" for t
    using that assms by (auto simp: route_new_block_def run_simps healthy_def request_if_behind_def next_block_def case_prod_beta)
  moreover have "dn_state n = dn_state (en_node s)" using base_frame_attributes(2) [OF n] .
  ultimately have "handle_new_block L b s = (Return (), s\<lparr>en_node := n, en_cache := c,
      en_service := v\<lparr>sv_log := sv_log v @ [Check [b_block_id b]]\<rparr>,
      en_waiting_own := (en_waiting_own s \<and> b_signer_id b \<noteq> en_local_id s), en_waiting_validation := en_waiting_validation s + 1\<rparr>)"
    by (simp add: run_then u_def node_state_of_def)
  from that [OF this n tick c] show thesis using v by simp
qed

lemma valid_block_round:
  assumes "answers (en_service s) (b # bs)" "next_block b s" "node_state_of s \<noteq> CATCHING_UP"
  obtains v where
    "handle_valid_block (b_block_id b) s = (Return (), s\<lparr>en_service := v, en_waiting_validation := en_waiting_validation s - 1,
        en_waiting_commit := en_waiting_commit s + 1\<rparr>)"
    "sv_unit v = sv_unit (en_service s)" "sv_blocks v = sv_blocks (en_service s)"
    "commits (sv_log v) = commits (sv_log (en_service s)) @ [b_block_id b]"
proof -
  obtain d where "sv_blocks (en_service s) (sv_log (en_service s)) [b_block_id b] = Return d" "dget d (b_block_id b) = Some b"
    using assms(1) unfolding answers_def by (meson list.set_intros(1))
  then have "get_block (b_block_id b) (en_service s)
      = (Return b, (en_service s)\<lparr>sv_log := sv_log (en_service s) @ [Get_Blocks [b_block_id b]]\<rparr>)"
    by (simp add: get_block_def run_simps call_service_def)
  moreover have "sv_unit (en_service s) log c = Return ()" for log c using assms(1) by (simp add: answers_def)
  ultimately have "handle_valid_block (b_block_id b) s = (Return (), s
      \<lparr>en_service := (en_service s)\<lparr>sv_log := sv_log (en_service s) @ [Get_Blocks [b_block_id b], Commit (b_block_id b)]\<rparr>,
       en_waiting_validation := en_waiting_validation s - 1, en_waiting_commit := en_waiting_commit s + 1\<rparr>)"
    using assms(2,3)
    by (simp add: handle_valid_block_def run_simps in_service_def service_unit_def call_service_def add_validation_def
        add_commit_def next_block_def node_state_of_def signer_of_def case_prod_beta)
  from that [OF this] show thesis by simp
qed

lemma rewarded_frame:
  assumes "score_at k n \<noteq> None"
  shows "dn_epoch (rewarded k n) = dn_epoch n" "dn_state (rewarded k n) = dn_state n" "cn_clock (rewarded k n) = cn_clock n" "cn_tick (rewarded k n) = cn_tick n"
    "cn_key (rewarded k n) = cn_key n" "score_at j (rewarded k n) = None \<longleftrightarrow> score_at j n = None"
  using assms
  by (auto simp: rewarded_def reward_def run_simps set_score_def get_peer_def score_at_put_peer score_at_def)
    (auto simp: put_peer_def dict_simps split: if_splits)

lemma no_later_block:
  assumes "cache_ok c" "\<And>i d. block_from_id c i = Some d \<Longrightarrow> b_block_num d \<le> m"
  shows "block_by_num_and_signer c (m + 1) k = None"
proof -
  have "b_block_num d \<le> m" if d: "d \<in> set (dvalues (bc_cache c))" for d
  proof -
    obtain i where "(i, d) \<in> set (bc_cache c)" using d by (force simp: dvalues_def)
    moreover have "distinct (List.map fst (bc_cache c))" using assms(1) by (simp add: cache_ok_def dkeys_def)
    ultimately have "block_from_id c i = Some d" by (simp add: block_from_id_def dget_def)
    then show ?thesis by (rule assms(2))
  qed
  then show ?thesis by (force simp: block_by_num_and_signer_def find_None_iff)
qed

lemma rewarded_slots: "score_at k n \<noteq> None \<Longrightarrow> same_slots (rewarded k n) n"
  by (auto simp: rewarded_def reward_def run_simps set_score_def get_peer_def score_at_def same_slots_def put_peer_def)

lemma next_slot_round:
  assumes "node_next_slot (lib_sha L) (hex (fst (en_pre_committed s))) (en_node s) = (Return (), m)"
    and "\<forall>log c. sv_unit (en_service s) log c = Return ()"
  obtains v where
    "next_slot L ts s = (Return (), s\<lparr>en_node := m, en_slot_started_at := ts, en_service := v\<rparr>)"
    "sv_unit v = sv_unit (en_service s)" "sv_blocks v = sv_blocks (en_service s)" "commits (sv_log v) = commits (sv_log (en_service s))"
proof -
  define v where "v = (en_service s)\<lparr>sv_log := sv_log (en_service s) @ Cancel # (if is_current_witness m then [Initialize] else [])\<rparr>"
  have "next_slot L ts s = (Return (), s\<lparr>en_node := m, en_slot_started_at := ts, en_service := v\<rparr>)"
    using assms
    by (simp add: next_slot_def run_simps in_node_def try_cancel_def in_service_def service_unit_def
        call_service_def v_def)
  then show thesis by (rule that) (simp_all add: v_def)
qed

lemma committed_block_round:
  assumes "block_from_id (en_cache s) (b_block_id b) = Some b" "en_bootstrap_cache s = []" "cache_ok (en_cache s)"
    and "\<forall>i d. block_from_id (en_cache s) i = Some d \<longrightarrow> b_block_num d \<le> b_block_num b"
    and "lib_parse L (b_payload b) = Return cd" "score_at (hex (b_signer_id b)) (en_node s) \<noteq> None"
    and "node_state_of s \<noteq> CATCHING_UP" "\<forall>log c. sv_unit (en_service s) log c = Return ()"
    and "fst (node_next_slot (lib_sha L) (hex (b_block_id b)) (en_node s)) = Return ()"
  obtains n v where
    "handle_committed_block L (b_block_id b) s = (Return (), s\<lparr>en_pre_committed := head_of b, en_node := n,
        en_waiting_commit := en_waiting_commit s - 1, en_slot_started_at := of_int (cd_timestamp cd), en_service := v\<rparr>)"
    "same_slots n (after_slot (lib_sha L) b (en_node s))"
    "cn_clock n = cn_clock (en_node s)" "cn_tick n = cn_tick (en_node s)" "cn_key n = cn_key (en_node s)" "\<And>j. score_at j n = None \<longleftrightarrow> score_at j (en_node s) = None"
    "sv_unit v = sv_unit (en_service s)" "sv_blocks v = sv_blocks (en_service s)" "commits (sv_log v) = commits (sv_log (en_service s))"
proof -
  define r where "r = rewarded (hex (b_signer_id b)) (en_node s)"
  note r = rewarded_frame [OF assms(6), folded r_def]
  have same: "same_slots r (en_node s)" unfolding r_def using assms(6) by (rule rewarded_slots)
  have c: "committed b cd s = s\<lparr>en_pre_committed := head_of b, en_node := r, en_waiting_commit := en_waiting_commit s - 1\<rparr>"
    using assms(7) r(2) by (simp add: committed_def finish_catch_up_def add_commit_def node_state_of_def head_of_def r_def)
  define u where "u = committed b cd s"
  define n where "n = snd (node_next_slot (lib_sha L) (hex (b_block_id b)) r)"
  have "node_next_slot (lib_sha L) (hex (fst (en_pre_committed u))) (en_node u) = (Return (), n)"
    using assms(9) next_slot_same(1) [OF same, of "lib_sha L" "hex (b_block_id b)"]
    by (simp add: u_def c head_of_def n_def prod_eq_iff)
  moreover have "\<forall>log c. sv_unit (en_service u) log c = Return ()" using assms(8) by (simp add: u_def c)
  ultimately obtain v where slot: "next_slot L (of_int (cd_timestamp cd)) u
        = (Return (), u\<lparr>en_node := n, en_slot_started_at := of_int (cd_timestamp cd), en_service := v\<rparr>)"
      and v: "sv_unit v = sv_unit (en_service u)" "sv_blocks v = sv_blocks (en_service u)" "commits (sv_log v) = commits (sv_log (en_service u))"
    by (rule next_slot_round)
  have none: "block_by_num_and_signer (en_cache s) (b_block_num b + 1) k = None" for k
    using assms(3) by (rule no_later_block) (use assms(4) in blast)
  have "handle_committed_block L (b_block_id b) s = thenP (next_slot L (of_int (cd_timestamp cd)))
      (bindP (gets (\<lambda>s. block_by_num_and_signer (en_cache s) (b_block_num b + 1) (signer_of s)))
        (\<lambda>next. case next of None \<Rightarrow> ret () | Some nb \<Rightarrow> check_all [b_block_id nb])) u"
    using assms(1,2,5,6)
    by (simp add: handle_committed_block_def run_bind run_gets run_then run_modify run_from_outcome cached_or_fetched_def
        run_ret in_node_def run_on_field reward_returns committed_def dget_def u_def)
  also have "\<dots> = (Return (), s\<lparr>en_pre_committed := head_of b, en_node := n,
      en_waiting_commit := en_waiting_commit s - 1, en_slot_started_at := of_int (cd_timestamp cd), en_service := v\<rparr>)"
    unfolding run_then slot by (simp add: run_bind run_gets run_ret u_def c none)
  finally show thesis
    by (rule that) (use v r next_slot_same(2) [OF same] next_slot_peers [of "lib_sha L" _ r]
      in \<open>simp_all add: n_def after_slot_def u_def c score_at_def\<close>)
qed

section \<open>A round, and a chain of rounds\<close>

text \<open>The notifications of one block.\<close>

definition notices :: "block \<Rightarrow> update list" where
  "notices b = [Block_New b, Block_Valid (b_block_id b), Block_Commit (b_block_id b)]"

text \<open>Where a round leaves the engine.\<close>

definition grown :: "libs \<Rightarrow> block list \<Rightarrow> engine \<Rightarrow> engine \<Rightarrow> bool" where
  "grown L bs s t \<longleftrightarrow> en_pre_committed t = (if bs = [] then en_pre_committed s else head_of (last bs))
     \<and> same_slots (en_node t) (after_slots (lib_sha L) bs (en_node s)) \<and> en_local_id t = en_local_id s
     \<and> commits (sv_log (en_service t)) = commits (sv_log (en_service s)) @ List.map b_block_id bs
     \<and> en_waiting_validation t = en_waiting_validation s \<and> en_waiting_commit t = en_waiting_commit s
     \<and> en_waiting_own t = (en_waiting_own s \<and> (\<forall>b \<in> set bs. b_signer_id b \<noteq> en_local_id s))"

lemma block_round:
  assumes "healthy L (b # bs) s" "on_time L (b # bs) s" "next_block b s" "fst (node_next_slot (lib_sha L) (hex (b_block_id b)) (en_node s)) = Return ()"
  obtains t where "for_each (notices b) (handle_update L) s = (Return (), t)" "grown L [b] s t" "healthy L bs t" "on_time L bs t"
proof -
  have h: "node_state_of s \<notin> {WAITING_FOR_BOOTSTRAP, CATCHING_UP}" "en_bootstrap_cache s = []" "answers (en_service s) (b # bs)"
      "\<forall>c \<in> set (b # bs). acceptable L s c" "distinct (List.map b_block_id (b # bs))"
      "\<And>i c. block_from_id (en_cache s) i = Some c \<Longrightarrow> b_block_num c \<le> snd (en_pre_committed s)"
    using assms(1) unfolding healthy_def by blast+
  obtain cd where cd: "lib_parse L (b_payload b) = Return cd" and score: "score_at (hex (b_signer_id b)) (en_node s) \<noteq> None"
    using h(4) by (auto simp: acceptable_def)
  obtain n1 c v1 where new: "handle_new_block L b s = (Return (), s\<lparr>en_node := n1, en_cache := c, en_service := v1,
        en_waiting_own := (en_waiting_own s \<and> b_signer_id b \<noteq> en_local_id s), en_waiting_validation := en_waiting_validation s + 1\<rparr>)"
      and n1: "base_frame (en_node s) n1" "cn_tick n1 = cn_tick (en_node s) + 2" and c: "cache_ok c" "block_from_id c (b_block_id b) = Some b"
        "set (bc_cache_ids c) \<subseteq> insert (b_block_id b) (set (bc_cache_ids (en_cache s)))"
        "\<And>i d. block_from_id c i = Some d \<Longrightarrow> d = b \<or> block_from_id (en_cache s) i = Some d"
      and v1: "sv_unit v1 = sv_unit (en_service s)" "sv_blocks v1 = sv_blocks (en_service s)" "commits (sv_log v1) = commits (sv_log (en_service s))"
    using assms(1-3) by (rule new_block_round) (rule that; assumption)
  define s1 where "s1 = s\<lparr>en_node := n1, en_cache := c, en_service := v1,
        en_waiting_own := (en_waiting_own s \<and> b_signer_id b \<noteq> en_local_id s), en_waiting_validation := en_waiting_validation s + 1\<rparr>"
  have s1: "answers (en_service s1) (b # bs)" "next_block b s1" "node_state_of s1 \<noteq> CATCHING_UP"
    using h(1,3) assms(3) v1 base_frame_attributes [OF n1(1)]
    by (simp_all add: s1_def answers_def next_block_def signer_of_def expected_signer_def node_state_of_def)
  obtain v2 where valid: "handle_valid_block (b_block_id b) s1 = (Return (), s1\<lparr>en_service := v2,
        en_waiting_validation := en_waiting_validation s1 - 1, en_waiting_commit := en_waiting_commit s1 + 1\<rparr>)"
      and v2: "sv_unit v2 = sv_unit (en_service s1)" "sv_blocks v2 = sv_blocks (en_service s1)"
        "commits (sv_log v2) = commits (sv_log (en_service s1)) @ [b_block_id b]"
    using s1 by (rule valid_block_round) (rule that; assumption)
  define s2 where "s2 = s1\<lparr>en_service := v2, en_waiting_validation := en_waiting_validation s1 - 1,
        en_waiting_commit := en_waiting_commit s1 + 1\<rparr>"
  have nums: "b_block_num d \<le> b_block_num b" if "block_from_id c i = Some d" for i d
    using c(4) [OF that] h(6) [of i d] assms(3) by (auto simp: next_block_def)
  have part: "same_slots (en_node s2) (en_node s)"
    using n1 by (simp add: same_slots_def s2_def s1_def base_frame_def)
  have s2: "en_cache s2 = c" "en_bootstrap_cache s2 = []" "node_state_of s2 \<noteq> CATCHING_UP"
      "\<And>k. score_at k (en_node s2) = score_at k (en_node s)" "\<forall>log c. sv_unit (en_service s2) log c = Return ()"
    using h(1-3) n1 base_frame_attributes(1,2) [OF n1(1)] v1(1) v2(1)
    by (simp_all add: s2_def s1_def node_state_of_def answers_def base_frame_def)
  have pre: "block_from_id (en_cache s2) (b_block_id b) = Some b" "en_bootstrap_cache s2 = []" "cache_ok (en_cache s2)"
      "\<forall>i d. block_from_id (en_cache s2) i = Some d \<longrightarrow> b_block_num d \<le> b_block_num b"
      "lib_parse L (b_payload b) = Return cd" "score_at (hex (b_signer_id b)) (en_node s2) \<noteq> None"
      "node_state_of s2 \<noteq> CATCHING_UP" "\<forall>log c. sv_unit (en_service s2) log c = Return ()"
      "fst (node_next_slot (lib_sha L) (hex (b_block_id b)) (en_node s2)) = Return ()"
    using s2 c(1,2) nums cd score assms(4) next_slot_same(1) [OF part] by simp_all
  obtain n v where commit: "handle_committed_block L (b_block_id b) s2 = (Return (), s2\<lparr>en_pre_committed := head_of b, en_node := n,
        en_waiting_commit := en_waiting_commit s2 - 1, en_slot_started_at := of_int (cd_timestamp cd), en_service := v\<rparr>)"
      and n: "same_slots n (after_slot (lib_sha L) b (en_node s2))" "cn_clock n = cn_clock (en_node s2)" "cn_tick n = cn_tick (en_node s2)" "cn_key n = cn_key (en_node s2)" "\<And>j. score_at j n = None \<longleftrightarrow> score_at j (en_node s2) = None"
      and v: "sv_unit v = sv_unit (en_service s2)" "sv_blocks v = sv_blocks (en_service s2)" "commits (sv_log v) = commits (sv_log (en_service s2))"
    using pre by (rule committed_block_round) (rule that; assumption)
  define t where "t = s2\<lparr>en_pre_committed := head_of b, en_node := n,
        en_waiting_commit := en_waiting_commit s2 - 1, en_slot_started_at := of_int (cd_timestamp cd), en_service := v\<rparr>"
  have after: "same_slots n (after_slot (lib_sha L) b (en_node s))"
    using n(1) next_slot_same(2) [OF part] by (auto simp: after_slot_def intro: same_slots_trans)
  have running: "dn_state n \<notin> {WAITING_FOR_BOOTSTRAP, CATCHING_UP}"
    using next_slot_running [of "en_node s" "lib_sha L"] h(1) same_slots_fields(2) [OF after]
    by (simp add: after_slot_def node_state_of_def)
  have "for_each (notices b) (handle_update L) s = (Return (), t)"
    using new valid commit by (simp add: notices_def run_simps handle_update_def s1_def [symmetric] s2_def [symmetric] t_def)
  moreover have "grown L [b] s t"
    using after v v1 v2
    by (simp add: grown_def t_def s2_def s1_def after_slots_def)
  moreover have "healthy L bs t"
  proof -
    have "acceptable L t d" if "d \<in> set bs" for d
    proof -
      have d: "acceptable L s d" "b_block_id d \<noteq> b_block_id b" using h(4,5) that by (auto simp: image_iff)
      then have "b_block_id d \<notin> set (bc_cache_ids c)" using c(3) by (auto simp: acceptable_def)
      with d(1) show ?thesis
        using n n1 by (simp add: acceptable_def t_def s2_def s1_def base_frame_def)
    qed
    then show ?thesis
      using h(2-6) c v v1 v2 running nums
      by (simp add: healthy_def t_def s2_def s1_def node_state_of_def answers_def head_of_def)
  qed
  moreover have "on_time L bs t"
    using assms(2) n n1 by (simp add: t_def s2_def s1_def base_frame_def)
  ultimately show thesis by (rule that)
qed

lemma grown_Cons:
  assumes "grown L [b] s t" "grown L bs t u"
  shows "grown L (b # bs) s u"
proof -
  have "same_slots (en_node t) (after_slot (lib_sha L) b (en_node s))" using assms(1) by (simp add: grown_def after_slots_def)
  from after_slots_same [OF this] have "same_slots (en_node u) (after_slots (lib_sha L) (b # bs) (en_node s))"
    using assms(2) by (auto simp: grown_def after_slots_def intro: same_slots_trans)
  with assms show ?thesis by (auto simp: grown_def)
qed

lemma chain_run:
  assumes "healthy L bs s" "on_time L bs s" "in_turn (lib_sha L) (en_pre_committed s) (en_node s) bs"
  shows "\<exists>t. for_each (concat (List.map notices bs)) (handle_update L) s = (Return (), t) \<and> grown L bs s t"
  using assms
proof (induction bs arbitrary: s)
  case Nil
  then show ?case by (simp add: run_simps grown_def after_slots_def)
next
  case (Cons b bs)
  have "next_block b s" "fst (node_next_slot (lib_sha L) (hex (b_block_id b)) (en_node s)) = Return ()"
    using Cons.prems(3) by (simp_all add: next_block_def signer_of_def)
  with Cons.prems(1,2) obtain t where t: "for_each (notices b) (handle_update L) s = (Return (), t)" "grown L [b] s t" "healthy L bs t"
      "on_time L bs t"
    by (rule block_round)
  have "same_slots (en_node t) (after_slot (lib_sha L) b (en_node s))" "en_pre_committed t = head_of b"
    using t(2) by (simp_all add: grown_def after_slots_def)
  then have "in_turn (lib_sha L) (en_pre_committed t) (en_node t) bs"
    using Cons.prems(3) by (simp add: in_turn_same)
  from Cons.IH [OF t(3,4) this] obtain u where
    "for_each (concat (List.map notices bs)) (handle_update L) t = (Return (), u)" "grown L bs t u" by blast
  then show ?case using t grown_Cons by (auto simp: for_each_append)
qed

text \<open>Within an epoch, the engine's epoch is that of the blocks.\<close>

lemma epoch_run:
  assumes "healthy L bs s" "on_time L bs s" "epoch_turns (lib_sha L) (en_pre_committed s) (dn_epoch (en_node s)) bs"
  shows "\<exists>t. for_each (concat (List.map notices bs)) (handle_update L) s = (Return (), t) \<and> grown L bs s t
    \<and> dn_epoch (en_node t) = after_blocks (lib_sha L) bs (dn_epoch (en_node s)) \<and> node_state_of t = node_state_of s"
proof -
  note turns = epoch_turns_slots [OF assms(3)]
  obtain t where t: "for_each (concat (List.map notices bs)) (handle_update L) s = (Return (), t)" "grown L bs s t"
    using chain_run [OF assms(1,2)] turns by blast
  have "same_slots (en_node t) (after_slots (lib_sha L) bs (en_node s))" using t(2) by (simp add: grown_def)
  from same_slots_fields(1,2) [OF this] t turns show ?thesis by (simp add: node_state_of_def)
qed

section \<open>Properties\<close>



text \<open>Engines stay in step: two healthy engines with the same head and the same epoch that are told, by their
  own clocks in time, of the same chain of blocks of this epoch commit the same blocks and end with the same head, the same epoch and
  the same expected signer.\<close>

theorem engines_in_step:
  assumes "healthy L bs s" and "on_time L bs s" and "healthy L bs s'" and "on_time L bs s'" and "en_pre_committed s' = en_pre_committed s"
    and "dn_epoch (en_node s') = dn_epoch (en_node s)" and "epoch_turns (lib_sha L) (en_pre_committed s) (dn_epoch (en_node s)) bs"
  defines "t \<equiv> snd (for_each (concat (List.map notices bs)) (handle_update L) s)"
    and "t' \<equiv> snd (for_each (concat (List.map notices bs)) (handle_update L) s')"
  shows "en_pre_committed t' = en_pre_committed t \<and> dn_epoch (en_node t') = dn_epoch (en_node t) \<and> signer_of t' = signer_of t
    \<and> (\<exists>new. commits (sv_log (en_service t)) = commits (sv_log (en_service s)) @ new
         \<and> commits (sv_log (en_service t')) = commits (sv_log (en_service s')) @ new)"
proof -
  have "grown L bs s t \<and> dn_epoch (en_node t) = after_blocks (lib_sha L) bs (dn_epoch (en_node s))"
    using epoch_run [OF assms(1,2,7)] by (auto simp: t_def)
  moreover have "grown L bs s' t' \<and> dn_epoch (en_node t') = after_blocks (lib_sha L) bs (dn_epoch (en_node s))"
    using epoch_run [of L bs s'] assms(3-7) by (auto simp: t'_def)
  ultimately show ?thesis
    using assms(5) by (simp add: grown_def signer_of_def expected_signer_def)
qed

text \<open>Two members who are both witnesses, and a block of each, with clocks that advance: the second block is made
  after the first one has arrived. The length of a payload is the timestamp.\<close>

definition ring_blocks :: "block list" where
  "ring_blocks = [(test_block ''i'' ''h'' 1)\<lparr>b_signer_id := ''a'', b_payload := replicate 12 (CHR ''.'')\<rparr>,
     (test_block ''j'' ''i'' 2)\<lparr>b_signer_id := ''b'', b_payload := replicate 22 (CHR ''.'')\<rparr>]"

definition ring_libs :: libs where
  "ring_libs = test_libs\<lparr>lib_parse := (\<lambda>p. Return \<lparr>cd_timestamp = int (length p), cd_epoch = 1, cd_witness_idx = 0,
     cd_candidates = [hex ''a'', hex ''b''], cd_consensus = ''ddpoa:0.1'', cd_num_slots = 2\<rparr>)\<rparr>"

definition ring_engine :: "bytes \<Rightarrow> engine" where
  "ring_engine me = (started me [hex ''a'', hex ''b''] [''x'', ''y''] 2 (test_block ''h'' GENESIS_BLOCK_ID 0)
      (test_service\<lparr>sv_blocks := (\<lambda>_ is. Return (List.map (\<lambda>b. (b_block_id b, b)) ring_blocks))\<rparr>)
      (\<lambda>_ _. True) (paced 5) (\<lambda>_. 1/2))"

definition in_ring :: "engine \<Rightarrow> engine" where
  "in_ring s = s\<lparr>en_node := (en_node s)\<lparr>dn_state := PRODUCTION, dn_epoch := \<lparr>ep_number = 1, ep_witness_idx = 0,
     ep_candidates = [], ep_witnesses = [hex ''a'', hex ''b''], ep_num_slots = 2\<rparr>\<rparr>\<rparr>"

lemma ring_ok:
  assumes "me \<in> {''a'', ''b''}"
  shows "healthy ring_libs ring_blocks (in_ring (ring_engine me))"
    and "on_time ring_libs ring_blocks (in_ring (ring_engine me))"
    and "epoch_turns (lib_sha ring_libs) (en_pre_committed (in_ring (ring_engine me))) (dn_epoch (en_node (in_ring (ring_engine me)))) ring_blocks"
proof -
  let ?s = "in_ring (ring_engine me)"
  have parts: "node_state_of ?s = PRODUCTION" "en_bootstrap_cache ?s = []" "bc_cache_ids (en_cache ?s) = [''h'']"
    "bc_cache (en_cache ?s) = [(''h'', test_block ''h'' GENESIS_BLOCK_ID 0)]" "en_pre_committed ?s = (''h'', 0)"
    "en_members ?s = [hex ''a'', hex ''b'']" "score_at (hex ''a'') (en_node ?s) = Some 1" "score_at (hex ''b'') (en_node ?s) = Some 1"
    using assms by (elim insertE emptyE; hypsubst; code_simp)+
  have service: "sv_unit (en_service ?s) log c = Return ()"
    "sv_blocks (en_service ?s) log is = Return (List.map (\<lambda>b. (b_block_id b, b)) ring_blocks)" for log c "is"
    using assms by (elim insertE emptyE; hypsubst; code_simp)+
  have "block_from_id (en_cache ?s) i = (if i = ''h'' then Some (test_block ''h'' GENESIS_BLOCK_ID 0) else None)" for i
    by (simp add: block_from_id_def parts dget_def)
  then show "healthy ring_libs ring_blocks ?s"
    using service parts
    by (simp add: healthy_def answers_def acceptable_def cache_ok_def ring_blocks_def test_block_def dkeys_def dget_def
        ring_libs_def del: hex.simps)
  show "on_time ring_libs ring_blocks ?s"
    using assms by (elim insertE emptyE; hypsubst; code_simp)
  show "epoch_turns (lib_sha ring_libs) (en_pre_committed ?s) (dn_epoch (en_node ?s)) ring_blocks"
    unfolding parts(5) by (simp add: in_ring_def) code_simp
qed


theorem engines_in_step_witness:
  "en_pre_committed (snd (for_each (concat (List.map notices ring_blocks)) (handle_update ring_libs) (in_ring (ring_engine ''b''))))
    = en_pre_committed (snd (for_each (concat (List.map notices ring_blocks)) (handle_update ring_libs) (in_ring (ring_engine ''a''))))"
proof -
  have "en_pre_committed (in_ring (ring_engine ''b'')) = en_pre_committed (in_ring (ring_engine ''a''))"
    "dn_epoch (en_node (in_ring (ring_engine ''b''))) = dn_epoch (en_node (in_ring (ring_engine ''a'')))"
    by code_simp+
  then show ?thesis
    using engines_in_step [OF ring_ok(1,2) [of "''a''"] ring_ok(1,2) [of "''b''"] _ _ ring_ok(3) [of "''a''"]] by simp
qed





end
