(* ===== verification/Slot_Round.thy ===== *)
theory Slot_Round
  imports Chain_Growth
begin

text \<open>
  One slot of the engine's loop, from the production side: what the rest of an iteration leaves alone
  (\<open>slot_kept\<close>), the slot of a witness that stays silent, and the slot in which a block is produced, from
  the request to finalise it to its commit at every engine.
\<close>

section \<open>What an iteration leaves alone after the production of blocks\<close>

definition slot_frame :: "ddpoa_node \<Rightarrow> ddpoa_node \<Rightarrow> bool" where
  "slot_frame n m \<longleftrightarrow> dn_epoch m = dn_epoch n \<and> cn_key m = cn_key n \<and> cn_clock m = cn_clock n \<and> cn_tick n \<le> cn_tick m
     \<and> (\<forall>k. score_at k m = score_at k n)
     \<and> (dn_state n \<in> {PRODUCTION, ELECTION} \<longrightarrow> dn_state m \<in> {PRODUCTION, ELECTION})
     \<and> (dn_state n \<notin> {WAITING_FOR_BOOTSTRAP, CATCHING_UP} \<longrightarrow> dn_state m \<notin> {WAITING_FOR_BOOTSTRAP, CATCHING_UP})"

interpretation slot_frame: state_preorder slot_frame
  by unfold_locales (auto simp: slot_frame_def)

lemma slot_frame_base:
  assumes "keeps base_frame m"
  shows "keeps slot_frame m"
proof (rule keepsI)
  fix n :: ddpoa_node
  have b: "base_frame n (snd (m n))" using assms by (rule keepsD)
  from base_frame_attributes [OF b] b show "slot_frame n (snd (m n))" by (auto simp: slot_frame_def base_frame_def)
qed

lemma slot_frame_attrs [simp]:
  "slot_frame n (move_state ELECTION n)" "slot_frame n (n\<lparr>dn_pre_online := i\<rparr>)" "slot_frame n (n\<lparr>dn_rtick := j\<rparr>)"
  "slot_frame n (n\<lparr>dn_previous_vote_ts := x\<rparr>)" "slot_frame n (n\<lparr>dn_voting := v\<rparr>)"
  by (auto simp: slot_frame_def score_at_def move_state_def set_state_def)

lemma slot_frame_queries: "keeps slot_frame should_vote" "keeps slot_frame should_rebroadcast_ballot"
proof -
  have "keeps slot_frame online_peers"
    by (simp add: keeps_def online_peers_def run_simps slot_frame.R_refl)
  then show "keeps slot_frame should_vote" "keeps slot_frame should_rebroadcast_ballot"
    unfolding should_vote_def should_rebroadcast_ballot_def
    by (intro slot_frame.all slot_frame.cond base_frames [THEN slot_frame_base]; assumption?)+
qed

lemma slot_frame_ballots: "keeps slot_frame vote" "keeps slot_frame rebroadcast_ballot"
proof -
  have draw: "keeps slot_frame draw_ballot"
    by (simp add: keeps_def draw_ballot_def slot_frame.R_refl split: outcome.split)
  have send: "keeps slot_frame (send_ballot b e)" for b e
    unfolding send_ballot_def
    by (intro slot_frame.all slot_frame.modify base_frames [THEN slot_frame_base]) simp
  have voting: "keeps slot_frame (in_voting m)" for m :: "(voting, unit) py"
    by (auto simp: keeps_def in_voting_def run_simps split: prod.split)
  show "keeps slot_frame vote" unfolding vote_def
    by (intro slot_frame.all slot_frame.modify draw send voting) simp
  show "keeps slot_frame rebroadcast_ballot" unfolding rebroadcast_ballot_def
    by (intro slot_frame.all send)
qed

definition slot_kept :: "engine \<Rightarrow> engine \<Rightarrow> bool" where
  "slot_kept s t \<longleftrightarrow> (\<exists>n r. slot_frame (en_node s) n \<and> t = s\<lparr>en_node := n, en_loop_pre_request := r\<rparr>)"

lemma slot_keptI: "slot_frame (en_node s) n \<Longrightarrow> slot_kept s (s\<lparr>en_node := n\<rparr>)"
  unfolding slot_kept_def by (rule exI [of _ n], rule exI [of _ "en_loop_pre_request s"]) simp

interpretation slot_kept: state_preorder slot_kept
proof unfold_locales
  show "slot_kept s s" for s
    using slot_keptI [OF slot_frame.R_refl, of s] by simp
  show "slot_kept s u" if tu: "slot_kept s t" "slot_kept t u" for s t u
  proof -
    obtain n r m q where "slot_frame (en_node s) n" "t = s\<lparr>en_node := n, en_loop_pre_request := r\<rparr>"
      "slot_frame (en_node t) m" "u = t\<lparr>en_node := m, en_loop_pre_request := q\<rparr>"
      using tu unfolding slot_kept_def by blast
    then have "slot_frame (en_node s) m \<and> u = s\<lparr>en_node := m, en_loop_pre_request := q\<rparr>"
      by (auto intro: slot_frame.R_trans)
    then show ?thesis unfolding slot_kept_def by blast
  qed
qed

lemma slot_kept_node: "keeps slot_frame m \<Longrightarrow> keeps slot_kept (in_node m)"
  by (rule keepsI) (auto simp: in_node_def run_simps split: prod.split dest: keeps_run intro!: slot_keptI)

lemma slot_kept_rest: "keeps slot_kept vote_or_rebroadcast" "keeps slot_kept (in_node check_on_peers)" "keeps slot_kept retry_bootstrap"
proof -
  note base = base_frames [THEN slot_frame_base, THEN slot_kept_node]
  show "keeps slot_kept vote_or_rebroadcast"
    unfolding vote_or_rebroadcast_def
    by (intro slot_kept.all slot_kept.cond slot_kept_node slot_frame_ballots slot_frame_queries)
  show "keeps slot_kept (in_node check_on_peers)" by (intro base)
  have "slot_kept s (s\<lparr>en_loop_pre_request := r\<rparr>)" for s r
    by (auto simp: slot_kept_def intro!: exI [of _ "en_node s"] exI [of _ r] slot_frame.R_refl)
  then show "keeps slot_kept retry_bootstrap"
    unfolding retry_bootstrap_def by (intro slot_kept.all slot_kept.modify base)
qed

lemma slot_kept_epoch: "slot_kept s t \<Longrightarrow> dn_epoch (en_node t) = dn_epoch (en_node s)"
  by (auto simp: slot_kept_def slot_frame_def)

lemma slot_kept_active:
  assumes "node_state_of s \<notin> {WAITING_FOR_BOOTSTRAP, CATCHING_UP}"
  shows "slot_kept (snd (produce L s)) (snd (active L s))"
  using keepsD [OF slot_kept.seq [OF slot_kept_rest(1,2)]] assms
  by (auto simp: active_def run_bind run_gets run_when run_then [of "produce L"] slot_kept.R_refl split: prod.split outcome.split)

text \<open>An iteration without an update and a message is the production of blocks, up to the rest.\<close>

lemma slot_kept_iteration:
  assumes "\<not> en_exit s" "\<not> en_loop_starting s" "cm_queue (cn_comm (en_node s)) = []"
    and "node_state_of s \<notin> {WAITING_FOR_BOOTSTRAP, CATCHING_UP}"
  shows "slot_kept (snd (produce L s)) (snd (iteration L None s))"
proof -
  have "slot_kept (snd (active L s)) (snd (thenP (active L) (thenP retry_bootstrap (ret True)) s))"
    using keepsD [OF slot_kept.seq [OF slot_kept_rest(3) slot_kept.pure(1)]]
    by (auto simp: run_then [of "active L"] slot_kept.R_refl split: prod.split outcome.split)
  moreover have "loop_body L None s = thenP (active L) (thenP retry_bootstrap (ret True)) s"
    using assms(1-3) by (simp add: loop_body_def run_simps in_node_def node_recv_def in_comm_def comm_recv_def)
  moreover have "snd (iteration L None s) = snd (loop_body L None s)"
    by (simp add: iteration_def run_simps split: prod.split outcome.split)
  ultimately show ?thesis using slot_kept_active [OF assms(4)] slot_kept.R_trans by metis
qed

section \<open>A silent witness\<close>

lemma handle_missed_keeps:
  assumes "missed_slot L s = (r, t)" "node_state_of s \<in> {PRODUCTION, ELECTION}" "\<not> waiting s"
    and "is_initialized (dn_epoch (en_node s))" "signer_of s = Some w" "w \<in> set (en_members s)"
    and "cn_clock (en_node s) (cn_tick (en_node s)) - en_slot_started_at s > BLOCK_INTERVAL + SLOT_TIMEOUT"
  shows "t = snd (handle_missed_slot L (s\<lparr>en_node := (en_node s)\<lparr>cn_tick := Suc (cn_tick (en_node s))\<rparr>\<rparr>))"
proof -
  let ?u = "s\<lparr>en_node := (en_node s)\<lparr>cn_tick := Suc (cn_tick (en_node s))\<rparr>\<rparr>"
  have "slot_is_missed s = (Return True, ?u)"
    using assms(3,4,7) by (simp add: slot_is_missed_def run_simps in_node_def time_now_def waiting_def)
  moreover obtain j where "index_of (en_members s) w = Some j" using assms(6) index_of_None by fastforce
  ultimately have "missed_slot L s = handle_missed_slot L ?u"
    using assms(2,5)
    by (auto simp: missed_slot_def run_simps node_state_of_def signer_of_def expected_signer_def)
  then show ?thesis using assms(1) by (metis snd_conv)
qed

text \<open>The idle iteration of an engine whose witness \<open>w\<close> sends nothing is \<open>_handle_missed_slot\<close>, two clock
  readings later, up to the rest.\<close>

definition two_readings :: "engine \<Rightarrow> engine" where
  "two_readings s = s\<lparr>en_node := (en_node s)\<lparr>cn_tick := cn_tick (en_node s) + 2\<rparr>\<rparr>"

lemma silent_slot:
  assumes "\<not> en_exit s" "\<not> en_loop_starting s" "cm_queue (cn_comm (en_node s)) = []"
    and "node_state_of s \<in> {PRODUCTION, ELECTION}" "\<not> waiting s" "en_waiting_validation s = 0"
    and "steady (cn_clock (en_node s))" "cn_clock (en_node s) (cn_tick (en_node s)) - en_slot_started_at s > BLOCK_INTERVAL + SLOT_TIMEOUT"
    and "signer_of s = Some w" "w \<noteq> cn_key (en_node s)" "w \<in> set (en_members s)"
  shows "slot_kept (snd (handle_missed_slot L (two_readings s))) (snd (iteration L None s))"
proof -
  define s1 where "s1 = s\<lparr>en_node := (en_node s)\<lparr>cn_tick := Suc (cn_tick (en_node s))\<rparr>\<rparr>"
  have due: "time_for_next_block s = (Return True, s1)"
  proof -
    have "cn_clock (en_node s) (cn_tick (en_node s)) - en_slot_started_at s > BLOCK_INTERVAL"
      using assms(8) by (simp add: BLOCK_INTERVAL_def SLOT_TIMEOUT_def)
    then show ?thesis by (simp add: time_for_next_block_def run_simps in_node_def time_now_def s1_def)
  qed
  have "own_slot L s1 = (Return (), s1)"
    using assms(9,10) by (simp add: own_slot_def run_simps s1_def is_current_witness_def signer_of_def expected_signer_def)
  moreover obtain r u where missed: "missed_slot L s1 = (r, u)" by force
  ultimately have produce: "snd (produce L s) = u"
    using assms(4,6) by (auto simp: produce_def run_simps due)
  have "is_initialized (dn_epoch (en_node s))"
    using assms(9) by (auto simp: is_initialized_def signer_of_def expected_signer_def current_witness_eq)
  moreover have "cn_clock (en_node s) (Suc (cn_tick (en_node s))) - en_slot_started_at s > BLOCK_INTERVAL + SLOT_TIMEOUT"
    using assms(8) steady_mono [OF assms(7), of "cn_tick (en_node s)" "Suc (cn_tick (en_node s))"] by simp
  ultimately have "u = snd (handle_missed_slot L (two_readings s))"
    using handle_missed_keeps [OF missed, of w] assms(4-6,9-11)
    by (simp add: s1_def two_readings_def waiting_def node_state_of_def signer_of_def expected_signer_def)
  then show ?thesis using slot_kept_iteration [of s L] assms(1-4) produce by auto
qed

text \<open>C20: a silent witness is replaced: when, inside an epoch, the witness \<open>w\<close> of the slot (another member) has sent
  nothing and the clock of a running engine that waits for nothing shows \<open>BLOCK_INTERVAL + SLOT_TIMEOUT\<close>
  seconds since the slot began, the engine gives up on the slot in its next idle iteration, unless it was the last
  one of the epoch: \<open>w\<close> is no witness any more and waits at the end of the candidates, the first candidate
  has taken its place, and the slot has moved on by one.\<close>

theorem silent_witness_replaced:
  fixes s :: engine and L :: libs
  assumes "\<not> en_exit s" and "\<not> en_loop_starting s" and "cm_queue (cn_comm (en_node s)) = []"
    and "node_state_of s \<in> {PRODUCTION, ELECTION}" and "\<not> waiting s" and "en_waiting_validation s = 0"
    and "steady (cn_clock (en_node s))" and "cn_clock (en_node s) (cn_tick (en_node s)) - en_slot_started_at s > BLOCK_INTERVAL + SLOT_TIMEOUT"
    and "signer_of s = Some w" and "w \<noteq> cn_key (en_node s)" and "w \<in> set (en_members s)" and "score_at w (en_node s) = Some x"
    and "ep_candidates (dn_epoch (en_node s)) = c # cs" and "distinct (full_candidate_list (dn_epoch (en_node s)))"
    and "\<not> is_over (snd (increment_witness (lib_sha L) (hex (fst (en_pre_committed s))) (snd (downgrade_witness w (dn_epoch (en_node s))))))"
  defines "t \<equiv> snd (iteration L None s)"
  shows "\<not> is_witness w (dn_epoch (en_node t)) \<and> ep_candidates (dn_epoch (en_node t)) = cs @ [w]
    \<and> is_witness c (dn_epoch (en_node t))
    \<and> ep_witness_idx (dn_epoch (en_node t)) = ep_witness_idx (dn_epoch (en_node s)) + 1"
proof -
  let ?s = "two_readings s"
  define u where "u = snd (handle_missed_slot L ?s)"
  have t: "dn_epoch (en_node t) = dn_epoch (en_node u)"
    unfolding t_def u_def by (rule slot_kept_epoch [OF silent_slot [OF assms(1-11)]])
  have s2: "signer_of ?s = Some w" "w \<noteq> cn_key (en_node ?s)" "score_at w (en_node ?s) = Some x"
    "ep_candidates (dn_epoch (en_node ?s)) = c # cs" "distinct (full_candidate_list (dn_epoch (en_node ?s)))"
    "\<not> is_over (snd (increment_witness (lib_sha L) (hex (fst (en_pre_committed ?s))) (snd (downgrade_witness w (dn_epoch (en_node ?s))))))"
    using assms(9-15) by (simp_all add: two_readings_def signer_of_def expected_signer_def score_at_def)
  note effect = missed_slot_effect [OF s2]
  have "w \<in> set (ep_witnesses (dn_epoch (en_node s)))"
    using assms(9) by (simp add: signer_of_def expected_signer_def current_witness_in)
  then obtain i where "index_of (ep_witnesses (dn_epoch (en_node s))) w = Some i" using index_of_None by fastforce
  then have "c \<in> set (ep_witnesses (snd (downgrade_witness w (dn_epoch (en_node s)))))"
    using assms(13) by (auto simp: downgrade_witness_def set_update_memI dest!: index_of_Some)
  then have "is_witness c (dn_epoch (en_node u))"
    using effect by (simp add: u_def is_witness_def two_readings_def)
  moreover have "ep_witness_idx (dn_epoch (en_node ?s)) = ep_witness_idx (dn_epoch (en_node s))"
    by (simp add: two_readings_def)
  ultimately show ?thesis using effect [folded u_def] unfolding t by metis
qed

text \<open>An engine with an advancing clock, in the first slot of an epoch with one witness; the slot began when the
  engine was made.\<close>

definition slot_engine :: "service \<Rightarrow> bytes \<Rightarrow> rat \<Rightarrow> engine" where
  "slot_engine service me pace = (let s = started me [hex ''a'', hex ''b''] [''x'', ''y''] 1 (test_block ''h'' GENESIS_BLOCK_ID 0)
      service (\<lambda>_ _. True) (paced pace) (\<lambda>_. 1/2)
    in s\<lparr>en_loop_starting := False,
         en_node := (en_node s)\<lparr>dn_state := PRODUCTION, dn_epoch := \<lparr>ep_number = 1, ep_witness_idx = 0,
           ep_candidates = [hex ''b''], ep_witnesses = [hex ''a''], ep_num_slots = 1\<rparr>\<rparr>\<rparr>)"

abbreviation abandoned_engine :: engine where
  "abandoned_engine \<equiv> slot_engine test_service ''b'' 100"

lemma slot_engine_clock: "cn_clock (en_node (slot_engine v ''b'' 100)) = paced 100"
proof
  show "cn_clock (en_node (slot_engine v ''b'' 100)) i = paced 100 i" for i by code_simp
qed

theorem silent_witness_replaced_witness:
  "\<not> is_witness (hex ''a'') (dn_epoch (en_node (snd (iteration test_libs None abandoned_engine))))"
proof -
  have s: "\<not> en_exit abandoned_engine" "\<not> en_loop_starting abandoned_engine" "cm_queue (cn_comm (en_node abandoned_engine)) = []"
    "node_state_of abandoned_engine \<in> {PRODUCTION, ELECTION}" "\<not> waiting abandoned_engine" "en_waiting_validation abandoned_engine = 0"
    by code_simp+
  have steady: "steady (cn_clock (en_node abandoned_engine))" by (simp add: slot_engine_clock steady_paced)
  have e: "cn_clock (en_node abandoned_engine) (cn_tick (en_node abandoned_engine)) - en_slot_started_at abandoned_engine
      > BLOCK_INTERVAL + SLOT_TIMEOUT"
    "signer_of abandoned_engine = Some (hex ''a'')" "hex ''a'' \<noteq> cn_key (en_node abandoned_engine)"
    "hex ''a'' \<in> set (en_members abandoned_engine)" "score_at (hex ''a'') (en_node abandoned_engine) = Some 1"
    "ep_candidates (dn_epoch (en_node abandoned_engine)) = [hex ''b'']"
    "distinct (full_candidate_list (dn_epoch (en_node abandoned_engine)))"
    "\<not> is_over (snd (increment_witness (lib_sha test_libs) (hex (fst (en_pre_committed abandoned_engine)))
        (snd (downgrade_witness (hex ''a'') (dn_epoch (en_node abandoned_engine))))))"
    by code_simp+
  from silent_witness_replaced [OF s steady e] show ?thesis by blast
qed
section \<open>A produced block\<close>



lemma healthy_part:
  assumes "healthy L bs s" "set cs \<subseteq> set bs" "distinct (List.map b_block_id cs)"
  shows "healthy L cs s"
  using assms by (auto simp: healthy_def answers_def)





end
