(* ===== verification/Node_Traffic.thy ===== *)
theory Node_Traffic
  imports Node_Protocol
begin

text \<open>
  What a call on a node (\<open>engine/ddpoa_node.py\<close>) sends, stores and forgets. The relation \<open>traffic\<close>
  between the state before and after a call bounds the messages that leave, the ballots and the
  results that are stored, and says that nothing about the coming epoch is forgotten. The theory
  Cluster builds on it: there the messages of one node are the input of the others.
\<close>

section \<open>Views of a node\<close>

definition outgoing :: "ddpoa_node \<Rightarrow> consensus_message set" where
  "outgoing n = snd ` set (cm_outbox (cn_comm n))"

definition incoming :: "ddpoa_node \<Rightarrow> consensus_message set" where
  "incoming n = set (cm_queue (cn_comm n))"

definition cast_ballot :: "ddpoa_node \<Rightarrow> int \<Rightarrow> key \<Rightarrow> ballot option" where
  "cast_ballot n e k = dget (entries (vs_ballots (dn_voting n)) e) k"

definition known_result :: "ddpoa_node \<Rightarrow> int \<Rightarrow> key \<Rightarrow> result option" where
  "known_result n e k = dget (entries (vs_results (dn_voting n)) e) k"

definition upcoming :: "ddpoa_node \<Rightarrow> int" where
  "upcoming n = next_epoch_number (dn_epoch n)"

text \<open>Results and the pending broadcast belong to the coming epoch or to earlier ones.\<close>

definition tidy :: "ddpoa_node \<Rightarrow> bool" where
  "tidy n \<longleftrightarrow> (\<forall>e \<in> set (dkeys (vs_results (dn_voting n))). e \<le> upcoming n)
     \<and> (\<forall>t. dn_broadcast_timer n = Some t \<longrightarrow> bt_epoch t \<le> upcoming n)"

text \<open>
  A call sends only messages that satisfy \<open>S\<close>, signed with the node's own key; it stores only the
  ballots \<open>B\<close>, and only the results \<open>R\<close> besides the node's own; and it keeps the ballots for the
  coming epoch and later.
\<close>

definition traffic :: "(consensus_message \<Rightarrow> bool) \<Rightarrow> (int \<Rightarrow> key \<Rightarrow> ballot \<Rightarrow> bool) \<Rightarrow> (int \<Rightarrow> key \<Rightarrow> result \<Rightarrow> bool)
    \<Rightarrow> ddpoa_node \<Rightarrow> ddpoa_node \<Rightarrow> bool" where
  "traffic S B R s t \<longleftrightarrow>
     cn_key t = cn_key s \<and> vs_key (dn_voting t) = vs_key (dn_voting s) \<and> upcoming s \<le> upcoming t
     \<and> outgoing s \<subseteq> outgoing t \<and> (\<forall>m \<in> outgoing t - outgoing s. S m \<and> msg_signer m = cn_key s)
     \<and> incoming t \<subseteq> incoming s
     \<and> (\<forall>e k b. cast_ballot t e k = Some b \<longrightarrow> cast_ballot s e k = Some b \<or> B e k b)
     \<and> (\<forall>e k r. known_result t e k = Some r \<longrightarrow> known_result s e k = Some r \<or> k = vs_key (dn_voting s) \<or> R e k r)
     \<and> (tidy s \<longrightarrow> tidy t
         \<and> (\<forall>e k b. upcoming t \<le> e \<longrightarrow> cast_ballot s e k = Some b \<longrightarrow> cast_ballot t e k = Some b))"

lemma trafficI:
  assumes "cn_key t = cn_key s" "vs_key (dn_voting t) = vs_key (dn_voting s)" "upcoming s \<le> upcoming t"
    and "outgoing s \<subseteq> outgoing t" "\<And>m. m \<in> outgoing t \<Longrightarrow> m \<notin> outgoing s \<Longrightarrow> S m \<and> msg_signer m = cn_key s"
    and "incoming t \<subseteq> incoming s"
    and "\<And>e k b. cast_ballot t e k = Some b \<Longrightarrow> cast_ballot s e k = Some b \<or> B e k b"
    and "\<And>e k r. known_result t e k = Some r \<Longrightarrow> known_result s e k = Some r \<or> k = vs_key (dn_voting s) \<or> R e k r"
    and "tidy s \<Longrightarrow> tidy t"
    and "\<And>e k b. tidy s \<Longrightarrow> upcoming t \<le> e \<Longrightarrow> cast_ballot s e k = Some b \<Longrightarrow> cast_ballot t e k = Some b"
  shows "traffic S B R s t"
  using assms unfolding traffic_def by blast

lemma trafficD:
  assumes "traffic S B R s t"
  shows "cn_key t = cn_key s" "vs_key (dn_voting t) = vs_key (dn_voting s)" "upcoming s \<le> upcoming t"
    and "outgoing s \<subseteq> outgoing t" "m \<in> outgoing t \<Longrightarrow> m \<in> outgoing s \<or> S m \<and> msg_signer m = cn_key s"
    and "incoming t \<subseteq> incoming s"
    and "cast_ballot t e k = Some b \<Longrightarrow> cast_ballot s e k = Some b \<or> B e k b"
    and "known_result t e k = Some r \<Longrightarrow> known_result s e k = Some r \<or> k = vs_key (dn_voting s) \<or> R e k r"
    and "tidy s \<Longrightarrow> tidy t"
    and "tidy s \<Longrightarrow> upcoming t \<le> e \<Longrightarrow> cast_ballot s e k = Some b \<Longrightarrow> cast_ballot t e k = Some b"
  using assms unfolding traffic_def by blast+

interpretation traffic: state_preorder "traffic S B R" for S B R
proof
  show "traffic S B R s s" for s by (simp add: traffic_def)
next
  fix s t u
  assume st: "traffic S B R s t" and tu: "traffic S B R t u"
  have "tidy s \<Longrightarrow> upcoming u \<le> e \<Longrightarrow> cast_ballot s e k = Some b \<Longrightarrow> cast_ballot u e k = Some b" for e k b
    using st tu unfolding traffic_def by (meson order_trans)
  moreover have "\<forall>m \<in> outgoing u - outgoing s. S m \<and> msg_signer m = cn_key s"
    using st tu unfolding traffic_def by (metis Diff_iff)
  moreover have "\<forall>e k b. cast_ballot u e k = Some b \<longrightarrow> cast_ballot s e k = Some b \<or> B e k b"
    using st tu unfolding traffic_def by meson
  moreover have "\<forall>e k r. known_result u e k = Some r \<longrightarrow> known_result s e k = Some r \<or> k = vs_key (dn_voting s) \<or> R e k r"
    using st tu unfolding traffic_def by metis
  moreover have "upcoming s \<le> upcoming u" "outgoing s \<subseteq> outgoing u" "incoming u \<subseteq> incoming s"
      "cn_key u = cn_key s" "vs_key (dn_voting u) = vs_key (dn_voting s)" "tidy s \<longrightarrow> tidy u"
    using st tu unfolding traffic_def by auto
  ultimately show "traffic S B R s u" unfolding traffic_def by auto
qed

text \<open>A call that sends no ballot and stores none, nor a foreign result.\<close>

definition not_vote :: "consensus_message \<Rightarrow> bool" where
  "not_vote m \<longleftrightarrow> msg_type m \<noteq> VOTE"

definition nothing :: "int \<Rightarrow> key \<Rightarrow> string list \<Rightarrow> bool" where
  "nothing e k x \<longleftrightarrow> False"

abbreviation quiet :: "ddpoa_node \<Rightarrow> ddpoa_node \<Rightarrow> bool" where
  "quiet \<equiv> traffic not_vote nothing nothing"

lemma traffic_mono: "traffic S B R s t \<Longrightarrow> (\<And>m. S m \<Longrightarrow> S' m) \<Longrightarrow> (\<And>e k b. B e k b \<Longrightarrow> B' e k b)
    \<Longrightarrow> (\<And>e k r. R e k r \<Longrightarrow> R' e k r) \<Longrightarrow> traffic S' B' R' s t"
  unfolding traffic_def by blast

lemma quiet_traffic: "quiet s t \<Longrightarrow> (\<And>m. not_vote m \<Longrightarrow> S m) \<Longrightarrow> traffic S B R s t"
  by (erule traffic_mono) (simp_all add: nothing_def)

lemma traffic_same:
  assumes "cn_key t = cn_key s" "dn_voting t = dn_voting s" "dn_epoch t = dn_epoch s"
    "dn_broadcast_timer t = dn_broadcast_timer s" "outgoing t = outgoing s" "incoming t \<subseteq> incoming s"
  shows "traffic S B R s t"
  using assms by (simp add: traffic_def cast_ballot_def known_result_def upcoming_def tidy_def)

section \<open>The calls of the base class\<close>

lemma same_comm: "cn_comm t = cn_comm s \<Longrightarrow> outgoing t = outgoing s" "cn_comm t = cn_comm s \<Longrightarrow> incoming t = incoming s"
  by (simp_all add: outgoing_def incoming_def)

lemma traffic_attrs [simp]:
  "traffic S B R n (n\<lparr>cn_tick := i\<rparr>)" "traffic S B R n (put_peer k p n)" "traffic S B R n (cn_remove_peer k n)"
  "traffic S B R n (n\<lparr>cn_last_peer_check := x\<rparr>)" "traffic S B R n (n\<lparr>dn_previous_vote_ts := x\<rparr>)"
  "traffic S B R n (n\<lparr>dn_pre_online := j\<rparr>)" "traffic S B R n (n\<lparr>dn_rtick := l\<rparr>)"
  "traffic S B R n (n\<lparr>dn_ready_result := d\<rparr>)" "traffic S B R n (set_state st n)" "traffic S B R n (move_state st n)"
  by (rule traffic_same; simp add: same_comm put_peer_def cn_remove_peer_def set_state_def move_state_def outgoing_def
      incoming_def split: option.split)+

lemma traffic_cancel_timer [simp]: "traffic S B R n (cancel_timer n)"
  by (auto simp: traffic_def cancel_timer_def cast_ballot_def known_result_def upcoming_def tidy_def outgoing_def
      incoming_def)

lemma traffic_time_now: "keeps (traffic S B R) time_now"
  by (simp add: keeps_def time_now_def)

lemma traffic_get_peer: "keeps (traffic S B R) (get_peer k)"
  unfolding get_peer_def by (intro traffic.all)

lemma traffic_in_comm:
  assumes "\<And>c. cm_outbox (snd (m c)) = cm_outbox c" "\<And>c. set (cm_queue (snd (m c))) \<subseteq> set (cm_queue c)"
  shows "keeps (traffic S B R) (in_comm m)"
proof (rule keepsI)
  fix s
  show "traffic S B R s (snd (in_comm m s))"
    using assms [of "cn_comm s"]
    by (cases "m (cn_comm s)"; intro traffic_same; simp add: in_comm_def run_simps outgoing_def incoming_def)
qed

lemma log_of_calls:
  "cm_outbox (snd (comm_ping k c)) = cm_outbox c" "cm_queue (snd (comm_ping k c)) = cm_queue c"
  "cm_outbox (snd (comm_add_peer k ip c)) = cm_outbox c" "cm_queue (snd (comm_add_peer k ip c)) = cm_queue c"
  "cm_outbox (snd (comm_recv c)) = cm_outbox c" "set (cm_queue (snd (comm_recv c))) \<subseteq> set (cm_queue c)"
  "cm_outbox (timer_connect k c) = cm_outbox c" "cm_queue (timer_connect k c) = cm_queue c"
  by (auto simp: comm_ping_def ping_entry_def comm_add_peer_def comm_recv_def timer_connect_def set_peer_def run_simps
      Let_def split: option.splits prod.splits list.splits outcome.splits)

lemma traffic_add_messages:
  assumes "cn_key t = cn_key s" "dn_voting t = dn_voting s" "dn_epoch t = dn_epoch s"
    "dn_broadcast_timer t = dn_broadcast_timer s" "cm_queue (cn_comm t) = cm_queue (cn_comm s)"
    and "outgoing s \<subseteq> outgoing t" "\<forall>m \<in> outgoing t - outgoing s. S m \<and> msg_signer m = cn_key s"
  shows "traffic S B R s t"
  using assms by (simp add: traffic_def cast_ballot_def known_result_def upcoming_def tidy_def incoming_def)

text \<open>A message leaves stamped, so that its type, its epoch and its contents are those given.\<close>

definition stamped :: "(consensus_message \<Rightarrow> bool) \<Rightarrow> consensus_message \<Rightarrow> bool" where
  "stamped S m \<longleftrightarrow> (\<forall>t k. S (m\<lparr>msg_timestamp := t, msg_signer := k\<rparr>))"

lemma traffic_broadcast: "stamped S m \<Longrightarrow> keeps (traffic S B R) (broadcast m)"
  by (auto simp: keeps_def broadcast_def stamp_def run_simps time_now_def in_comm_def stamped_def outgoing_def
      broadcast_outbox intro!: traffic_add_messages)

lemma traffic_send_to: "stamped S m \<Longrightarrow> keeps (traffic S B R) (send_to k m)"
  by (auto simp: keeps_def send_to_def stamp_def run_simps time_now_def in_comm_def stamped_def outgoing_def
      comm_send_def peer_send_def intro!: traffic_add_messages split: option.split)

lemma stamped_not_vote: "msg_type m \<noteq> VOTE \<Longrightarrow> stamped not_vote m"
  by (simp add: stamped_def not_vote_def)

lemma quiet_base:
  "keeps quiet (send_ping k)" "keeps quiet (cn_seen k)" "keeps quiet (cn_peer_connected k ip)"
  "keeps quiet check_on_peers" "keeps quiet node_recv" "keeps quiet (in_comm (modify (timer_connect k)))"
  "keeps quiet broadcast_empty_slot" "keeps quiet broadcast_bootstrap_request"
  "keeps quiet (send_bootstrap_message k a i b)" "keeps quiet (send_bootstrap_request k)"
proof -
  show ping: "keeps quiet (send_ping k)" for k
    unfolding send_ping_def by (rule traffic_in_comm) (simp_all add: log_of_calls)
  have "keeps quiet (check_peer now k)" for now k
    unfolding check_peer_def by (intro traffic.all traffic.cond traffic.modify traffic_get_peer traffic_time_now ping) simp_all
  then show "keeps quiet check_on_peers"
    unfolding check_on_peers_def by (intro traffic.all traffic.cond traffic.modify traffic_time_now) simp_all
  show "keeps quiet (cn_seen k)"
    unfolding cn_seen_def by (intro traffic.all traffic.modify traffic_get_peer traffic_time_now) simp
  show "keeps quiet (cn_peer_connected k ip)" "keeps quiet node_recv" "keeps quiet (in_comm (modify (timer_connect k)))"
    unfolding cn_peer_connected_def node_recv_def by (rule traffic_in_comm; simp add: log_of_calls run_simps)+
  show "keeps quiet broadcast_empty_slot" "keeps quiet broadcast_bootstrap_request"
    "keeps quiet (send_bootstrap_message k a i b)" "keeps quiet (send_bootstrap_request k)"
    unfolding broadcast_empty_slot_def broadcast_bootstrap_request_def send_bootstrap_message_def send_bootstrap_request_def
    by (intro traffic_broadcast traffic_send_to stamped_not_vote; simp add: ConsensusMessage_def)+
qed
section \<open>Forgetting old epochs\<close>

definition forgets :: "int set \<Rightarrow> voting \<Rightarrow> voting \<Rightarrow> bool" where
  "forgets E v w \<longleftrightarrow> vs_key w = vs_key v \<and> set (dkeys (vs_results w)) \<subseteq> set (dkeys (vs_results v))
     \<and> (\<forall>e. entries (vs_ballots w) e = entries (vs_ballots v) e \<or> e \<in> E \<and> entries (vs_ballots w) e = [])
     \<and> (\<forall>e. entries (vs_results w) e = entries (vs_results v) e \<or> entries (vs_results w) e = [])"

interpretation forgets: state_preorder "forgets E" for E
proof
  show "forgets E s s" for s by (simp add: forgets_def)
  show "forgets E s u" if "forgets E s t" "forgets E t u" for s t u
    using that unfolding forgets_def by (metis subset_trans)
qed

lemma forgets_drop: "n \<in> E \<Longrightarrow> keeps (forgets E) (drop_epoch n)"
  by (auto simp: keeps_def run_drop_epoch forgets_def drop_epochs_def entries_ddel dict.keys_del)

lemma forgets_remove_old: "forgets (set (dkeys (vs_results v))) v (snd (remove_old_epoch_data v))"
proof -
  have "keeps (forgets (set (dkeys (vs_results v)))) (for_each (slice_to (- 5) (sort (dkeys (vs_results v)))) drop_epoch)"
    by (intro forgets.loop forgets_drop) (auto simp: slice_to_def dest: in_set_takeD)
  then show ?thesis by (auto simp: run_remove_old forgets.R_refl keeps_def)
qed

section \<open>The calls of the derived class\<close>

lemma upcoming_simps [simp]:
  "upcoming (n\<lparr>dn_voting := v\<rparr>) = upcoming n" "upcoming (ready_node m k r n) = upcoming n"
  "upcoming (seated_epoch e cs n) = e + 1" "upcoming (fresh_epoch e n) = e + 1"
  by (simp_all add: upcoming_def next_epoch_number_def Epoch_init_def set_candidates_and_witnesses_def)

lemma comm_of_epochs [simp]:
  "cn_comm (fresh_epoch e n) = cn_comm n" "cn_comm (seated_epoch e cs n) = cn_comm n"
  "cn_key (fresh_epoch e n) = cn_key n" "cn_key (seated_epoch e cs n) = cn_key n"
  "dn_broadcast_timer (fresh_epoch e n) = dn_broadcast_timer n" "dn_broadcast_timer (seated_epoch e cs n) = dn_broadcast_timer n"
  by (simp_all add: fresh_epoch_def seated_epoch_def move_state_def set_state_def)

text \<open>Entries that are not forgotten were there before.\<close>

lemma forgets_entries:
  assumes "forgets E v w"
  shows "dget (entries (vs_ballots w) e) k = Some b \<Longrightarrow> dget (entries (vs_ballots v) e) k = Some b"
    and "dget (entries (vs_results w) e) k = Some r \<Longrightarrow> dget (entries (vs_results v) e) k = Some r"
    and "e \<notin> E \<Longrightarrow> entries (vs_ballots w) e = entries (vs_ballots v) e"
proof -
  from assms have b: "entries (vs_ballots w) e = entries (vs_ballots v) e \<or> e \<in> E \<and> entries (vs_ballots w) e = []"
    and r: "entries (vs_results w) e = entries (vs_results v) e \<or> entries (vs_results w) e = []"
    by (simp_all add: forgets_def)
  show "dget (entries (vs_ballots w) e) k = Some b \<Longrightarrow> dget (entries (vs_ballots v) e) k = Some b" using b by auto
  show "dget (entries (vs_results w) e) k = Some r \<Longrightarrow> dget (entries (vs_results v) e) k = Some r" using r by auto
  show "e \<notin> E \<Longrightarrow> entries (vs_ballots w) e = entries (vs_ballots v) e" using b by auto
qed

lemma quiet_seated: "e = upcoming n \<Longrightarrow> quiet n (fresh_epoch e n)"
  by (auto simp: traffic_def cast_ballot_def known_result_def tidy_def outgoing_def incoming_def intro: order_trans)

lemma quiet_initialize_epoch:
  assumes "e = upcoming n"
  shows "quiet n (snd (initialize_epoch e n))"
proof (cases "get_candidates e (dn_voting n)")
  case (Some cs)
  obtain r w where w: "remove_old_epoch_data (dn_voting n) = (r, w)" by force
  have f: "forgets (set (dkeys (vs_results (dn_voting n)))) (dn_voting n) w"
    using forgets_remove_old [of "dn_voting n"] by (simp add: w)
  note fe = forgets_entries [OF f]
  define t where "t = (seated_epoch e cs n)\<lparr>dn_voting := w\<rparr>"
  have attrs: "cn_key t = cn_key n" "cn_comm t = cn_comm n" "dn_voting t = w" "upcoming t = upcoming n + 1"
      "dn_broadcast_timer t = dn_broadcast_timer n"
    using assms by (simp_all add: t_def)
  have "set (dkeys (vs_results w)) \<subseteq> set (dkeys (vs_results (dn_voting n)))" using f by (simp add: forgets_def)
  then have "a \<le> upcoming n" if "tidy n" "a \<in> set (dkeys (vs_results w))" for a using that by (auto simp: tidy_def)
  moreover have "bt_epoch x \<le> upcoming n" if "tidy n" "dn_broadcast_timer n = Some x" for x
    using that by (simp add: tidy_def)
  ultimately have "tidy t" if "tidy n"
    using that unfolding tidy_def [of t] attrs by (meson add_increasing2 zero_le_one)
  moreover have "cast_ballot t a k = Some b" if "tidy n" "upcoming t \<le> a" "cast_ballot n a k = Some b" for a k b
  proof -
    have "a \<notin> set (dkeys (vs_results (dn_voting n)))" using that by (force simp: tidy_def attrs)
    from fe(3) [OF this] that(3) show ?thesis by (simp add: cast_ballot_def attrs)
  qed
  moreover have "vs_key w = vs_key (dn_voting n)" using f by (simp add: forgets_def)
  ultimately have "quiet n t"
    by (intro trafficI) (simp_all add: attrs outgoing_def incoming_def, simp_all add: attrs cast_ballot_def known_result_def fe(1,2))
  then show ?thesis using Some by (simp add: run_initialize_epoch in_voting_def run_simps w t_def)
qed (simp add: run_initialize_epoch quiet_seated [OF assms])

lemma quiet_epoch:
  assumes "ep_number e = ep_number (dn_epoch n)"
  shows "traffic S B R n (n\<lparr>dn_epoch := e\<rparr>)"
  using assms
  by (simp add: traffic_def cast_ballot_def known_result_def upcoming_def next_epoch_number_def tidy_def outgoing_def incoming_def)

lemma traffic_finalize: "traffic S B R n (finalize_epoch n)"
  unfolding finalize_epoch_def Let_def by (rule traffic.R_trans [where t = "move_state IDLE n"]) simp_all

lemma quiet_next_slot: "keeps quiet (node_next_slot sha b)"
proof (rule keepsI)
  fix n
  have s: "quiet n (slotted sha b n)" and num: "ep_number (dn_epoch (slotted sha b n)) = ep_number (dn_epoch n)"
    using increment_frame(3) [of sha b "dn_epoch n"] unfolding slotted_def by (auto intro: quiet_epoch)
  let ?f = "finalize_epoch (slotted sha b n)"
  have f: "quiet n ?f" by (rule traffic.R_trans [OF s traffic_finalize])
  have "dn_epoch ?f = dn_epoch (slotted sha b n)"
    by (simp add: finalize_epoch_def move_state_def set_state_def Let_def)
  then have "quiet ?f (snd (initialize_epoch (next_epoch_number (dn_epoch n)) ?f))"
    using num by (intro quiet_initialize_epoch) (simp add: upcoming_def next_epoch_number_def)
  with f s show "quiet n (snd (node_next_slot sha b n))"
    by (auto simp: run_node_next_slot Let_def intro: traffic.R_trans)
qed
lemma quiet_broadcast_result:
  assumes "tidy n \<Longrightarrow> e \<le> upcoming n"
  shows "quiet n (snd (broadcast_result stv sha e n))"
proof -
  obtain r v where rv: "calculate_result stv sha e (dn_voting n) = (r, v)" by force
  note frame = calculate_result_frame [of stv sha e "dn_voting n", unfolded rv, simplified]
  let ?t = "n\<lparr>dn_voting := v\<rparr>"
  have known: "known_result ?t a k = Some x \<Longrightarrow> known_result n a k = Some x \<or> k = vs_key (dn_voting n)" for a k x
    using rv by (auto simp: run_calculate_result known_result_def results_set_peer_result entries_dput dict_simps
        split: option.splits outcome.splits if_splits)
  have keys: "a \<in> set (dkeys (vs_results (dn_voting n))) \<or> a = e" if "a \<in> set (dkeys (vs_results v))" for a
    using rv that by (auto simp: run_calculate_result results_set_peer_result dict_simps split: option.splits outcome.splits if_splits)
  have "tidy ?t" if "tidy n" using that keys assms by (fastforce simp: tidy_def)
  then have q: "quiet n ?t"
    by (intro trafficI) (simp_all add: frame outgoing_def incoming_def, auto simp: cast_ballot_def frame dest: known)
  show ?thesis
  proof (cases r)
    case (Return x)
    have "quiet ?t (snd (broadcast ((ConsensusMessage VOTE_RESULT)\<lparr>msg_result := x, msg_epoch := e\<rparr>) ?t))"
      by (intro keepsD [OF traffic_broadcast] stamped_not_vote) (simp add: ConsensusMessage_def)
    with q Return show ?thesis
      by (auto simp: broadcast_result_def in_voting_def run_simps rv intro: traffic.R_trans)
  qed (use q in \<open>simp_all add: broadcast_result_def in_voting_def run_simps rv\<close>)
qed

lemma traffic_set_timer:
  "(tidy n \<Longrightarrow> e \<le> upcoming n) \<Longrightarrow> quiet n (n\<lparr>dn_broadcast_timer := Some \<lparr>bt_epoch = e, bt_pending = b\<rparr>\<rparr>)"
  by (intro trafficI) (auto simp: outgoing_def incoming_def upcoming_def cast_ballot_def known_result_def tidy_def)

definition this_entry :: "int \<Rightarrow> key \<Rightarrow> string list \<Rightarrow> int \<Rightarrow> key \<Rightarrow> string list \<Rightarrow> bool" where
  "this_entry e k x e' k' x' \<longleftrightarrow> e' = e \<and> k' = k \<and> x' = x"

lemma cast_add_ballot: "cast_ballot (n\<lparr>dn_voting := add_ballot e k b (dn_voting n)\<rparr>) a j =
    (if a = e \<and> j = k then Some b else cast_ballot n a j)"
  by (simp add: cast_ballot_def ballots_add_ballot entries_dput dict_simps)

lemma has_voted_cast: "has_voted k e (dn_voting n) \<longleftrightarrow> cast_ballot n e k \<noteq> None"
  by (simp add: cast_ballot_def has_voted_entries)

lemma traffic_add_ballot:
  assumes "cast_ballot n e k = None"
  shows "traffic S (this_entry e k b) R n (n\<lparr>dn_voting := add_ballot e k b (dn_voting n)\<rparr>)"
proof (rule trafficI)
  let ?t = "n\<lparr>dn_voting := add_ballot e k b (dn_voting n)\<rparr>"
  show "cast_ballot ?t a j = Some x \<Longrightarrow> cast_ballot n a j = Some x \<or> this_entry e k b a j x" for a j x
    by (simp add: cast_add_ballot this_entry_def split: if_splits)
  show "cast_ballot n a j = Some x \<Longrightarrow> cast_ballot ?t a j = Some x" for a j x
    using assms by (auto simp: cast_add_ballot)
  show "known_result ?t a j = Some r \<Longrightarrow> known_result n a j = Some r \<or> j = vs_key (dn_voting n) \<or> R a j r" for a j r
    by (simp add: known_result_def)
qed (simp_all add: outgoing_def incoming_def tidy_def)

lemma traffic_handle_vote:
  "traffic not_vote (this_entry (msg_epoch msg) k (msg_votes msg)) nothing n (snd (handle_vote stv sha msg k n))"
proof (cases "msg_epoch msg \<noteq> upcoming n \<or> has_voted k (msg_epoch msg) (dn_voting n)")
  case True
  then show ?thesis by (simp add: run_handle_vote upcoming_def traffic.R_refl)
next
  case False
  let ?B = "this_entry (msg_epoch msg) k (msg_votes msg)"
  let ?v = "add_ballot (msg_epoch msg) k (msg_votes msg) (dn_voting n)"
  let ?n = "(cancel_timer (n\<lparr>dn_voting := ?v\<rparr>))\<lparr>dn_pre_online := comm_online_peers (cn_comm n) + 1\<rparr>"
  have "traffic not_vote ?B nothing n (n\<lparr>dn_voting := ?v\<rparr>)"
    using False by (intro traffic_add_ballot) (simp add: has_voted_cast)
  then have n: "traffic not_vote ?B nothing n ?n"
    by (rule traffic.R_trans [OF traffic.R_trans [OF _ traffic_cancel_timer] traffic_attrs(6)])
  have e: "msg_epoch msg \<le> upcoming ?n" using False by (simp add: upcoming_def cancel_timer_def)
  have "traffic not_vote ?B nothing ?n (snd (broadcast_result stv sha (msg_epoch msg) ?n))"
    "traffic not_vote ?B nothing ?n (?n\<lparr>dn_broadcast_timer := Some \<lparr>bt_epoch = msg_epoch msg, bt_pending = True\<rparr>\<rparr>)"
    using e by (auto intro!: quiet_traffic [OF quiet_broadcast_result] quiet_traffic [OF traffic_set_timer])
  with n traffic.R_trans have "traffic not_vote ?B nothing n (snd (broadcast_result stv sha (msg_epoch msg) ?n))"
    "traffic not_vote ?B nothing n (?n\<lparr>dn_broadcast_timer := Some \<lparr>bt_epoch = msg_epoch msg, bt_pending = True\<rparr>\<rparr>)"
    by blast+
  then show ?thesis using n False unfolding run_handle_vote Let_def upcoming_def by simp
qed
lemma quiet_timer: "keeps quiet (timer_fires stv sha)"
proof (rule keepsI)
  fix n
  show "quiet n (snd (timer_fires stv sha n))"
  proof (cases "dn_broadcast_timer n")
    case (Some t)
    have "tidy (cancel_timer n) \<Longrightarrow> bt_epoch t \<le> upcoming (cancel_timer n)"
      using Some by (auto simp: tidy_def cancel_timer_def upcoming_def)
    then have "quiet n (snd (broadcast_result stv sha (bt_epoch t) (cancel_timer n)))"
      by (intro traffic.R_trans [OF traffic_cancel_timer quiet_broadcast_result])
    then show ?thesis using Some by (simp add: timer_fires_def run_simps traffic.R_refl)
  qed (simp add: timer_fires_def run_simps traffic.R_refl)
qed

lemma traffic_noted_result:
  assumes "msg_epoch msg = upcoming n"
  shows "traffic S B (this_entry (msg_epoch msg) k (msg_result msg)) n (n\<lparr>dn_voting := noted_result msg k n\<rparr>)"
  using assms
  by (intro trafficI)
    (auto simp: noted_result_def known_result_def cast_ballot_def results_set_peer_result entries_dput dict_simps
      this_entry_def tidy_def outgoing_def incoming_def split: if_splits)

lemma traffic_handle_vote_result:
  "traffic not_vote nothing (this_entry (msg_epoch msg) k (msg_result msg)) n (snd (handle_vote_result msg k n))"
proof (cases "msg_epoch msg = upcoming n")
  case True
  let ?T = "traffic not_vote nothing (this_entry (msg_epoch msg) k (msg_result msg))"
  obtain r c where rc: "get_consensus_result (msg_epoch msg) (noted_result msg k n) = Return (r, c)"
    by (rule noted_result_total)
  let ?n = "n\<lparr>dn_voting := noted_result msg k n\<rparr>"
  have n: "?T n ?n" by (rule traffic_noted_result [OF True])
  have "?T ?n (ready_node msg k r n)"
    by (rule trafficI) (auto simp: ready_node_def set_candidates_def upcoming_def cast_ballot_def known_result_def tidy_def
        outgoing_def incoming_def)
  with n have ready: "?T n (ready_node msg k r n)" by (rule traffic.R_trans)
  have "?T (ready_node msg k r n) (snd (initialize_epoch (msg_epoch msg) (ready_node msg k r n)))"
    using True by (intro quiet_traffic [OF quiet_initialize_epoch]) simp_all
  with ready have init: "?T n (snd (initialize_epoch (msg_epoch msg) (ready_node msg k r n)))" by (rule traffic.R_trans)
  have early: "?T n (?n\<lparr>dn_pre_online := comm_online_peers (cn_comm n) + 1\<rparr>)"
    by (rule traffic.R_trans [OF n]) simp
  have "snd (case x of (Return _, t) \<Rightarrow> (Return True, t) | (Raise e, t) \<Rightarrow> (Raise e, t) | (Hang, t) \<Rightarrow> (Hang, t)) = snd x"
    for x :: "unit outcome \<times> ddpoa_node" by (cases x) (simp split: outcome.split)
  then show ?thesis
    using init ready early True by (simp add: run_handle_vote_result [OF rc] upcoming_def)
qed (simp add: handle_vote_result_def run_simps upcoming_def traffic.R_refl)

lemma quiet_derived:
  "keeps quiet (penalize k)" "keeps quiet (reward k)" "keeps quiet (downgrade k)" "keeps quiet online_peers"
  "keeps quiet should_vote" "keeps quiet should_rebroadcast_ballot"
proof -
  show o: "keeps quiet online_peers" by (simp add: keeps_def run_online_peers)
  have "keeps quiet (set_score k f)" for f
    unfolding set_score_def by (intro traffic.all traffic.modify traffic_get_peer) simp
  then show "keeps quiet (penalize k)" "keeps quiet (reward k)"
    unfolding penalize_def reward_def by (intro traffic.all traffic.cond; assumption?)+
  have "quiet n (n\<lparr>dn_epoch := snd (downgrade_witness k (dn_epoch n))\<rparr>)" for n
    by (intro quiet_epoch downgrade_frame)
  then show "keeps quiet (downgrade k)"
    by (auto simp: keeps_def downgrade_def in_epoch_def run_simps split: prod.split) (metis snd_conv)
  show "keeps quiet should_vote" "keeps quiet should_rebroadcast_ballot"
    unfolding should_vote_def should_rebroadcast_ballot_def
    by (intro traffic.all traffic.cond o traffic_time_now)+
qed

text \<open>A bootstrap that does not go back to an earlier epoch.\<close>

lemma quiet_bootstrap: "ep_number (dn_epoch n) \<le> e \<Longrightarrow> quiet n (node_bootstrap e i cs slots n)"
  by (intro trafficI)
    (auto simp: node_bootstrap_def upcoming_def next_epoch_number_def Epoch_init_def set_candidates_and_witnesses_def
      cast_ballot_def known_result_def tidy_def outgoing_def incoming_def intro: order_trans)

section \<open>The calls, all together\<close>

text \<open>The calls that neither take a message from the network nor send a ballot, and do not go back.\<close>

fun undisturbed :: "ddpoa_node \<Rightarrow> node_call \<Rightarrow> bool" where
  "undisturbed n (Bootstrap e i cs slots) = (ep_number (dn_epoch n) \<le> e)"
| "undisturbed n c = (case c of Vote \<Rightarrow> False | Rebroadcast \<Rightarrow> False | Arrive m \<Rightarrow> False | Receive \<Rightarrow> False
     | Ballot m k \<Rightarrow> False | Result m k \<Rightarrow> False | _ \<Rightarrow> True)"

lemma quiet_step: "undisturbed n c \<Longrightarrow> quiet n (node_step stv sha c n)"
  unfolding node_step_def
  by (cases c; simp only: undisturbed.simps node_call.case;
      (rule quiet_bootstrap | rule keepsD, rule quiet_base quiet_derived quiet_next_slot quiet_timer)?; simp)

end
