(* ===== verification/Vote_Agreement.thy ===== *)
theory Vote_Agreement
  imports Voting
begin

text \<open>
  Two nodes that hold the same ballots of an epoch compute the same result, in whatever order the
  ballots reached them. The scores of \<open>break_ties\<close> are sums of binary64 numbers, whose addition
  is not associative in general; here every weight is a power of two, so that the sums are exact
  as long as their significands fit into 53 bits, and then no order matters.
\<close>

section \<open>Exact sums of weights\<close>

text \<open>Numbers \<open>m / 2 ^ n\<close> with a numerator of at most \<open>q\<close>.\<close>

definition grid :: "nat \<Rightarrow> nat \<Rightarrow> rat \<Rightarrow> bool" where
  "grid n q x \<longleftrightarrow> (\<exists>m. x = of_nat m / 2 ^ n \<and> m \<le> q)"

lemma grid_0: "grid n q 0"
  unfolding grid_def by (intro exI [of _ 0]) simp

lemma grid_le: "grid n q x \<Longrightarrow> q \<le> r \<Longrightarrow> grid n r x"
  by (auto simp: grid_def)

lemma grid_add: "grid n q x \<Longrightarrow> grid n r y \<Longrightarrow> grid n (q + r) (x + y)"
  by (auto simp: grid_def add_divide_distrib [symmetric] simp flip: of_nat_add intro: add_mono)

lemma grid_exact:
  assumes "grid n q x" "q < 2 ^ 53" "n \<le> 1074"
  shows "fl x = x"
proof -
  obtain m where m: "x = of_nat m / 2 ^ n" "m \<le> q" using assms(1) by (auto simp: grid_def)
  then have "x = of_int (int m) * 2 powi (- int n)" by (simp add: power_int_minus divide_inverse)
  moreover have "int m < 2 ^ 53" using m(2) assms(2) by (metis le_less_trans of_nat_less_iff of_nat_numeral of_nat_power)
  ultimately show ?thesis using assms(3) by (intro fl_exact [of x "int m" "- int n"]) simp_all
qed

lemma grid_weight: "i < n \<Longrightarrow> grid n (2 ^ (n - 1)) (1 / 2 ^ Suc i)"
proof -
  assume i: "i < n"
  then have "(2::rat) ^ n = 2 ^ (n - Suc i) * 2 ^ Suc i" by (simp flip: power_add power_Suc)
  then have "(1::rat) / 2 ^ Suc i = of_nat (2 ^ (n - Suc i)) / 2 ^ n" by (simp add: field_simps)
  moreover have "(2::nat) ^ (n - Suc i) \<le> 2 ^ (n - 1)" by (intro power_increasing) auto
  ultimately show ?thesis unfolding grid_def by blast
qed

lemma fl_half_power: "i \<le> 1074 \<Longrightarrow> fl (1 / 2 ^ i) = 1 / 2 ^ i"
  by (rule grid_exact [of i 1]) (auto simp: grid_def intro: exI [of _ 1])

lemma tie_weights_nth: "j + k \<le> 1074 \<Longrightarrow> i < k \<Longrightarrow> tie_weights k (1 / 2 ^ j) ! i = 1 / 2 ^ (j + Suc i)"
proof (induction k arbitrary: i j)
  case (Suc k)
  have "fdiv (1 / 2 ^ j) 2 = 1 / 2 ^ Suc j"
    using fl_half_power [of "Suc j"] Suc.prems(1) by (simp add: fdiv_def mult.commute)
  then show ?case
    using Suc.IH [of "Suc j" "i - 1"] Suc.prems by (cases i) (simp_all add: Let_def)
qed simp

lemma all_weights_nth: "n \<le> 1074 \<Longrightarrow> i < max 1 n \<Longrightarrow> all_weights n ! i = 1 / 2 ^ Suc i"
  using tie_weights_nth [of 1 "n - 1" "i - 1"] by (cases i) (auto simp: all_weights_def)

text \<open>What a ballot, from its \<open>i\<close>-th place on, adds to the score of a candidate.\<close>

fun contrib :: "nat \<Rightarrow> ballot \<Rightarrow> key \<Rightarrow> rat" where
  "contrib i [] c = 0"
| "contrib i (x # xs) c = (if x = c then 1 / 2 ^ Suc i else 0) + contrib (Suc i) xs c"

lemma score_of_dput: "score_of (dput k v d) c = (if c = k then v else score_of d c)"
  by (simp add: score_of_def dict_simps)

lemma score_ballot_exact:
  assumes "score_ballot (all_weights n) res i b scores = Return t" "n \<le> 1074" "N = max 1 n" "i + length b \<le> N"
    and "\<forall>c. grid N q (score_of scores c)" "q + length b * 2 ^ (N - 1) < 2 ^ 53"
  shows "(\<forall>c. score_of t c = score_of scores c + (if c \<in> set res then 0 else contrib i b c))
    \<and> (\<forall>c. grid N (q + length b * 2 ^ (N - 1)) (score_of t c))"
  using assms
proof (induction b arbitrary: i scores q)
  case Nil
  then show ?case by auto
next
  case (Cons x xs)
  show ?case
  proof (cases "x \<in> set res")
    case True
    have IH: "(\<forall>c. score_of t c = score_of scores c + (if c \<in> set res then 0 else contrib (Suc i) xs c))
      \<and> (\<forall>c. grid N (q + length xs * 2 ^ (N - 1)) (score_of t c))"
      using Cons.prems True by (intro Cons.IH) auto
    have "grid N (q + length (x # xs) * 2 ^ (N - 1)) y" if "grid N (q + length xs * 2 ^ (N - 1)) y" for y
      using that by (rule grid_le) simp
    with IH have "\<forall>c. grid N (q + length (x # xs) * 2 ^ (N - 1)) (score_of t c)" by blast
    moreover have "\<forall>c. score_of t c = score_of scores c + (if c \<in> set res then 0 else contrib i (x # xs) c)"
      using IH True by auto
    ultimately show ?thesis by blast
  next
    case False
    have i: "i < N" "i < length (all_weights n)" using Cons.prems(3,4) by simp_all
    have w: "all_weights n ! i = 1 / 2 ^ Suc i" using Cons.prems(2,3) i by (intro all_weights_nth) auto
    define u where "u = dput x (score_of scores x + 1 / 2 ^ Suc i) scores"
    have g: "grid N (q + 2 ^ (N - 1)) (score_of scores x + 1 / 2 ^ Suc i)"
      using Cons.prems(5) i by (intro grid_add grid_weight) auto
    have "(2::nat) ^ (N - 1) \<le> length (x # xs) * 2 ^ (N - 1)" by simp
    then have "fl (score_of scores x + 1 / 2 ^ Suc i) = score_of scores x + 1 / 2 ^ Suc i"
      using Cons.prems(2,3,6) by (intro grid_exact [OF g]) auto
    then have "(case dget scores x of None \<Rightarrow> dput x (all_weights n ! i) scores
        | Some s \<Rightarrow> dput x (fadd s (all_weights n ! i)) scores) = u"
      by (cases "dget scores x") (simp_all add: u_def w score_of_def fadd_def)
    then have step: "score_ballot (all_weights n) res (Suc i) xs u = Return t"
      using Cons.prems(1) False i by simp
    have u: "score_of u c = score_of scores c + (if c = x then 1 / 2 ^ Suc i else 0)" for c
      by (simp add: u_def score_of_dput)
    have "grid N (q + 2 ^ (N - 1)) (score_of u c)" for c
      using g Cons.prems(5) by (auto simp: u intro: grid_le)
    then have "(\<forall>c. score_of t c = score_of u c + (if c \<in> set res then 0 else contrib (Suc i) xs c))
      \<and> (\<forall>c. grid N (q + 2 ^ (N - 1) + length xs * 2 ^ (N - 1)) (score_of t c))"
      using Cons.prems step by (intro Cons.IH) auto
    then have IH: "score_of t c = score_of u c + (if c \<in> set res then 0 else contrib (Suc i) xs c)"
      "grid N (q + 2 ^ (N - 1) + length xs * 2 ^ (N - 1)) (score_of t c)" for c by blast+
    have "score_of t c = score_of scores c + (if c \<in> set res then 0 else contrib i (x # xs) c)" for c
      using IH(1) [of c] False by (auto simp: u)
    moreover have "q + 2 ^ (N - 1) + length xs * 2 ^ (N - 1) = q + length (x # xs) * 2 ^ (N - 1)" by simp
    ultimately show ?thesis using IH(2) by metis
  qed
qed

lemma score_ballots_exact:
  assumes "score_ballots (all_weights n) res bs scores = Return t" "n \<le> 1074" "N = max 1 n"
    and "\<forall>b \<in> set bs. length b \<le> N"
    and "\<forall>c. grid N q (score_of scores c)" "q + length bs * N * 2 ^ (N - 1) < 2 ^ 53"
  shows "score_of t c = score_of scores c + (if c \<in> set res then 0 else \<Sum>b \<leftarrow> bs. contrib 0 b c)"
  using assms
proof (induction bs arbitrary: scores q)
  case (Cons b bs)
  obtain u where u: "score_ballot (all_weights n) res 0 b scores = Return u"
      "score_ballots (all_weights n) res bs u = Return t"
    using Cons.prems(1) by (auto simp: obind_Return)
  have lb: "length b * 2 ^ (N - 1) \<le> N * 2 ^ (N - 1)" using Cons.prems(4) by simp
  then have "q + length b * 2 ^ (N - 1) < 2 ^ 53"
    using Cons.prems(6) by (simp only: list.size(4) add_mult_distrib algebra_simps)
  then have b: "score_of u c = score_of scores c + (if c \<in> set res then 0 else contrib 0 b c)"
      "grid N (q + length b * 2 ^ (N - 1)) (score_of u c)" for c
    using score_ballot_exact [OF u(1) Cons.prems(2,3) _ Cons.prems(5)] Cons.prems(4)
    by (metis (no_types, lifting) add_0 list.set_intros(1))+
  have "grid N (q + N * 2 ^ (N - 1)) (score_of u c)" for c
    by (rule grid_le [OF b(2)]) (use lb in simp)
  then have "score_of t c = score_of u c + (if c \<in> set res then 0 else \<Sum>b \<leftarrow> bs. contrib 0 b c)"
    using Cons.prems(2-4,6) u(2) by (intro Cons.IH [of u "q + N * 2 ^ (N - 1)"]) (auto simp: algebra_simps)
  then show ?case by (simp add: b(1))
qed simp

section \<open>Awarding slots from equal tables\<close>

lemma get_slot_winner_agree:
  assumes "set ks = set js" "distinct ks" "distinct js"
    and "inj_on (\<lambda>k. concat_and_hash sha [PyStr k, PyInt seed]) (set ks)"
  shows "get_slot_winner sha ks seed = get_slot_winner sha js seed"
proof -
  have len: "length ks = length js" using assms(1-3) by (metis distinct_card)
  show ?thesis
  proof (cases "length ks = 1")
    case True
    then obtain k j where "ks = [k]" "js = [j]" using len by (metis One_nat_def length_0_conv length_Suc_conv)
    then show ?thesis using assms(1) by simp
  next
    case False
    let ?f = "hash_of (hash_dict sha seed ks [])" and ?g = "hash_of (hash_dict sha seed js [])"
    have f: "k \<in> set ks \<Longrightarrow> ?f k = ?g k" for k using assms(1) by (simp add: hash_of_hash_dict)
    have inj: "inj_on ?f (set ks)"
      using assms(4) by (auto simp: inj_on_def hash_of_hash_dict)
    have fg: "max_key ?g (dkeys (hash_dict sha seed js [])) = max_key ?f (dkeys (hash_dict sha seed js []))"
    proof -
      have "max_from ?g m xs = max_from ?f m xs" if "insert m (set xs) \<subseteq> set ks" for m xs
        using that by (induction xs arbitrary: m) (auto simp: f)
      then show ?thesis
        using keys_hash_dict [of sha seed js] assms(1)
        by (cases "dkeys (hash_dict sha seed js [])") (auto simp: max_key_def)
    qed
    have "max_key ?f (dkeys (hash_dict sha seed ks [])) = max_key ?f (dkeys (hash_dict sha seed js []))"
    proof (cases "ks = []")
      case True
      then show ?thesis using len by simp
    next
      case ne: False
      then have "dkeys (hash_dict sha seed ks []) \<noteq> []" "dkeys (hash_dict sha seed js []) \<noteq> []"
        using keys_hash_dict len by (metis length_0_conv set_empty)+
      then obtain m n where "max_key ?f (dkeys (hash_dict sha seed ks [])) = Some m"
          "max_key ?f (dkeys (hash_dict sha seed js [])) = Some n"
        using max_key_None by (metis option.exhaust)
      moreover from this have "m = n"
        by (rule max_key_unique [rotated 2]) (simp_all add: keys_hash_dict assms(1) inj [unfolded assms(1)])
      ultimately show ?thesis by simp
    qed
    then show ?thesis using False len fg by (simp add: get_slot_winner_def Let_def)
  qed
qed

lemma award_slots_agree:
  assumes "wf_dict s" "wf_dict t" "\<And>c. dget s c = dget t c"
    and "inj_on (\<lambda>k. concat_and_hash sha [PyStr k, PyInt seed]) (set (dkeys s))"
  shows "award_slots sha seed k s res = award_slots sha seed k t res"
  using assms
proof (induction k arbitrary: s t res)
  case (Suc k)
  have items: "set s = set t"
    using Suc.prems(1-3) by (metis dget_item item_dget subrelI subset_antisym)
  then have vals: "set (dvalues s) = set (dvalues t)" by (simp add: dvalues_def)
  show ?case
  proof (cases "max_key id (dvalues s)")
    case None
    then have "max_key id (dvalues t) = None" using vals by (simp add: max_key_None)
    with None show ?thesis by simp
  next
    case (Some m)
    then obtain n where n: "max_key id (dvalues t) = Some n"
      using vals by (metis max_key_None not_None_eq set_empty)
    have mn: "n = m" using max_key_unique [OF vals _ Some n] by simp
    let ?ds = "map fst (filter (\<lambda>(c, score). score = m) s)" and ?dt = "map fst (filter (\<lambda>(c, score). score = m) t)"
    have d: "distinct ?ds" "distinct ?dt"
      using Suc.prems(1,2) by (simp_all add: wf_dict_def dkeys_def distinct_map_filter)
    have eq: "set ?ds = set ?dt" by (simp add: items)
    have sub: "set ?ds \<subseteq> set (dkeys s)" by (auto simp: dkeys_def)
    have win: "get_slot_winner sha ?ds seed = get_slot_winner sha ?dt seed"
      using eq d inj_on_subset [OF Suc.prems(4) sub] by (rule get_slot_winner_agree)
    have rest: "award_slots sha seed k (ddel w s) (res @ [w]) = award_slots sha seed k (ddel w t) (res @ [w])" for w
    proof (rule Suc.IH)
      show "inj_on (\<lambda>k. concat_and_hash sha [PyStr k, PyInt seed]) (set (dkeys (ddel w s)))"
        by (rule inj_on_subset [OF Suc.prems(4)]) (auto simp: dict.keys_del)
    qed (use Suc.prems in \<open>simp_all add: dict.ok_del dict_simps\<close>)
    show ?thesis by (simp add: Some n mn Let_def win rest)
  qed
qed simp

section \<open>Equal ballots give equal results\<close>

lemma equal_dicts_mset:
  assumes "wf_dict d" "wf_dict e" "\<And>k. dget d k = dget e k"
  shows "mset (dvalues d) = mset (dvalues e)"
proof -
  have "set d = set e" using assms by (metis dget_item item_dget subrelI subset_antisym)
  moreover have "distinct d" "distinct e" using assms(1,2) by (simp_all add: wf_dict_def dkeys_def distinct_map)
  ultimately have "mset d = mset e" by (simp add: set_eq_iff_mset_eq_distinct)
  then show ?thesis by (simp add: dvalues_def)
qed

lemma break_ties_agree:
  assumes "mset bs = mset cs" "\<forall>b \<in> set bs. length b \<le> max 1 n" "n \<le> 1074"
    and "length bs * max 1 n * 2 ^ (max 1 n - 1) < 2 ^ 53"
    and "inj_on (\<lambda>k. concat_and_hash sha [PyStr k, PyInt seed]) (\<Union>(set ` set bs))"
  shows "break_ties sha res bs n seed = break_ties sha res cs n seed"
proof -
  have sets: "set bs = set cs" "length bs = length cs" using assms(1) by (metis set_mset_mset, metis size_mset)
  obtain s where s: "score_ballots (all_weights n) res bs [] = Return s" "wf_dict s"
      "set (dkeys s) = \<Union>(set ` set bs) - set res"
    using score_ballots_keys [of bs "all_weights n" "[]" res] assms(2) by (auto simp: dkeys_def)
  obtain t where t: "score_ballots (all_weights n) res cs [] = Return t" "wf_dict t"
      "set (dkeys t) = \<Union>(set ` set cs) - set res"
    using score_ballots_keys [of cs "all_weights n" "[]" res] assms(2) sets(1) by (auto simp: dkeys_def)
  have zero: "\<forall>c. grid (max 1 n) 0 (score_of [] c)" by (simp add: score_of_def grid_0)
  have "score_of s c = score_of t c" for c
  proof -
    have "score_of s c = score_of [] c + (if c \<in> set res then 0 else \<Sum>b \<leftarrow> bs. contrib 0 b c)"
      using assms(2,4) by (intro score_ballots_exact [OF s(1) assms(3) refl _ zero]) auto
    moreover have "score_of t c = score_of [] c + (if c \<in> set res then 0 else \<Sum>b \<leftarrow> cs. contrib 0 b c)"
      using assms(2,4) sets by (intro score_ballots_exact [OF t(1) assms(3) refl _ zero]) auto
    moreover have "mset (map (\<lambda>b. contrib 0 b c) bs) = mset (map (\<lambda>b. contrib 0 b c) cs)"
      using assms(1) by simp
    then have "(\<Sum>b \<leftarrow> bs. contrib 0 b c) = (\<Sum>b \<leftarrow> cs. contrib 0 b c)" by (metis sum_mset_sum_list)
    ultimately show ?thesis by simp
  qed
  moreover have "dget s c = None \<longleftrightarrow> dget t c = None" for c
    using s(3) t(3) sets(1) dict.keys_look [of c s] dict.keys_look [of c t] by auto
  ultimately have eq: "dget s c = dget t c" for c
    by (metis option.case_eq_if option.collapse score_of_def)
  have "award_slots sha seed k s res = award_slots sha seed k t res" for k
    using s(2) t(2) eq
  proof (rule award_slots_agree)
    show "inj_on (\<lambda>k. concat_and_hash sha [PyStr k, PyInt seed]) (set (dkeys s))"
      by (rule inj_on_subset [OF assms(5)]) (use s(3) in auto)
  qed
  then show ?thesis by (simp add: break_ties_def s(1) t(1))
qed

text \<open>The order of the ballots does not matter for whom they elect.\<close>

lemma elect_agree:
  assumes "mset bs = mset cs" and "\<forall>b \<in> set bs. mset b = mset ks"
    and "stv (length ks) ks bs = stv (length ks) ks cs"
    and "inj_on (\<lambda>k. concat_and_hash sha [PyStr k, PyInt n]) (set ks)"
    and "ks \<noteq> []" and "length bs * length ks * 2 ^ (length ks - 1) < 2 ^ 53"
  shows "elect stv sha n ks bs = elect stv sha n ks cs"
proof (cases "bs = []")
  case False
  have ballots: "length b = length ks" "set b = set ks" if "b \<in> set bs" for b
    using assms(2) that by (metis size_mset, metis set_mset_mset)
  have one: "max 1 (length ks) = length ks" using assms(5) by (cases ks) auto
  have small: "length ks \<le> 1074"
  proof (rule ccontr)
    assume "\<not> length ks \<le> 1074"
    then have "(2::nat) ^ 53 \<le> 2 ^ (length ks - 1)" by (intro power_increasing) auto
    also have "\<dots> \<le> length bs * length ks * 2 ^ (length ks - 1)"
      using False assms(5) by (cases bs; cases ks) auto
    finally show False using assms(6) by simp
  qed
  have ties: "break_ties sha res bs (length ks) n = break_ties sha res cs (length ks) n" for res
  proof (rule break_ties_agree [OF assms(1) _ small])
    show "\<forall>b \<in> set bs. length b \<le> max 1 (length ks)" using ballots(1) by simp
    show "length bs * max 1 (length ks) * 2 ^ (max 1 (length ks) - 1) < 2 ^ 53" unfolding one by (rule assms(6))
    show "inj_on (\<lambda>k. concat_and_hash sha [PyStr k, PyInt n]) (\<Union>(set ` set bs))"
      by (rule inj_on_subset [OF assms(4)]) (use ballots(2) in auto)
  qed
  show ?thesis unfolding elect_def assms(3) ties by (rule refl)
qed (use assms(1) in simp)

text \<open>The election is deterministic across nodes: two nodes that hold the same ballots of all their
  voters for an epoch, received in any order, compute the same result, when every ballot ranks the
  members, the poll does not depend on the order in which these ballots were added, the digest does not collide on the
  members, and there are few enough members and ballots for the tie scores to be exact (forty
  members that all vote are few enough).\<close>

theorem same_ballots_same_result:
  assumes "voting_ok v" and "voting_ok w" and "vs_peer_keys w = vs_peer_keys v"
    and "dget (vs_ballots v) n = Some d" and "dget (vs_ballots w) n = Some e" and "\<forall>k. dget d k = dget e k"
    and "\<forall>b \<in> set (dvalues d). mset b = mset (vs_peer_keys v)"
    and "stv (length (vs_peer_keys v)) (vs_peer_keys v) (dvalues d) = stv (length (vs_peer_keys v)) (vs_peer_keys v) (dvalues e)"
    and "inj_on (\<lambda>k. concat_and_hash sha [PyStr k, PyInt n]) (set (vs_peer_keys v))"
    and "vs_peer_keys v \<noteq> []" and "length d * length (vs_peer_keys v) * 2 ^ (length (vs_peer_keys v) - 1) < 2 ^ 53"
  shows "fst (calculate_result stv sha n v) = fst (calculate_result stv sha n w)"
proof -
  have wf: "wf_dict d" "wf_dict e"
    using assms(1,2,4,5) unfolding voting_ok_def entries_def by (metis option.simps(5))+
  have ms: "mset (dvalues d) = mset (dvalues e)" using wf assms(6) by (intro equal_dicts_mset) auto
  have "length (dvalues d) * length (vs_peer_keys v) * 2 ^ (length (vs_peer_keys v) - 1) < 2 ^ 53"
    using assms(11) by (simp add: dvalues_def)
  with ms assms(7-10) have "elect stv sha n (vs_peer_keys v) (dvalues d) = elect stv sha n (vs_peer_keys v) (dvalues e)"
    by (rule elect_agree)
  then show ?thesis
    unfolding run_calculate_result assms(3-5)
    by (cases "elect stv sha n (vs_peer_keys v) (dvalues e)") simp_all
qed

theorem same_ballots_same_result_witness:
  "fst (calculate_result (\<lambda>_ _ _. Return []) id 1
      (add_ballot 1 ''b'' [''b'', ''a''] (add_ballot 1 ''a'' [''a'', ''b''] (VotingSystem ''a'' [''a'', ''b''] 1))))
   = fst (calculate_result (\<lambda>_ _ _. Return []) id 1
      (add_ballot 1 ''a'' [''a'', ''b''] (add_ballot 1 ''b'' [''b'', ''a''] (VotingSystem ''b'' [''a'', ''b''] 1))))"
proof (rule same_ballots_same_result)
  show "voting_ok (add_ballot 1 ''b'' [''b'', ''a''] (add_ballot 1 ''a'' [''a'', ''b''] (VotingSystem ''a'' [''a'', ''b''] 1)))"
    "voting_ok (add_ballot 1 ''a'' [''a'', ''b''] (add_ballot 1 ''b'' [''b'', ''a''] (VotingSystem ''b'' [''a'', ''b''] 1)))"
    by (intro voting_ok_add_ballot voting_ok_init)+
  show "dget (vs_ballots (add_ballot 1 ''b'' [''b'', ''a''] (add_ballot 1 ''a'' [''a'', ''b''] (VotingSystem ''a'' [''a'', ''b''] 1)))) 1
    = Some [(''a'', [''a'', ''b'']), (''b'', [''b'', ''a''])]"
    "dget (vs_ballots (add_ballot 1 ''a'' [''a'', ''b''] (add_ballot 1 ''b'' [''b'', ''a''] (VotingSystem ''b'' [''a'', ''b''] 1)))) 1
    = Some [(''b'', [''b'', ''a'']), (''a'', [''a'', ''b''])]"
    by (simp_all add: ballots_add_ballot entries_dput dict_simps) (simp_all add: VotingSystem_def entries_def dput_def)
  show "inj_on (\<lambda>k. concat_and_hash id [PyStr k, PyInt 1])
      (set (vs_peer_keys (add_ballot 1 ''b'' [''b'', ''a''] (add_ballot 1 ''a'' [''a'', ''b''] (VotingSystem ''a'' [''a'', ''b''] 1)))))"
    by (auto simp: inj_on_def concat_and_hash_concat)
qed (auto simp: VotingSystem_def dget_def dvalues_def)
section \<open>The size of the tie scores\<close>

lemma contrib_absent: "c \<notin> set b \<Longrightarrow> contrib i b c = 0"
  by (induction b arbitrary: i) auto

lemma contrib_position:
  assumes "distinct b" "p < length b" "b ! p = c"
  shows "contrib i b c = 1 / 2 ^ Suc (i + p)"
  using assms
proof (induction b arbitrary: i p)
  case (Cons x xs)
  show ?case
  proof (cases p)
    case 0
    then show ?thesis using Cons.prems by (simp add: contrib_absent)
  next
    case (Suc q)
    then have "x \<noteq> c" using Cons.prems by auto
    then show ?thesis using Cons.IH [of q "Suc i"] Cons.prems Suc by simp
  qed
qed simp

text \<open>The rank of a candidate on a ballot, from 0.\<close>

definition rank_on :: "ballot \<Rightarrow> key \<Rightarrow> nat" where
  "rank_on b c = (case index_of b c of Some p \<Rightarrow> p | None \<Rightarrow> length b)"

text \<open>C28: tie scores are exact and bounded: on \<open>n\<close> ballots that rank \<open>m\<close> members, the floating-point
  additions give a candidate that is not elected yet the exact sum of \<open>1 / 2 ^ (rank + 1)\<close> over the
  ballots, which lies between \<open>n / 2 ^ m\<close> and \<open>n / 2\<close>, as long as \<open>n * m * 2 ^ (m - 1)\<close> stays
  below \<open>2 ^ 53\<close>.\<close>

theorem tie_score_bounds:
  assumes "score_ballots (all_weights (length ks)) res bs [] = Return t" and "distinct ks"
    and "\<forall>b \<in> set bs. mset b = mset ks" and "c \<in> set ks" and "c \<notin> set res" and "bs \<noteq> []"
    and "length bs * length ks * 2 ^ (length ks - 1) < 2 ^ 53"
  shows "score_of t c = (\<Sum>b \<leftarrow> bs. 1 / 2 ^ Suc (rank_on b c))
    \<and> of_nat (length bs) / 2 ^ length ks \<le> score_of t c \<and> score_of t c \<le> of_nat (length bs) / 2"
proof -
  have ne: "1 \<le> length ks" using assms(4) by (cases ks) auto
  have one: "max 1 (length ks) = length ks" using ne by simp
  have small: "length ks \<le> 1074"
  proof (rule ccontr)
    assume "\<not> length ks \<le> 1074"
    then have "(2::nat) ^ 53 \<le> 2 ^ (length ks - 1)" by (intro power_increasing) auto
    also have "\<dots> \<le> length bs * length ks * 2 ^ (length ks - 1)" using ne assms(6) by (cases bs; cases ks) auto
    finally show False using assms(7) by simp
  qed
  have rank: "contrib 0 b c = 1 / 2 ^ Suc (rank_on b c)" "rank_on b c < length ks" if "b \<in> set bs" for b
  proof -
    have b: "length b = length ks" "set b = set ks" "distinct b"
      using assms(2,3) that by (metis size_mset, metis set_mset_mset, metis mset_eq_imp_distinct_iff)
    then obtain p where p: "index_of b c = Some p" using assms(4) by (metis index_of_None not_None_eq)
    with b show "contrib 0 b c = 1 / 2 ^ Suc (rank_on b c)" "rank_on b c < length ks"
      using index_of_Some [OF p] contrib_position [of b p c 0] by (simp_all add: rank_on_def)
  qed
  have "\<forall>b \<in> set bs. length b \<le> length ks" using assms(3) by (metis order_refl size_mset)
  then have "score_of t c = score_of [] c + (if c \<in> set res then 0 else \<Sum>b \<leftarrow> bs. contrib 0 b c)"
    using assms(1,7) small ne
    by (intro score_ballots_exact [where q = 0 and N = "length ks"]) (auto simp: one grid_0 score_of_def dget_def)
  then have sum: "score_of t c = (\<Sum>b \<leftarrow> bs. contrib 0 b c)" using assms(5) by (simp add: score_of_def dget_def)
  have each: "1 / 2 ^ length ks \<le> contrib 0 b c" "contrib 0 b c \<le> 1 / 2" if "b \<in> set bs" for b
  proof -
    have "(2::rat) ^ Suc (rank_on b c) \<le> 2 ^ length ks" using rank(2) [OF that] by (intro power_increasing) auto
    then show "1 / 2 ^ length ks \<le> contrib 0 b c" using rank(1) [OF that] by (simp add: frac_le)
    have "(2::rat) ^ 1 \<le> 2 ^ Suc (rank_on b c)" by (intro power_increasing) auto
    then show "contrib 0 b c \<le> 1 / 2" unfolding rank(1) [OF that] by (intro frac_le) auto
  qed
  have bounds: "of_nat (length as) * l \<le> (\<Sum>b \<leftarrow> as. f b) \<and> (\<Sum>b \<leftarrow> as. f b) \<le> of_nat (length as) * u"
    if "\<forall>b \<in> set as. l \<le> f b \<and> f b \<le> u" for as :: "ballot list" and f :: "ballot \<Rightarrow> rat" and l u
    using that by (induction as) (auto simp: algebra_simps intro: add_mono)
  have "of_nat (length bs) * (1 / 2 ^ length ks) \<le> score_of t c \<and> score_of t c \<le> of_nat (length bs) * (1 / 2)"
    unfolding sum using each by (intro bounds) blast
  moreover have "(\<Sum>b \<leftarrow> bs. contrib 0 b c) = (\<Sum>b \<leftarrow> bs. 1 / 2 ^ Suc (rank_on b c))"
    using rank(1) by (intro arg_cong [where f = sum_list] map_cong refl) simp
  ultimately show ?thesis unfolding sum by simp
qed

theorem tie_score_bounds_witness:
  "\<exists>t. score_ballots (all_weights 2) [] [[''a'', ''b''], [''b'', ''a'']] [] = Return t
    \<and> score_of t ''a'' \<le> 1 \<and> 1 / 2 \<le> score_of t ''a''"
proof -
  have r: "score_ballots (all_weights 2) [] [[''a'', ''b''], [''b'', ''a'']] [] = Return [(''a'', 3/4), (''b'', 3/4)]"
    by code_simp
  have two: "length [''a'', ''b''] = 2" by simp
  have "1 / 2 \<le> score_of [(''a'', 3/4), (''b'', 3/4)] ''a'' \<and> score_of [(''a'', 3/4), (''b'', 3/4)] ''a'' \<le> (1 :: rat)"
    using tie_score_bounds [of "[''a'', ''b'']" "[]" "[[''a'', ''b''], [''b'', ''a'']]" "[(''a'', 3/4), (''b'', 3/4)]" "''a''",
      unfolded two, OF r] by (simp add: add_mset_commute)
  with r show ?thesis by blast
qed

end
