(* ===== verification/Cluster.thy ===== *)
theory Cluster
  imports Node_Traffic Vote_Agreement Engine
begin

text \<open>
  Several nodes on one network. A member in \<open>honest\<close> runs the code of this repository; the others
  send what they like, under their own key. The network delivers any message that an honest
  node has sent, to anyone, in any order, any number of times, or never. The calls on the nodes
  interleave in any way. What the theory shows is that the honest nodes keep one view of each
  other's ballots, so that the election they compute from them is the same.
\<close>

section \<open>The turns of a node\<close>

text \<open>The end of the loop's body in \<open>start\<close>: vote, or send the ballot again.\<close>

definition vote_turn :: "(ddpoa_node, unit) py" where
  "vote_turn =
     bindP should_vote (\<lambda>b.
       if b then vote
       else bindP should_rebroadcast_ballot (\<lambda>r. whenP r rebroadcast_ballot))"

text \<open>What \<open>_handle_peer_msgs\<close> does with a message about the election. What it does with messages of the other types
  (the next slot on an EMPTY\_SLOT, an answer to a BOOTSTRAP\_REQUEST, catching up after a BOOTSTRAP) are the steps
  \<open>other\<close> and \<open>mode\<close> of a cluster, which may follow at any time.\<close>

definition election_message :: "stv \<Rightarrow> (string \<Rightarrow> string) \<Rightarrow> key list \<Rightarrow> consensus_message \<Rightarrow> (ddpoa_node, bool) py" where
  "election_message stv sha members msg =
     (if msg_signer msg \<notin> set members then ret False
      else thenP (cn_seen (msg_signer msg))
        (case msg_type msg of
           VOTE \<Rightarrow> thenP (handle_vote stv sha msg (msg_signer msg)) (ret False)
         | VOTE_RESULT \<Rightarrow> handle_vote_result msg (msg_signer msg)
         | _ \<Rightarrow> ret False))"

definition receive_turn :: "stv \<Rightarrow> (string \<Rightarrow> string) \<Rightarrow> key list \<Rightarrow> (ddpoa_node, bool) py" where
  "receive_turn stv sha members =
     bindP node_recv (\<lambda>received. case received of
       None \<Rightarrow> ret False
     | Some msg \<Rightarrow> election_message stv sha members msg)"

lemma in_node_bind: "in_node (bindP m k) = bindP (in_node m) (\<lambda>x. in_node (k x))"
  by (auto simp: in_node_def fun_eq_iff run_simps split: prod.split outcome.split)

lemma in_node_pure: "in_node (ret x) = ret x" "in_node (whenP b m) = whenP b (in_node m)"
  by (auto simp: in_node_def fun_eq_iff run_simps split: prod.split)

text \<open>These are the turns that the engine takes.\<close>

lemma vote_or_rebroadcast_turn: "vote_or_rebroadcast = in_node vote_turn"
  unfolding vote_or_rebroadcast_def vote_turn_def in_node_bind
  by (auto simp: in_node_bind in_node_pure intro!: arg_cong [where f = "bindP (in_node should_vote)"])

lemma engine_election_message:
  assumes "msg_type msg = VOTE \<or> msg_type msg = VOTE_RESULT"
  shows "en_node (snd (handle_peer_msgs L msg s)) =
      (let (r, n) = election_message (lib_stv L) (lib_sha L) (en_members s) msg (en_node s)
       in if r = Return True then snd (time_now n) else n)"
  using assms
  by (auto simp: handle_peer_msgs_def election_message_def run_simps in_node_def Let_def time_now_def
      split: prod.split outcome.split outcome.split_asm)

section \<open>The cluster\<close>

inductive cluster :: "stv \<Rightarrow> (string \<Rightarrow> string) \<Rightarrow> key list \<Rightarrow> key set \<Rightarrow> (key \<Rightarrow> ddpoa_node) \<Rightarrow> bool"
  for stv sha members honest where
  start: "honest \<subseteq> set members \<Longrightarrow> (\<And>k. k \<in> honest \<Longrightarrow> \<exists>slots net clock rnd. C k = new_node k members slots net clock rnd)
    \<Longrightarrow> cluster stv sha members honest C"
| deliver: "cluster stv sha members honest C \<Longrightarrow> k \<in> honest
    \<Longrightarrow> (msg_signer m \<in> honest \<Longrightarrow> m \<in> outgoing (C (msg_signer m)))
    \<Longrightarrow> cluster stv sha members honest (C(k := node_step stv sha (Arrive m) (C k)))"
| receive: "cluster stv sha members honest C \<Longrightarrow> k \<in> honest
    \<Longrightarrow> cluster stv sha members honest (C(k := snd (receive_turn stv sha members (C k))))"
| turn: "cluster stv sha members honest C \<Longrightarrow> k \<in> honest
    \<Longrightarrow> cluster stv sha members honest (C(k := snd (vote_turn (C k))))"
| other: "cluster stv sha members honest C \<Longrightarrow> k \<in> honest \<Longrightarrow> undisturbed (C k) c
    \<Longrightarrow> cluster stv sha members honest (C(k := node_step stv sha c (C k)))"
| mode: "cluster stv sha members honest C \<Longrightarrow> k \<in> honest \<Longrightarrow> st \<in> {WAITING_FOR_BOOTSTRAP, CATCHING_UP}
    \<Longrightarrow> cluster stv sha members honest (C(k := set_state st (C k)))"

section \<open>The invariant of one node\<close>

definition is_ballot :: "int \<Rightarrow> ballot \<Rightarrow> consensus_message \<Rightarrow> bool" where
  "is_ballot e b m \<longleftrightarrow> msg_type m = VOTE \<and> msg_epoch m = e \<and> msg_votes m = b"

definition is_result :: "int \<Rightarrow> result \<Rightarrow> consensus_message \<Rightarrow> bool" where
  "is_result e r m \<longleftrightarrow> msg_type m = VOTE_RESULT \<and> msg_epoch m = e \<and> msg_result m = r"

abbreviation own_ballot :: "ddpoa_node \<Rightarrow> int \<Rightarrow> ballot option" where
  "own_ballot n e \<equiv> cast_ballot n e (cn_key n)"

text \<open>What a node has sent: one ballot per epoch, which ranks the members and is still stored while
  its epoch is the coming one.\<close>

definition sends_one_ballot :: "key list \<Rightarrow> ddpoa_node \<Rightarrow> bool" where
  "sends_one_ballot members n \<longleftrightarrow>
     (\<forall>m \<in> outgoing n. msg_signer m = cn_key n)
     \<and> (\<forall>m \<in> outgoing n. \<forall>e b. is_ballot e b m \<longrightarrow> e \<le> upcoming n \<and> mset b = mset members
         \<and> (e = upcoming n \<longrightarrow> own_ballot n e = Some b) \<and> own_ballot n e \<in> {None, Some b})
     \<and> (\<forall>m \<in> outgoing n. \<forall>m' \<in> outgoing n. \<forall>e b b'. is_ballot e b m \<longrightarrow> is_ballot e b' m' \<longrightarrow> b = b')
     \<and> (\<forall>e b. own_ballot n e = Some b \<longrightarrow> e \<le> upcoming n \<and> mset b = mset members)"

definition voter_ok :: "key list \<Rightarrow> ddpoa_node \<Rightarrow> bool" where
  "voter_ok members n \<longleftrightarrow> node_ok n \<and> set (dkeys (cn_peers n)) = set members \<and> vs_peer_keys (dn_voting n) = members
     \<and> vs_key (dn_voting n) = cn_key n \<and> tidy n \<and> sends_one_ballot members n"

lemma voter_ok_traffic:
  assumes ok: "voter_ok members s" and traffic: "traffic not_vote B R s t" and frame: "node_frame s t"
    and own: "\<And>e b. B e (cn_key s) b \<Longrightarrow> \<exists>m \<in> outgoing s. is_ballot e b m"
  shows "voter_ok members t"
proof -
  have k: "cn_key t = cn_key s" using frame by (simp add: node_frame_def)
  have sends: "sends_one_ballot members s" and tidy: "tidy s" using ok by (simp_all add: voter_ok_def)
  have old: "m \<in> outgoing s" if "m \<in> outgoing t" "is_ballot e b m" for m e b
    using traffic that unfolding traffic_def is_ballot_def not_vote_def by blast
  have up: "upcoming s \<le> upcoming t" using traffic by (simp add: traffic_def)
  have own': "own_ballot s e = Some b \<or> (\<exists>m \<in> outgoing s. is_ballot e b m)" if "own_ballot t e = Some b" for e b
    using traffic that own unfolding traffic_def k by blast
  have kept: "own_ballot t e = Some b" if "own_ballot s e = Some b" "upcoming t \<le> e" for e b
    using traffic tidy that unfolding traffic_def k by blast
  have "sends_one_ballot members t"
    unfolding sends_one_ballot_def
  proof (intro conjI ballI allI impI)
    fix m assume "m \<in> outgoing t"
    then show "msg_signer m = cn_key t"
      using traffic sends k by (cases "m \<in> outgoing s") (simp_all add: traffic_def sends_one_ballot_def)
  next
    fix m e b assume m: "m \<in> outgoing t" "is_ballot e b m"
    note b = sends [unfolded sends_one_ballot_def, THEN conjunct2, THEN conjunct1, rule_format, OF old [OF m] m(2)]
    show "mset b = mset members" using b by simp
    show "e \<le> upcoming t" using b up by simp
    show "own_ballot t e = Some b" if "e = upcoming t"
      using b kept [of e b] up that by simp
    show "own_ballot t e \<in> {None, Some b}"
    proof (cases "own_ballot t e")
      case (Some c)
      have "c = b" if "own_ballot s e = Some c" using that b by simp
      moreover have "c = b" if "m' \<in> outgoing s" "is_ballot e c m'" for m'
        using that old [OF m] m(2) sends unfolding sends_one_ballot_def by blast
      ultimately have "c = b" using own' [OF Some] by blast
      then show ?thesis using Some by simp
    qed simp
  next
    fix m m' e b b'
    assume "m \<in> outgoing t" "m' \<in> outgoing t" "is_ballot e b m" "is_ballot e b' m'"
    then show "b = b'" using old sends unfolding sends_one_ballot_def by blast
  next
    fix e b assume "own_ballot t e = Some b"
    then show "e \<le> upcoming t" "mset b = mset members"
      using own' [of e b] sends up unfolding sends_one_ballot_def by fastforce+
  qed
  then show ?thesis using ok traffic frame by (auto simp: voter_ok_def traffic_def node_frame_def)
qed
text \<open>Sending a ballot for the coming epoch, which is stored then, keeps the invariant when no other
  one was stored before.\<close>

lemma voter_ok_speaks:
  assumes ok: "voter_ok members s" and frame: "node_frame s t" and up: "upcoming t = upcoming s"
    and traffic: "traffic (is_ballot (upcoming s) b) (this_entry (upcoming s) (cn_key s) b) R s t"
    and before: "own_ballot s (upcoming s) \<in> {None, Some b}" and after: "own_ballot t (upcoming s) = Some b"
    and ranks: "mset b = mset members"
  shows "voter_ok members t"
proof -
  have k: "cn_key t = cn_key s" using frame by (simp add: node_frame_def)
  have sends: "sends_one_ballot members s" using ok by (simp add: voter_ok_def)
  have new: "c = b" if "m \<in> outgoing t" "is_ballot (upcoming s) c m" for c m
  proof (cases "m \<in> outgoing s")
    case True
    then have "own_ballot s (upcoming s) = Some c" using sends that unfolding sends_one_ballot_def by blast
    with before show ?thesis by simp
  next
    case False
    then have "is_ballot (upcoming s) b m" using traffic that by (simp add: traffic_def)
    with that show ?thesis by (simp add: is_ballot_def)
  qed
  have old: "m \<in> outgoing s" if "m \<in> outgoing t" "is_ballot e c m" "e \<noteq> upcoming s" for m e c
    using traffic that by (auto simp: traffic_def is_ballot_def)
  have own: "own_ballot s e = Some c" if "own_ballot t e = Some c" "e \<noteq> upcoming s" for e c
    using trafficD(7) [OF traffic that(1)] that(2) by (simp add: this_entry_def k)
  have "sends_one_ballot members t"
    unfolding sends_one_ballot_def
  proof (intro conjI ballI allI impI)
    fix m assume "m \<in> outgoing t"
    then show "msg_signer m = cn_key t"
      using traffic sends k by (cases "m \<in> outgoing s") (simp_all add: traffic_def sends_one_ballot_def)
  next
    fix m e c assume m: "m \<in> outgoing t" "is_ballot e c m"
    have "e \<le> upcoming t \<and> mset c = mset members \<and> (e = upcoming t \<longrightarrow> own_ballot t e = Some c)
      \<and> own_ballot t e \<in> {None, Some c}"
    proof (cases "e = upcoming s")
      case True
      then show ?thesis using new m after ranks up k by simp
    next
      case False
      have "e \<le> upcoming s" "mset c = mset members" "own_ballot s e \<in> {None, Some c}"
        using sends old [OF m False] m(2) unfolding sends_one_ballot_def by blast+
      then show ?thesis using False up own [of e] by (cases "own_ballot t e") auto
    qed
    then show "mset c = mset members" "e \<le> upcoming t" "e = upcoming t \<Longrightarrow> own_ballot t e = Some c"
      "own_ballot t e \<in> {None, Some c}" by blast+
  next
    fix m m' e c c' assume *: "m \<in> outgoing t" "m' \<in> outgoing t" "is_ballot e c m" "is_ballot e c' m'"
    show "c = c'"
    proof (cases "e = upcoming s")
      case True
      then show ?thesis using new [of m c] new [of m' c'] * by simp
    next
      case False
      then show ?thesis using old * sends unfolding sends_one_ballot_def by blast
    qed
  next
    fix e c assume *: "own_ballot t e = Some c"
    show "e \<le> upcoming t" "mset c = mset members"
      using own [OF *] * after ranks sends up unfolding sends_one_ballot_def by (cases "e = upcoming s"; simp)+
  qed
  then show ?thesis using ok traffic frame by (auto simp: voter_ok_def traffic_def node_frame_def)
qed

lemma draw_ballot_ranks:
  assumes "voter_ok members n"
  obtains b where "draw_ballot n = (Return b, n\<lparr>dn_rtick := dn_rtick n + length members\<rparr>)" "mset b = mset members"
proof -
  have "\<exists>p. dget (cn_peers n) k = Some p \<and> score_ok (pn_score p)" if "k \<in> set members" for k
  proof -
    have "k \<in> set (dkeys (cn_peers n))" using assms that by (simp add: voter_ok_def)
    then obtain p where p: "dget (cn_peers n) k = Some p" by (auto simp: dict.keys_look)
    then have "score_ok (pn_score p)" using assms by (auto simp: voter_ok_def node_ok_def scores_ok_def score_at_def)
    with p show ?thesis by blast
  qed
  then show thesis
    using assms fill_ballot_permutes [of "dn_voting n" "cn_peers n" "dn_rand n" "dn_rtick n"]
    by (auto simp: voter_ok_def draw_ballot_def intro: that)
qed

lemma traffic_send_ballot: "keeps (traffic (is_ballot e b) B R) (send_ballot b e)"
  unfolding send_ballot_def
  by (intro traffic.all traffic_broadcast traffic.modify traffic_time_now)
    (simp_all add: stamped_def is_ballot_def ConsensusMessage_def)

lemma epoch_of_send: "upcoming (snd (send_ballot b e n)) = upcoming n"
  "cast_ballot (snd (send_ballot b e n)) = cast_ballot n"
proof -
  have f: "base_frame n (snd (broadcast m n))" for m by (rule keepsD [OF frame_broadcast])
  show "upcoming (snd (send_ballot b e n)) = upcoming n" "cast_ballot (snd (send_ballot b e n)) = cast_ballot n"
    using base_frame_attributes [OF f]
    by (auto simp: send_ballot_def run_simps time_now_def upcoming_def cast_ballot_def fun_eq_iff
        split: prod.split outcome.split) (metis snd_conv)+
qed

lemma voter_ok_vote:
  assumes ok: "voter_ok members n" and fresh: "own_ballot n (upcoming n) = None"
  shows "voter_ok members (snd (vote n))"
    and "\<exists>b. traffic (is_ballot (upcoming n) b) (this_entry (upcoming n) (cn_key n) b) nothing n (snd (vote n))"
proof -
  obtain b where b: "draw_ballot n = (Return b, n\<lparr>dn_rtick := dn_rtick n + length members\<rparr>)" "mset b = mset members"
    using ok by (rule draw_ballot_ranks)
  define m where "m = n\<lparr>dn_rtick := dn_rtick n + length members, dn_voting := add_ballot (upcoming n) (cn_key n) b (dn_voting n)\<rparr>"
  have v: "snd (vote n) = snd (send_ballot b (upcoming n) (move_state ELECTION m))"
    by (simp add: vote_def run_simps b in_voting_def m_def upcoming_def)
  let ?T = "traffic (is_ballot (upcoming n) b) (this_entry (upcoming n) (cn_key n) b) nothing"
  have "?T (n\<lparr>dn_rtick := dn_rtick n + length members\<rparr>) m"
    using traffic_add_ballot [of "n\<lparr>dn_rtick := dn_rtick n + length members\<rparr>"] fresh
    by (simp add: m_def cast_ballot_def)
  then have m: "?T n m" by (rule traffic.R_trans [rotated]) simp
  have t: "?T n (snd (vote n))"
    unfolding v by (rule traffic.R_trans [OF traffic.R_trans [OF m traffic_attrs(10)] keepsD [OF traffic_send_ballot]])
  then show "\<exists>b. traffic (is_ballot (upcoming n) b) (this_entry (upcoming n) (cn_key n) b) nothing n (snd (vote n))" by blast
  have ms: "upcoming (move_state ELECTION m) = upcoming n" "cast_ballot (move_state ELECTION m) (upcoming n) (cn_key n) = Some b"
    by (simp_all add: move_state_def set_state_def m_def upcoming_def cast_ballot_def ballots_add_ballot entries_dput dict_simps)
  have k: "cn_key (snd (vote n)) = cn_key n" using t by (simp add: traffic_def)
  show "voter_ok members (snd (vote n))"
    by (rule voter_ok_speaks [OF ok keepsD [OF frame_vote] _ t])
      (use fresh k ms b in \<open>simp_all add: v epoch_of_send\<close>)
qed
text \<open>Sending the ballot again.\<close>

lemma rebroadcast_cases:
  "snd (rebroadcast_ballot n) = n
    \<or> (\<exists>b. own_ballot n (upcoming n) = Some b \<and> snd (rebroadcast_ballot n) = snd (send_ballot b (upcoming n) n))"
  by (auto simp: rebroadcast_ballot_def run_simps upcoming_def cast_ballot_def entries_def split: option.split)

lemma voter_ok_rebroadcast:
  assumes ok: "voter_ok members n"
  shows "voter_ok members (snd (rebroadcast_ballot n))"
    and "\<exists>b. traffic (is_ballot (upcoming n) b) (this_entry (upcoming n) (cn_key n) b) nothing n (snd (rebroadcast_ballot n))"
proof -
  have "voter_ok members (snd (rebroadcast_ballot n))
    \<and> (\<exists>b. traffic (is_ballot (upcoming n) b) (this_entry (upcoming n) (cn_key n) b) nothing n (snd (rebroadcast_ballot n)))"
    using rebroadcast_cases [of n]
  proof (elim disjE exE conjE)
    fix b assume b: "own_ballot n (upcoming n) = Some b"
      and r: "snd (rebroadcast_ballot n) = snd (send_ballot b (upcoming n) n)"
    have t: "traffic (is_ballot (upcoming n) b) (this_entry (upcoming n) (cn_key n) b) nothing n (snd (rebroadcast_ballot n))"
      unfolding r by (rule keepsD [OF traffic_send_ballot])
    have "mset b = mset members" using ok b unfolding voter_ok_def sends_one_ballot_def by blast
    then have "voter_ok members (snd (rebroadcast_ballot n))"
      by (intro voter_ok_speaks [OF ok keepsD [OF frame_rebroadcast(1)] _ t])
        (use b trafficD(1) [OF t] in \<open>simp_all add: r epoch_of_send\<close>)
    with t show ?thesis by blast
  qed (use ok in \<open>simp add: traffic.R_refl\<close>)
  then show "voter_ok members (snd (rebroadcast_ballot n))"
    "\<exists>b. traffic (is_ballot (upcoming n) b) (this_entry (upcoming n) (cn_key n) b) nothing n (snd (rebroadcast_ballot n))"
    by blast+
qed

text \<open>\<open>should_vote\<close> asks whether the node has voted already.\<close>

lemma should_vote_fresh:
  assumes "should_vote n = (Return True, t)"
  shows "own_ballot n (upcoming n) = None" and "upcoming t = upcoming n" and "own_ballot t (upcoming t) = None"
proof -
  have *: "own_ballot n (upcoming n) = None \<and> upcoming t = upcoming n \<and> own_ballot t (upcoming t) = None"
    using assms
    by (auto simp: should_vote_def run_simps run_online_peers has_voted_cast upcoming_def cast_ballot_def split: if_splits)
  then show "own_ballot n (upcoming n) = None" "upcoming t = upcoming n" "own_ballot t (upcoming t) = None" by auto
qed

text \<open>What a turn may store: a ballot of the node itself.\<close>

definition own_entry :: "key \<Rightarrow> int \<Rightarrow> key \<Rightarrow> string list \<Rightarrow> bool" where
  "own_entry me e k b \<longleftrightarrow> k = me"

definition anything :: "consensus_message \<Rightarrow> bool" where
  "anything m \<longleftrightarrow> True"

lemma traffic_own: "traffic S (this_entry e k b) R s t \<Longrightarrow> traffic anything (own_entry k) R s t"
  by (erule traffic_mono) (simp_all add: this_entry_def own_entry_def anything_def)

lemma vote_turn_ok:
  assumes ok: "voter_ok members n"
  shows "voter_ok members (snd (vote_turn n)) \<and> traffic anything (own_entry (cn_key n)) nothing n (snd (vote_turn n))"
proof -
  let ?T = "traffic anything (own_entry (cn_key n)) nothing"
  have quiet: "voter_ok members (snd (f m)) \<and> ?T m (snd (f m))"
    if "voter_ok members m" "keeps quiet f" "keeps node_frame f" for f :: "(ddpoa_node, 'b) py" and m
    using voter_ok_traffic [OF that(1) keepsD [OF that(2)] keepsD [OF that(3)]] keepsD [OF that(2), of m]
    by (auto simp: nothing_def anything_def intro: quiet_traffic)
  obtain r t where t: "should_vote n = (r, t)" by force
  have okt: "voter_ok members t" "?T n t"
    using quiet [OF ok quiet_derived(5) frame_queries(1)] by (simp_all add: t)
  show ?thesis
  proof (cases "r = Return True")
    case True
    have k: "cn_key t = cn_key n" using okt(2) by (rule trafficD)
    have "own_ballot t (upcoming t) = None" using should_vote_fresh(3) t True by simp
    from voter_ok_vote [OF okt(1) this] have "voter_ok members (snd (vote t))" "?T t (snd (vote t))"
      using k by (auto dest: traffic_own)
    with okt(2) show ?thesis using True by (auto simp: vote_turn_def run_simps t intro: traffic.R_trans)
  next
    case False
    obtain q u where u: "should_rebroadcast_ballot t = (q, u)" by force
    have oku: "voter_ok members u" "?T t u" using quiet [OF okt(1) quiet_derived(6) frame_queries(2)] by (simp_all add: u)
    have k: "cn_key u = cn_key n" using trafficD(1) [OF okt(2)] trafficD(1) [OF oku(2)] by simp
    have "voter_ok members (snd (rebroadcast_ballot u))" "?T u (snd (rebroadcast_ballot u))"
      using voter_ok_rebroadcast [OF oku(1)] k by (auto dest: traffic_own)
    with okt oku have all: "?T n u" "?T n (snd (rebroadcast_ballot u))" "voter_ok members (snd (rebroadcast_ballot u))"
      by (auto intro: traffic.R_trans)
    show ?thesis
      using False okt oku all
      by (auto simp: vote_turn_def run_simps t u split: outcome.split)
  qed
qed
text \<open>What a node takes from its queue.\<close>

definition received_ballot :: "ddpoa_node \<Rightarrow> int \<Rightarrow> key \<Rightarrow> ballot \<Rightarrow> bool" where
  "received_ballot n e k b \<longleftrightarrow> (\<exists>m \<in> incoming n. msg_signer m = k \<and> is_ballot e b m)"

definition received_result :: "key list \<Rightarrow> ddpoa_node \<Rightarrow> int \<Rightarrow> key \<Rightarrow> result \<Rightarrow> bool" where
  "received_result members n e k r \<longleftrightarrow> k \<in> set members \<and> (\<exists>m \<in> incoming n. msg_signer m = k \<and> is_result e r m)"

lemma traffic_election_message:
  assumes "msg \<in> incoming n"
  shows "traffic not_vote (received_ballot n) (received_result members n) s (snd (election_message stv sha members msg s))"
proof -
  let ?T = "traffic not_vote (received_ballot n) (received_result members n)"
  obtain r t where t: "cn_seen (msg_signer msg) s = (r, t)" by force
  have seen: "?T s t" using quiet_traffic [OF keepsD [OF quiet_base(2), of s "msg_signer msg"]] by (simp add: t)
  have "?T t (snd (handle_vote stv sha msg (msg_signer msg) t))" if "msg_type msg = VOTE"
    by (rule traffic_mono [OF traffic_handle_vote])
      (use assms that in \<open>auto simp: this_entry_def received_ballot_def is_ballot_def nothing_def\<close>)
  moreover have "?T t (snd (handle_vote_result msg (msg_signer msg) t))" if "msg_signer msg \<in> set members" "msg_type msg = VOTE_RESULT"
    by (rule traffic_mono [OF traffic_handle_vote_result])
      (use assms that in \<open>auto simp: this_entry_def received_result_def is_result_def nothing_def\<close>)
  moreover have "snd (thenP m (ret False) u) = snd (m u)" for m :: "(ddpoa_node, unit) py" and u
    by (simp add: run_simps split: prod.split outcome.split)
  ultimately have "?T t (snd ((case msg_type msg of
      VOTE \<Rightarrow> thenP (handle_vote stv sha msg (msg_signer msg)) (ret False)
    | VOTE_RESULT \<Rightarrow> handle_vote_result msg (msg_signer msg)
    | _ \<Rightarrow> ret False) t))" if "msg_signer msg \<in> set members"
    using that by (cases "msg_type msg") (simp_all add: run_ret traffic.R_refl)
  from traffic.R_trans [OF seen this] seen show ?thesis
    unfolding election_message_def by (cases r) (simp_all add: run_then run_ret t traffic.R_refl)
qed

lemma frame_election_message: "keeps node_frame (election_message stv sha members msg)"
  unfolding election_message_def
  by (cases "msg_type msg"; simp only: message_type.case;
      intro node_frame.cond node_frame.all base_frames [THEN node_frame_base] frame_handle_vote frame_handle_vote_result)

lemma receive_turn_traffic:
  "traffic not_vote (received_ballot n) (received_result members n) n (snd (receive_turn stv sha members n))"
  "node_frame n (snd (receive_turn stv sha members n))"
proof -
  obtain r t where t: "node_recv n = (r, t)" by force
  have recv: "traffic not_vote (received_ballot n) (received_result members n) n t" "node_frame n t"
    using keepsD [OF quiet_base(5), of n] keepsD [OF base_frame_recv [THEN node_frame_base], of n]
    by (auto simp: t intro: quiet_traffic)
  have msg: "msg \<in> incoming n" if "r = Return (Some msg)" for msg
    using t that by (auto simp: node_recv_def in_comm_def run_simps comm_recv_def incoming_def split: prod.splits list.splits)
  show "traffic not_vote (received_ballot n) (received_result members n) n (snd (receive_turn stv sha members n))"
    using recv(1) traffic.R_trans [OF recv(1) traffic_election_message] msg
    by (auto simp: receive_turn_def run_simps t split: outcome.split option.split)
  show "node_frame n (snd (receive_turn stv sha members n))"
    using recv(2) node_frame.R_trans [OF recv(2) keepsD [OF frame_election_message]]
    by (auto simp: receive_turn_def run_simps t split: outcome.split option.split)
qed

section \<open>The invariant of the cluster\<close>

text \<open>Every stored or queued message of another honest node was sent by that node.\<close>

definition authentic :: "key set \<Rightarrow> (key \<Rightarrow> ddpoa_node) \<Rightarrow> bool" where
  "authentic honest C \<longleftrightarrow> (\<forall>k \<in> honest. \<forall>j \<in> honest.
     (\<forall>m \<in> incoming (C k). msg_signer m = j \<longrightarrow> m \<in> outgoing (C j))
     \<and> (j \<noteq> k \<longrightarrow> (\<forall>e b. cast_ballot (C k) e j = Some b \<longrightarrow> (\<exists>m \<in> outgoing (C j). is_ballot e b m)))
     \<and> (j \<noteq> k \<longrightarrow> (\<forall>e r. known_result (C k) e j = Some r \<longrightarrow> (\<exists>m \<in> outgoing (C j). is_result e r m))))"

text \<open>The senders of results are members.\<close>

definition of_members :: "key list \<Rightarrow> key set \<Rightarrow> (key \<Rightarrow> ddpoa_node) \<Rightarrow> bool" where
  "of_members members honest C \<longleftrightarrow> honest \<subseteq> set members
     \<and> (\<forall>k \<in> honest. \<forall>e j r. known_result (C k) e j = Some r \<longrightarrow> j \<in> set members)"

lemma of_membersD: "of_members members honest C \<Longrightarrow> k \<in> honest \<Longrightarrow> known_result (C k) e j = Some r \<Longrightarrow> j \<in> set members"
  unfolding of_members_def by blast

definition cluster_ok :: "key list \<Rightarrow> key set \<Rightarrow> (key \<Rightarrow> ddpoa_node) \<Rightarrow> bool" where
  "cluster_ok members honest C \<longleftrightarrow>
     (\<forall>k \<in> honest. cn_key (C k) = k \<and> voter_ok members (C k)) \<and> authentic honest C \<and> of_members members honest C"

lemma cluster_ok_step:
  assumes ok: "cluster_ok members honest C" and k: "k \<in> honest"
    and traffic: "traffic S B R (C k) t" and voter: "voter_ok members t"
    and ballots: "\<And>e j b. B e j b \<Longrightarrow> j \<in> honest \<Longrightarrow> j \<noteq> k \<Longrightarrow> \<exists>m \<in> outgoing (C j). is_ballot e b m"
    and results: "\<And>e j r. R e j r \<Longrightarrow> j \<in> honest \<Longrightarrow> j \<noteq> k \<Longrightarrow> \<exists>m \<in> outgoing (C j). is_result e r m"
    and senders: "\<And>e j r. R e j r \<Longrightarrow> j \<in> set members"
  shows "cluster_ok members honest (C(k := t))"
proof -
  let ?C = "C(k := t)"
  have auth: "authentic honest C" and known: "of_members members honest C" and keys: "cn_key (C k) = k" "vs_key (dn_voting (C k)) = k"
    using ok k by (auto simp: cluster_ok_def voter_ok_def)
  have sub: "outgoing (C j) \<subseteq> outgoing (?C j)" "incoming (?C j) \<subseteq> incoming (C j)" for j
    using trafficD(4,6) [OF traffic] by auto
  have ballot: "\<exists>m \<in> outgoing (C j). is_ballot e b m"
    if "cast_ballot (?C i) e j = Some b" "j \<noteq> i" "i \<in> honest" "j \<in> honest" for i j e b
  proof (cases "i = k")
    case True
    then have "cast_ballot (C k) e j = Some b \<or> B e j b" using trafficD(7) [OF traffic] that by simp
    then show ?thesis using auth ballots that True unfolding authentic_def by blast
  qed (use auth that in \<open>auto simp: authentic_def\<close>)
  have result: "\<exists>m \<in> outgoing (C j). is_result e r m"
    if "known_result (?C i) e j = Some r" "j \<noteq> i" "i \<in> honest" "j \<in> honest" for i j e r
  proof (cases "i = k")
    case True
    then have "known_result (C k) e j = Some r \<or> R e j r" using trafficD(8) [OF traffic] that keys by auto
    then show ?thesis using auth results that True unfolding authentic_def by blast
  qed (use auth that in \<open>auto simp: authentic_def\<close>)
  have "authentic honest ?C"
    unfolding authentic_def
  proof (intro ballI conjI impI allI)
    fix i j m assume "i \<in> honest" "j \<in> honest" "m \<in> incoming (?C i)" "msg_signer m = j"
    then show "m \<in> outgoing (?C j)" using auth sub unfolding authentic_def by (metis (no_types, lifting) subsetD)
  qed (use ballot result sub in blast)+
  moreover have member: "k \<in> set members" using k known unfolding of_members_def by blast
  have "j \<in> set members" if "known_result t e j = Some r" for e j r
    using trafficD(8) [OF traffic that] of_membersD [OF known k, of e j r] senders keys member
    by (cases "j = vs_key (dn_voting (C k))") auto
  then have "of_members members honest ?C" using known unfolding of_members_def by (metis fun_upd_apply)
  ultimately show ?thesis
    using ok voter keys trafficD(1) [OF traffic] by (simp add: cluster_ok_def)
qed

lemma cluster_ok_quiet:
  assumes "cluster_ok members honest C" "k \<in> honest" "quiet (C k) t" "node_frame (C k) t"
  shows "cluster_ok members honest (C(k := t))"
  by (rule cluster_ok_step [OF assms(1,2,3)])
    (use assms in \<open>auto simp: nothing_def cluster_ok_def intro: voter_ok_traffic\<close>)
lemma new_voter:
  assumes "k \<in> set members" and "n = new_node k members slots net clock rnd"
  shows "voter_ok members n" and "cn_key n = k" and "outgoing n = {}" and "incoming n = {}"
    and "cast_ballot n e j = None" and "known_result n e j = None"
proof -
  note facts = new_node_facts [OF assms]
  show n: "cn_key n = k" "outgoing n = {}" "incoming n = {}" "cast_ballot n e j = None" "known_result n e j = None" for e j
    using facts by (simp_all add: outgoing_def incoming_def Communicator_init_def cast_ballot_def known_result_def
        VotingSystem_def entries_def)
  have "tidy n" using facts by (simp add: tidy_def VotingSystem_def dkeys_def)
  then show "voter_ok members n"
    using facts n by (simp add: voter_ok_def sends_one_ballot_def VotingSystem_def)
qed

lemma cluster_invariant: "cluster stv sha members honest C \<Longrightarrow> cluster_ok members honest C"
proof (induction rule: cluster.induct)
  case (start C)
  have "cn_key (C k) = k \<and> voter_ok members (C k) \<and> outgoing (C k) = {} \<and> incoming (C k) = {}
      \<and> (\<forall>e j. cast_ballot (C k) e j = None \<and> known_result (C k) e j = None)" if k: "k \<in> honest" for k
  proof -
    obtain slots net clock rnd where n: "C k = new_node k members slots net clock rnd" using start(2) [OF k] by blast
    have "k \<in> set members" using start(1) k by blast
    from new_voter [OF this n] show ?thesis by simp
  qed
  with start(1) show ?case by (simp add: cluster_ok_def authentic_def of_members_def)
next
  case (deliver C k m)
  let ?t = "node_step stv sha (Arrive m) (C k)"
  have t: "?t = C k\<lparr>cn_comm := rpc_Message m (cn_comm (C k))\<rparr>"
    by (simp add: node_step_def in_comm_def run_simps)
  have views: "outgoing ?t = outgoing (C k)" "incoming ?t = insert m (incoming (C k))" "cast_ballot ?t = cast_ballot (C k)"
      "known_result ?t = known_result (C k)" "upcoming ?t = upcoming (C k)" "cn_key ?t = cn_key (C k)"
    by (auto simp: t outgoing_def incoming_def rpc_Message_def cast_ballot_def known_result_def upcoming_def fun_eq_iff)
  have "voter_ok members (C k)" using deliver by (simp add: cluster_ok_def)
  then have "voter_ok members ?t"
    using node_step_frame [of "C k" stv sha "Arrive m"]
    by (auto simp: voter_ok_def sends_one_ballot_def views node_frame_def tidy_def) (auto simp: t)
  then show ?case
    using deliver views by (auto simp: cluster_ok_def authentic_def of_members_def)
next
  case (receive C k)
  have ok: "voter_ok members (C k)" "cn_key (C k) = k" and auth: "authentic honest C"
    using receive by (simp_all add: cluster_ok_def)
  note t = receive_turn_traffic [where n = "C k" and members = members and stv = stv and sha = sha]
  have sent: "m \<in> outgoing (C j)" if "m \<in> incoming (C k)" "msg_signer m = j" "j \<in> honest" for m j
    using auth receive(2) that unfolding authentic_def by blast
  show ?case
  proof (rule cluster_ok_step [OF receive(3,2) t(1)])
    show "voter_ok members (snd (receive_turn stv sha members (C k)))"
      using sent ok receive(2) by (intro voter_ok_traffic [OF ok(1) t]) (auto simp: received_ballot_def)
  qed (use sent in \<open>auto simp: received_ballot_def received_result_def\<close>)
next
  case (turn C k)
  have ok: "voter_ok members (C k)" "cn_key (C k) = k" using turn by (simp_all add: cluster_ok_def)
  have t: "voter_ok members (snd (vote_turn (C k)))" "traffic anything (own_entry k) nothing (C k) (snd (vote_turn (C k)))"
    using vote_turn_ok [OF ok(1)] ok(2) by auto
  show ?case
    by (rule cluster_ok_step [OF turn(3,2) t(2,1)]) (simp_all add: own_entry_def nothing_def)
next
  case (other C k c)
  then show ?case by (intro cluster_ok_quiet quiet_step node_step_frame)
next
  case (mode C k st)
  then show ?case by (intro cluster_ok_quiet) simp_all
qed

lemma honest_ballots_consistent:
  assumes "cluster stv sha members honest C" and "i \<in> honest" and "k \<in> honest" and "j \<in> honest"
    and "cast_ballot (C i) e j = Some a" and "cast_ballot (C k) e j = Some b"
  shows "a = b" and "mset a = mset members" and "e \<le> upcoming (C j)"
proof -
  have ok: "cluster_ok members honest C" using assms(1) by (rule cluster_invariant)
  then have j: "sends_one_ballot members (C j)" "cn_key (C j) = j" using assms(4) by (auto simp: cluster_ok_def voter_ok_def)
  have sent: "own_ballot (C j) e = Some c \<or> (\<exists>m \<in> outgoing (C j). is_ballot e c m)"
    if "cast_ballot (C i) e j = Some c" "i \<in> honest" for i c
    using ok that assms(4) j(2) by (cases "i = j") (auto simp: cluster_ok_def authentic_def)
  have own: "e \<le> upcoming (C j) \<and> mset c = mset members" if "own_ballot (C j) e = Some c" for c
    using that j(1) unfolding sends_one_ballot_def by blast
  have msg: "e \<le> upcoming (C j) \<and> mset c = mset members \<and> own_ballot (C j) e \<in> {None, Some c}"
    if "m \<in> outgoing (C j)" "is_ballot e c m" for c m
    using that j(1) unfolding sends_one_ballot_def by blast
  have one: "c = d" if "m \<in> outgoing (C j)" "is_ballot e c m" "m' \<in> outgoing (C j)" "is_ballot e d m'" for c d m m'
    using that j(1) unfolding sends_one_ballot_def by blast
  show "a = b" "mset a = mset members" "e \<le> upcoming (C j)"
    using sent [OF assms(5,2)] sent [OF assms(6,3)] own [of a] msg [of _ a] msg [of _ b] one [of _ a _ b] by auto
qed

section \<open>Properties\<close>

text \<open>C9: honest ballots are consistent: in every cluster that any interleaving of deliveries, turns and
  other calls reaches, two honest nodes that hold a ballot of the same honest member for the same
  epoch hold the same ballot, which ranks all members, although messages are lost, reordered and
  repeated and the other members lie; the voter itself is one of the two nodes or not.\<close>

theorem honest_ballots_agree:
  assumes "cluster stv sha members honest C" and "i \<in> honest" and "k \<in> honest" and "j \<in> honest"
    and "cast_ballot (C i) e j = Some a" and "cast_ballot (C k) e j = Some b"
  shows "a = b \<and> mset a = mset members \<and> e \<le> upcoming (C j)"
  using honest_ballots_consistent [OF assms] by blast
text \<open>What the election relies on of the poll library, without its random tie-breaks, when it is given at least one
  ballot and every ballot ranks all candidates: it returns, whatever the order in which the ballots were added,
  and elects some of the candidates, none twice. On other input it may raise.\<close>

definition poll_ok :: "stv \<Rightarrow> key list \<Rightarrow> bool" where
  "poll_ok stv members \<longleftrightarrow>
     (\<forall>bs. bs \<noteq> [] \<longrightarrow> (\<forall>b \<in> set bs. mset b = mset members) \<longrightarrow>
        (\<forall>cs. mset cs = mset bs \<longrightarrow> stv (length members) members cs = stv (length members) members bs)
        \<and> (\<exists>elected. stv (length members) members bs = Return elected \<and> distinct elected \<and> set elected \<subseteq> set members))"

text \<open>C10: honest nodes elect alike: in every cluster that is reached, two honest nodes that hold the
  ballots of the same honest members for an epoch, at least one, compute the same result, and it ranks every
  member exactly once, when the poll answers full rankings whatever their order, the digest does not collide on
  the members and there are few enough of them for the tie scores to be exact.\<close>

theorem honest_results_agree:
  assumes "cluster stv sha members honest C" and "i \<in> honest" and "k \<in> honest"
    and "dget (vs_ballots (dn_voting (C i))) e = Some d" and "dget (vs_ballots (dn_voting (C k))) e = Some d'"
    and "set (dkeys d) = set (dkeys d')" and "set (dkeys d) \<subseteq> honest" and "d \<noteq> []"
    and "poll_ok stv members" and "inj_on (\<lambda>k. concat_and_hash sha [PyStr k, PyInt e]) (set members)"
    and "distinct members" and "length members ^ 2 * 2 ^ (length members - 1) < 2 ^ 53"
  shows "\<exists>r. mset r = mset members \<and> fst (calculate_result stv sha e (dn_voting (C i))) = Return r
    \<and> fst (calculate_result stv sha e (dn_voting (C k))) = Return r"
proof -
  have ok: "cluster_ok members honest C" using assms(1) by (rule cluster_invariant)
  have voting: "voting_ok (dn_voting (C l))" "vs_peer_keys (dn_voting (C l)) = members" if "l \<in> honest" for l
    using ok that by (auto simp: cluster_ok_def voter_ok_def node_ok_def)
  have cast: "cast_ballot (C i) e j = dget d j" "cast_ballot (C k) e j = dget d' j" for j
    using assms(4,5) by (simp_all add: cast_ballot_def entries_def)
  note agree = honest_ballots_consistent [OF assms(1)]
  have same: "dget d j = dget d' j" for j
  proof (cases "j \<in> set (dkeys d)")
    case True
    then obtain a b where ab: "dget d j = Some a" "dget d' j = Some b"
      using assms(6) by (metis dict.keys_look not_None_eq)
    have "a = b" using agree [OF assms(2,3), of j e a b] True assms(7) ab cast by auto
    with ab show ?thesis by simp
  next
    case False
    then show ?thesis using assms(6) by (metis dict.keys_look)
  qed
  have ranks: "\<forall>b \<in> set (dvalues d). mset b = mset members"
  proof
    fix b assume "b \<in> set (dvalues d)"
    then obtain j where j: "(j, b) \<in> set d" by (auto simp: dvalues_def)
    have "wf_dict d" using voting(1) [OF assms(2)] assms(4) unfolding voting_ok_def entries_def by (metis option.simps(5))
    then have "dget d j = Some b" using j by (rule item_dget)
    moreover have "j \<in> honest" using j assms(7) by (force simp: dkeys_def)
    ultimately show "mset b = mset members" using agree [OF assms(2,2), of j e b b] cast by simp
  qed
  have members: "members \<noteq> []" "length d \<le> length members"
  proof -
    have "honest \<subseteq> set members" using assms(1) by (induction rule: cluster.induct)
    then have sub: "set (dkeys d) \<subseteq> set members" using assms(7) by blast
    then show "members \<noteq> []" using assms(8) by (cases d) (auto simp: dkeys_def)
    have "wf_dict d" using voting(1) [OF assms(2)] assms(4) unfolding voting_ok_def entries_def by (metis option.simps(5))
    then show "length d \<le> length members"
      using card_mono [OF _ sub] card_dkeys distinct_card [OF assms(11)] by (metis List.finite_set)
  qed
  have "length d * length members * 2 ^ (length members - 1) \<le> length members ^ 2 * 2 ^ (length members - 1)"
    using members(2) by (simp add: power2_eq_square)
  then have small: "length d * length members * 2 ^ (length members - 1) < 2 ^ 53" using assms(12) by linarith
  have wf: "wf_dict d" "wf_dict d'"
    using voting(1) assms(2-5) unfolding voting_ok_def entries_def by (metis option.simps(5))+
  have nonempty: "dvalues d \<noteq> []" using assms(8) by (simp add: dvalues_def)
  have "mset (dvalues d') = mset (dvalues d)" using wf same by (intro equal_dicts_mset) auto
  then have poll: "stv (length members) members (dvalues d') = stv (length members) members (dvalues d)"
      "\<exists>elected. stv (length members) members (dvalues d) = Return elected \<and> distinct elected \<and> set elected \<subseteq> set members"
    using assms(9) nonempty ranks unfolding poll_ok_def by blast+
  have eq: "fst (calculate_result stv sha e (dn_voting (C i))) = fst (calculate_result stv sha e (dn_voting (C k)))"
  proof (rule same_ballots_same_result)
    show "voting_ok (dn_voting (C i))" "voting_ok (dn_voting (C k))" using voting(1) assms(2,3) by blast+
    show "vs_peer_keys (dn_voting (C k)) = vs_peer_keys (dn_voting (C i))" using voting(2) assms(2,3) by simp
    show "dget (vs_ballots (dn_voting (C i))) e = Some d" "dget (vs_ballots (dn_voting (C k))) e = Some d'"
      using assms(4,5) .
    show "\<forall>j. dget d j = dget d' j" using same by blast
    show "stv (length (vs_peer_keys (dn_voting (C i)))) (vs_peer_keys (dn_voting (C i))) (dvalues d)
        = stv (length (vs_peer_keys (dn_voting (C i)))) (vs_peer_keys (dn_voting (C i))) (dvalues d')"
      unfolding voting(2) [OF assms(2)] using poll(1) by simp
  qed (unfold voting(2) [OF assms(2)], (fact ranks assms(10) members small)+)
  obtain elected where el: "stv (length members) members (dvalues d) = Return elected" "distinct elected"
      "set elected \<subseteq> set members"
    using poll(2) by blast
  obtain ws where "elect stv sha e members (dvalues d) = Return (elected @ ws)" "mset (elected @ ws) = mset members"
    using assms(11) nonempty ranks el by (rule elect_everyone)
  then have "fst (calculate_result stv sha e (dn_voting (C i))) = Return (elected @ ws) \<and> mset (elected @ ws) = mset members"
    using voting(2) [OF assms(2)] assms(4) by (simp add: run_calculate_result)
  then show ?thesis using eq by auto
qed
text \<open>What a turn of receiving does when it starts an epoch.\<close>

lemma receive_turn_True:
  assumes "receive_turn stv sha members n = (Return True, t)"
  obtains msg ms m where "cm_queue (cn_comm n) = msg # ms" and "msg_signer msg \<in> set members" and "msg_type msg = VOTE_RESULT" and "handle_vote_result msg (msg_signer msg) m = (Return True, t)"
    and "quiet n m" and "node_frame n m" and "dn_epoch m = dn_epoch n" and "dn_num_slots m = dn_num_slots n"
    and "comm_online_peers (cn_comm m) = comm_online_peers (cn_comm n)" and "dn_voting m = dn_voting n"
proof -
  obtain r u where u: "node_recv n = (r, u)" by force
  have false: "thenP m (ret False) s \<noteq> (Return True, t)" for m :: "(ddpoa_node, unit) py" and s
    by (simp add: run_simps split: prod.split outcome.split)
  obtain msg where r: "r = Return (Some msg)" and e: "election_message stv sha members msg u = (Return True, t)"
    using assms by (auto simp: receive_turn_def run_simps u split: outcome.splits option.splits)
  obtain m where m: "cn_seen (msg_signer msg) u = (Return (), m)" and type: "msg_signer msg \<in> set members" "msg_type msg = VOTE_RESULT"
      and h: "handle_vote_result msg (msg_signer msg) m = (Return True, t)"
    using e false
    by (auto simp: election_message_def run_ret run_then [of "cn_seen _"] split: prod.splits outcome.splits message_type.splits if_splits)
  obtain ms where in_n: "cm_queue (cn_comm n) = msg # ms"
    using u r by (auto simp: node_recv_def in_comm_def run_simps comm_recv_def split: prod.splits list.splits)
  have q: "quiet n m" "node_frame n m"
    using keepsD [OF quiet_base(5), of n] keepsD [OF quiet_base(2), of u "msg_signer msg"]
      keepsD [OF base_frame_recv [THEN node_frame_base], of n]
      keepsD [OF frame_seen [THEN node_frame_base], of u "msg_signer msg"] traffic.R_trans node_frame.R_trans
    unfolding u m snd_conv by blast+
  have f: "base_frame n u" "base_frame u m"
    using keepsD [OF base_frame_recv, of n] keepsD [OF frame_seen, of u "msg_signer msg"] by (simp_all add: u m)
  have "cm_peers (cn_comm u) = cm_peers (cn_comm n)"
    using u by (auto simp: node_recv_def in_comm_def run_simps comm_recv_def split: prod.splits list.splits)
  moreover have "cn_comm m = cn_comm u"
    using m by (auto simp: cn_seen_def get_peer_def run_simps time_now_def put_peer_def split: option.splits)
  ultimately have online: "comm_online_peers (cn_comm m) = comm_online_peers (cn_comm n)" by (simp add: comm_online_peers_def)
  show thesis
    using base_frame_attributes [OF f(1)] base_frame_attributes [OF f(2)]
    by (intro that [OF in_n type h q _ _ online]) simp_all
qed

text \<open>C11: an epoch has honest support: when an honest node starts an epoch on a message, this message is a result
  for the coming epoch, and the epoch is seated from a result \<open>r\<close> whose supporters are as many as the quorum
  asks: supporters are those under whose keys the node has stored \<open>r\<close>, with the message counted under its
  sender. They are all members, and every honest one among them, the node itself apart, has really
  sent \<open>r\<close> for that epoch; whatever is lost, reordered or repeated, and whatever the other members send
  under their own keys.\<close>

theorem epoch_has_honest_support:
  assumes "cluster stv sha members honest C" and "k \<in> honest"
    and "receive_turn stv sha members (C k) = (Return True, t)"
  shows "\<exists>msg ms r. cm_queue (cn_comm (C k)) = msg # ms \<and> msg_type msg = VOTE_RESULT \<and> msg_epoch msg = upcoming (C k)
    \<and> (let supporters = {j. (if j = msg_signer msg then Some (msg_result msg) else known_result (C k) (upcoming (C k)) j) = Some r};
           online = comm_online_peers (cn_comm (C k)) + 1
       in supporters \<subseteq> set members
         \<and> (if ep_number (dn_epoch (C k)) = 0 then int (card supporters) = online
            else int (card supporters) \<ge> max (vs_num_slots (dn_voting (C k))) (1 + online * 2 div 3))
         \<and> (\<forall>j \<in> supporters \<inter> honest - {k}. \<exists>m \<in> outgoing (C j). is_result (upcoming (C k)) r m))
    \<and> ep_number (dn_epoch t) = upcoming (C k) \<and> full_candidate_list (dn_epoch t) = r
    \<and> ep_witnesses (dn_epoch t) = slice_to (dn_num_slots (C k)) r"
proof -
  have ok: "cluster_ok members honest C" using assms(1) by (rule cluster_invariant)
  then have k: "cn_key (C k) = k" "vs_key (dn_voting (C k)) = k" "voting_ok (dn_voting (C k))" and auth: "authentic honest C"
      and known: "of_members members honest C"
    using assms(2) by (auto simp: cluster_ok_def voter_ok_def node_ok_def)
  obtain msg ms m where queue: "cm_queue (cn_comm (C k)) = msg # ms" and msg: "msg_signer msg \<in> set members" "msg_type msg = VOTE_RESULT"
      and h: "handle_vote_result msg (msg_signer msg) m = (Return True, t)"
      and m: "dn_epoch m = dn_epoch (C k)" "dn_num_slots m = dn_num_slots (C k)"
        "comm_online_peers (cn_comm m) = comm_online_peers (cn_comm (C k))" "dn_voting m = dn_voting (C k)"
    using assms(3) by (rule receive_turn_True)
  let ?v = "noted_result msg (msg_signer msg) m"
  obtain r c where rc: "get_consensus_result (msg_epoch msg) ?v = Return (r, c)"
    and e: "msg_epoch msg = ep_number (dn_epoch m) + 1" and q: "result_quorum c ?v m"
    and t: "dn_epoch t = set_candidates_and_witnesses r (Epoch_init (msg_epoch msg) (dn_num_slots m))"
    using h by (rule handle_vote_result_True)
  define A where "A = {j. (if j = msg_signer msg then Some (msg_result msg) else known_result (C k) (upcoming (C k)) j) = Some r}"
  have e': "msg_epoch msg = upcoming (C k)" by (simp add: e m upcoming_def next_epoch_number_def)
  have A: "A = {j. dget (entries (vs_results ?v) (msg_epoch msg)) j = Some r}"
    by (auto simp: A_def known_result_def noted_result_def results_set_peer_result entries_dput dict_simps m e' split: if_splits)
  have "voting_ok ?v" using k m by (simp add: noted_result_def voting_ok_set_peer_result)
  then have "c = int (card A)"
    using get_consensus_result_Return(2) [OF rc] by (simp add: A voting_ok_def count_list_card)
  with q have quorum: "let online = comm_online_peers (cn_comm (C k)) + 1 in
      if ep_number (dn_epoch (C k)) = 0 then int (card A) = online
      else int (card A) \<ge> max (vs_num_slots (dn_voting (C k))) (1 + online * 2 div 3)"
    by (auto simp: result_quorum_def m consensus_amount_def noted_result_def Let_def split: if_splits)
  have sent: "\<exists>m' \<in> outgoing (C j). is_result (upcoming (C k)) r m'" if "j \<in> A \<inter> honest - {k}" for j
  proof (cases "j = msg_signer msg")
    case True
    have "msg \<in> incoming (C k)" using queue by (simp add: incoming_def)
    then have "msg \<in> outgoing (C j)" using True auth that assms(2) unfolding authentic_def by blast
    moreover have "is_result (upcoming (C k)) r msg" using True that msg e' by (simp add: is_result_def A_def)
    ultimately show ?thesis by blast
  next
    case False
    then have "known_result (C k) (upcoming (C k)) j = Some r" using that by (simp add: A_def)
    then show ?thesis using auth that assms(2) unfolding authentic_def by blast
  qed
  have inside: "A \<subseteq> set members"
  proof
    fix j assume "j \<in> A"
    then show "j \<in> set members"
      using msg(1) of_membersD [OF known assms(2)] by (cases "j = msg_signer msg") (auto simp: A_def)
  qed
  have seated: "ep_number (dn_epoch t) = upcoming (C k)" "full_candidate_list (dn_epoch t) = r"
      "ep_witnesses (dn_epoch t) = slice_to (dn_num_slots (C k)) r"
    by (simp_all add: t e' m set_candidates_and_witnesses_def Epoch_init_def full_candidate_list_def)
  show ?thesis
    by (rule exI [of _ msg], rule exI [of _ ms], rule exI [of _ r], unfold A_def [symmetric] Let_def)
      (use queue msg(2) e' quorum sent inside seated in \<open>simp add: Let_def\<close>)
qed
text \<open>C26: the messages of honest nodes are well-formed: in every cluster that is reached, whatever an
  honest node has sent carries its own key, a VOTE carries a ranking of all members for an epoch
  that is not later than the node's coming one, and two VOTEs of a node for one epoch, first
  or repeated, carry the same ballot.\<close>

theorem honest_messages_typed:
  assumes "cluster stv sha members honest C" and "k \<in> honest" and "m \<in> outgoing (C k)" and "m' \<in> outgoing (C k)"
  shows "msg_signer m = k
    \<and> (msg_type m = VOTE \<longrightarrow> mset (msg_votes m) = mset members \<and> msg_epoch m \<le> upcoming (C k))
    \<and> (msg_type m = VOTE \<longrightarrow> msg_type m' = VOTE \<longrightarrow> msg_epoch m' = msg_epoch m \<longrightarrow> msg_votes m' = msg_votes m)"
proof -
  have k: "cn_key (C k) = k" "sends_one_ballot members (C k)"
    using cluster_invariant [OF assms(1)] assms(2) by (auto simp: cluster_ok_def voter_ok_def)
  have "is_ballot (msg_epoch m) (msg_votes m) m" if "msg_type m = VOTE" for m using that by (simp add: is_ballot_def)
  then show ?thesis using k assms(3,4) unfolding sends_one_ballot_def by metis
qed

section \<open>A cluster of two\<close>

text \<open>Two members connect to each other, vote, and exchange their ballots and their results.\<close>

text \<open>The poll is the first round of a count: it raises without ballots and on unknown candidates, and elects, in the
  order of the list, whoever has a Droop quota of first preferences.\<close>

definition first_preferences :: "key \<Rightarrow> ballot list \<Rightarrow> nat" where
  "first_preferences c bs = length (filter (\<lambda>b. hd b = c) bs)"

definition first_round :: stv where
  "first_round seats candidates bs =
     (if bs = [] \<or> (\<exists>b \<in> set bs. b = [] \<or> \<not> set b \<subseteq> set candidates) then Raise ValueError
      else Return (filter (\<lambda>c. length bs div (seats + 1) + 1 \<le> first_preferences c bs) candidates))"

lemma poll_ok_first_round:
  assumes "distinct members" "members \<noteq> []"
  shows "poll_ok first_round members"
proof -
  have same: "first_round s members cs = first_round s members bs" if "mset cs = mset bs" for s bs cs
  proof -
    have "first_preferences c cs = first_preferences c bs" for c
      unfolding first_preferences_def using that by (metis mset_filter size_mset)
    moreover have "set cs = set bs" "length cs = length bs" "cs = [] \<longleftrightarrow> bs = []"
      using that by (metis set_mset_mset, metis size_mset, auto)
    ultimately show ?thesis by (simp add: first_round_def)
  qed
  have "first_round s members bs = Return (filter (\<lambda>c. length bs div (s + 1) + 1 \<le> first_preferences c bs) members)"
    if "bs \<noteq> []" "\<forall>b \<in> set bs. mset b = mset members" for s bs
  proof -
    have "set b = set members" if "b \<in> set bs" for b
      using that \<open>\<forall>b \<in> set bs. mset b = mset members\<close> by (metis set_mset_mset)
    then have "b \<noteq> [] \<and> set b \<subseteq> set members" if "b \<in> set bs" for b using that assms(2) by force
    then have "\<not> (bs = [] \<or> (\<exists>b \<in> set bs. b = [] \<or> \<not> set b \<subseteq> set members))" using \<open>bs \<noteq> []\<close> by blast
    then show ?thesis unfolding first_round_def by (rule if_not_P)
  qed
  note returns = this
  show ?thesis unfolding poll_ok_def
  proof (intro allI impI conjI)
    fix bs :: "ballot list"
    assume bs: "bs \<noteq> []" "\<forall>b \<in> set bs. mset b = mset members"
    show "first_round (length members) members cs = first_round (length members) members bs" if "mset cs = mset bs" for cs
      using that by (rule same)
    show "\<exists>elected. first_round (length members) members bs = Return elected \<and> distinct elected \<and> set elected \<subseteq> set members"
      unfolding returns [OF bs] using assms(1) by auto
  qed
qed

definition duo_fresh :: "key \<Rightarrow> ddpoa_node" where
  "duo_fresh k = new_node k [''a'', ''b''] 1 (\<lambda>_ _. True) (\<lambda>i. 0) (\<lambda>i. 1/2)"

definition duo_voted :: "key \<Rightarrow> key \<Rightarrow> ddpoa_node" where
  "duo_voted k j = snd (vote_turn (node_run first_round id [Seen j, Connected j j, Connect_Timer j, Ping j] (duo_fresh k)))"

definition duo_ballot :: "key \<Rightarrow> consensus_message" where
  "duo_ballot k = (ConsensusMessage VOTE)\<lparr>msg_votes := [''b'', ''a''], msg_epoch := 1, msg_signer := k\<rparr>"

definition duo_result :: "key \<Rightarrow> consensus_message" where
  "duo_result k = (ConsensusMessage VOTE_RESULT)\<lparr>msg_result := [''b'', ''a''], msg_epoch := 1, msg_signer := k\<rparr>"

definition duo_counted :: "key \<Rightarrow> key \<Rightarrow> ddpoa_node" where
  "duo_counted k j = snd (receive_turn first_round id [''a'', ''b''] (node_step first_round id (Arrive (duo_ballot j)) (duo_voted k j)))"

definition duo_informed :: "key \<Rightarrow> key \<Rightarrow> ddpoa_node" where
  "duo_informed k j = node_step first_round id (Arrive (duo_result j)) (duo_counted k j)"

text \<open>The messages that leave, and the ballots that are stored.\<close>

lemma duo_voted_sends:
  "cm_outbox (cn_comm (duo_voted ''a'' ''b'')) = [(''b'', duo_ballot ''a'')]"
  "cm_outbox (cn_comm (duo_voted ''b'' ''a'')) = [(''a'', duo_ballot ''b'')]"
  by code_simp+

lemma duo_counted_a:
  "(map snd (cm_outbox (cn_comm (duo_counted ''a'' ''b''))), vs_ballots (dn_voting (duo_counted ''a'' ''b'')))
    = ([duo_ballot ''a'', duo_result ''a''], [(1, [(''a'', [''b'', ''a'']), (''b'', [''b'', ''a''])])])"
  by code_simp

lemma duo_counted_b:
  "(map snd (cm_outbox (cn_comm (duo_counted ''b'' ''a''))), vs_ballots (dn_voting (duo_counted ''b'' ''a'')))
    = ([duo_ballot ''b'', duo_result ''b''], [(1, [(''b'', [''b'', ''a'']), (''a'', [''b'', ''a''])])])"
  by code_simp

lemma duo_starts:
  "(fst (receive_turn first_round id [''a'', ''b''] (duo_informed ''a'' ''b'')), upcoming (duo_informed ''a'' ''b''))
    = (Return True, 1)"
  by code_simp

lemma duo_outgoing:
  "duo_ballot ''a'' \<in> outgoing (duo_voted ''a'' ''b'')" "duo_ballot ''b'' \<in> outgoing (duo_voted ''b'' ''a'')"
  "duo_result ''a'' \<in> outgoing (duo_counted ''a'' ''b'')" "duo_result ''b'' \<in> outgoing (duo_counted ''b'' ''a'')"
  "msg_signer (duo_ballot k) = k" "msg_signer (duo_result k) = k"
  using duo_voted_sends duo_counted_a duo_counted_b
  by (auto simp: outgoing_def duo_ballot_def duo_result_def simp flip: set_map)

lemma outgoing_arrive [simp]: "outgoing (node_step stv sha (Arrive m) n) = outgoing n"
  by (simp add: node_step_def in_comm_def run_simps outgoing_def rpc_Message_def)

abbreviation both :: "(key \<Rightarrow> key \<Rightarrow> ddpoa_node) \<Rightarrow> key \<Rightarrow> ddpoa_node" where
  "both f \<equiv> duo_fresh(''a'' := f ''a'' ''b'', ''b'' := f ''b'' ''a'')"

abbreviation duo :: "(key \<Rightarrow> ddpoa_node) \<Rightarrow> bool" where
  "duo \<equiv> cluster first_round id [''a'', ''b''] {''a'', ''b''}"

lemma duo_update:
  assumes "duo (both f)"
    and "\<And>C. duo C \<Longrightarrow> C ''a'' = f ''a'' ''b'' \<Longrightarrow> C ''b'' = f ''b'' ''a'' \<Longrightarrow> duo (C(''a'' := g ''a'' ''b''))"
    and "\<And>C. duo C \<Longrightarrow> C ''a'' = g ''a'' ''b'' \<Longrightarrow> C ''b'' = f ''b'' ''a'' \<Longrightarrow> duo (C(''b'' := g ''b'' ''a''))"
  shows "duo (both g)"
proof -
  have "duo ((both f)(''a'' := g ''a'' ''b''))" by (rule assms(2) [OF assms(1)]) simp_all
  then have "duo ((both f)(''a'' := g ''a'' ''b'', ''b'' := g ''b'' ''a''))" by (rule assms(3)) simp_all
  moreover have "(both f)(''a'' := g ''a'' ''b'', ''b'' := g ''b'' ''a'') = both g" by (simp add: fun_eq_iff)
  ultimately show ?thesis by (simp only:)
qed

lemma cluster_run:
  assumes "cluster stv sha members honest C" "k \<in> honest" "\<forall>c \<in> set cs. \<forall>n. undisturbed n c"
  shows "cluster stv sha members honest (C(k := node_run stv sha cs (C k)))"
  using assms
proof (induction cs arbitrary: C)
  case (Cons c cs)
  have "cluster stv sha members honest (C(k := node_step stv sha c (C k)))"
    using Cons.prems by (intro cluster.other) simp_all
  from Cons.IH [OF this Cons.prems(2)] Cons.prems(3)
  have "cluster stv sha members honest (C(k := node_run stv sha cs (node_step stv sha c (C k))))"
    by (simp del: fun_upd_apply add: fun_upd_same)
  then show ?case by (simp add: node_run_def del: fun_upd_apply)
qed (simp add: node_run_def)

lemma duo_run_voted: "duo (both duo_voted)"
proof -
  let ?online = "\<lambda>k j. node_run first_round id [Seen j, Connected j j, Connect_Timer j, Ping j] (duo_fresh k)"
  have "duo (both (\<lambda>k j. duo_fresh k))" by (rule cluster.start) (auto simp: duo_fresh_def)
  then have "duo (both ?online)"
  proof (rule duo_update)
    fix C assume C: "duo C" "C ''a'' = duo_fresh ''a''"
    show "duo (C(''a'' := ?online ''a'' ''b''))"
      unfolding C(2) [symmetric] by (rule cluster_run [OF C(1)]) simp_all
  next
    fix C assume C: "duo C" "C ''b'' = duo_fresh ''b''"
    show "duo (C(''b'' := ?online ''b'' ''a''))"
      unfolding C(2) [symmetric] by (rule cluster_run [OF C(1)]) simp_all
  qed
  then show ?thesis by (rule duo_update) (metis cluster.turn duo_voted_def insertCI)+
qed

lemma duo_deliver:
  assumes "duo C" "k \<in> {''a'', ''b''}" "m \<in> outgoing (C (msg_signer m))"
  shows "duo (C(k := node_step first_round id (Arrive m) (C k)))"
  by (rule cluster.deliver [OF assms(1,2)]) (rule assms(3))

lemma duo_run_counted: "duo (both duo_counted)"
proof -
  have "duo (both (\<lambda>k j. node_step first_round id (Arrive (duo_ballot j)) (duo_voted k j)))"
  proof (rule duo_update [OF duo_run_voted])
    fix C assume C: "duo C" "C ''a'' = duo_voted ''a'' ''b''" "C ''b'' = duo_voted ''b'' ''a''"
    show "duo (C(''a'' := node_step first_round id (Arrive (duo_ballot ''b'')) (duo_voted ''a'' ''b'')))"
      using duo_deliver [OF C(1), of "''a''" "duo_ballot ''b''"] duo_outgoing C by simp
  next
    fix C assume C: "duo C" "C ''a'' = node_step first_round id (Arrive (duo_ballot ''b'')) (duo_voted ''a'' ''b'')"
      "C ''b'' = duo_voted ''b'' ''a''"
    show "duo (C(''b'' := node_step first_round id (Arrive (duo_ballot ''a'')) (duo_voted ''b'' ''a'')))"
      using duo_deliver [OF C(1), of "''b''" "duo_ballot ''a''"] duo_outgoing C by simp
  qed
  then show ?thesis by (rule duo_update) (metis cluster.receive duo_counted_def insertCI)+
qed

lemma duo_run_informed: "duo (both duo_informed)"
proof (rule duo_update [OF duo_run_counted])
  fix C assume C: "duo C" "C ''a'' = duo_counted ''a'' ''b''" "C ''b'' = duo_counted ''b'' ''a''"
  show "duo (C(''a'' := duo_informed ''a'' ''b''))"
    using duo_deliver [OF C(1), of "''a''" "duo_result ''b''"] duo_outgoing C by (simp add: duo_informed_def)
next
  fix C assume C: "duo C" "C ''a'' = duo_informed ''a'' ''b''" "C ''b'' = duo_counted ''b'' ''a''"
  show "duo (C(''b'' := duo_informed ''b'' ''a''))"
    using duo_deliver [OF C(1), of "''b''" "duo_result ''a''"] duo_outgoing C by (simp add: duo_informed_def)
qed

lemma duo_tables:
  "dget (vs_ballots (dn_voting (duo_counted ''a'' ''b''))) 1 = Some [(''a'', [''b'', ''a'']), (''b'', [''b'', ''a''])]"
  "dget (vs_ballots (dn_voting (duo_counted ''b'' ''a''))) 1 = Some [(''b'', [''b'', ''a'']), (''a'', [''b'', ''a''])]"
  "cast_ballot (duo_counted ''a'' ''b'') 1 ''b'' = Some [''b'', ''a'']"
  "cast_ballot (duo_counted ''b'' ''a'') 1 ''b'' = Some [''b'', ''a'']"
  using duo_counted_a duo_counted_b by (simp_all add: dget_def cast_ballot_def entries_def)

theorem honest_ballots_agree_witness:
  "cast_ballot (both duo_counted ''a'') 1 ''b'' = cast_ballot (both duo_counted ''b'') 1 ''b''
    \<and> 1 \<le> upcoming (both duo_counted ''b'')"
  using honest_ballots_agree [OF duo_run_counted, of "''a''" "''b''" "''b''" 1 "[''b'', ''a'']" "[''b'', ''a'']"] duo_tables
  by simp

theorem honest_results_agree_witness:
  "fst (calculate_result first_round id 1 (dn_voting (both duo_counted ''a'')))
    = fst (calculate_result first_round id 1 (dn_voting (both duo_counted ''b'')))"
proof -
  have "inj_on (\<lambda>k. concat_and_hash id [PyStr k, PyInt 1]) (set [''a'', ''b''])"
    by (auto simp: inj_on_def concat_and_hash_concat)
  moreover have "poll_ok first_round [''a'', ''b'']" by (rule poll_ok_first_round) simp_all
  ultimately show ?thesis
    using honest_results_agree [OF duo_run_counted, of "''a''" "''b''" 1 "[(''a'', [''b'', ''a'']), (''b'', [''b'', ''a''])]"
      "[(''b'', [''b'', ''a'']), (''a'', [''b'', ''a''])]"] duo_tables
    by (auto simp: dkeys_def insert_commute power2_eq_square)
qed

theorem honest_messages_typed_witness:
  "msg_signer (duo_ballot ''a'') = ''a'' \<and> mset (msg_votes (duo_ballot ''a'')) = {# ''a'', ''b'' #}"
  using honest_messages_typed [OF duo_run_voted, of "''a''" "duo_ballot ''a''" "duo_ballot ''a''"] duo_outgoing(1)
  by (auto simp: duo_ballot_def ConsensusMessage_def)

theorem epoch_has_honest_support_witness:
  "ep_number (dn_epoch (snd (receive_turn first_round id [''a'', ''b''] (both duo_informed ''a'')))) = 1"
proof -
  have "receive_turn first_round id [''a'', ''b''] (both duo_informed ''a'')
      = (Return True, snd (receive_turn first_round id [''a'', ''b''] (both duo_informed ''a'')))"
    using duo_starts by (simp add: prod_eq_iff)
  from epoch_has_honest_support [OF duo_run_informed _ this] duo_starts show ?thesis by auto
qed

end
