(* ===== verification/Election_Round.thy ===== *)
theory Election_Round
  imports Cluster
begin

text \<open>
  One round of an election over a network that loses, repeats and reorders messages: every member has
  voted, every ballot reaches every other member in the end, once or several times (\<open>rebroadcast_ballot\<close>
  repeats it while the election lasts), and then every result does. The theory runs \<open>handle_vote\<close> and
  \<open>handle_vote_result\<close> of \<open>engine/ddpoa_node.py\<close> over the messages in any order and shows that
  all members seat the same new epoch.
\<close>

section \<open>Receiving the ballots\<close>

definition ballot_message :: "int \<Rightarrow> ballot \<Rightarrow> consensus_message" where
  "ballot_message e b = (ConsensusMessage VOTE)\<lparr>msg_votes := b, msg_epoch := e\<rparr>"

definition receive_ballots :: "stv \<Rightarrow> (string \<Rightarrow> string) \<Rightarrow> int \<Rightarrow> (key \<times> ballot) list \<Rightarrow> ddpoa_node \<Rightarrow> ddpoa_node" where
  "receive_ballots stv sha e bs n = fold (\<lambda>(k, b) m. snd (handle_vote stv sha (ballot_message e b) k m)) bs n"

lemma ballot_message_fields [simp]: "msg_epoch (ballot_message e b) = e" "msg_votes (ballot_message e b) = b"
  by (simp_all add: ballot_message_def)

text \<open>A node in the middle of the round: it holds the ballots \<open>d\<close> for the coming epoch \<open>e\<close>, no result,
  and sees all of the \<open>N\<close> members online.\<close>

definition counting :: "int \<Rightarrow> nat \<Rightarrow> (key, ballot) dict \<Rightarrow> ddpoa_node \<Rightarrow> bool" where
  "counting e N d n \<longleftrightarrow> upcoming n = e \<and> entries (vs_ballots (dn_voting n)) e = d
     \<and> entries (vs_results (dn_voting n)) e = [] \<and> comm_online_peers (cn_comm n) + 1 = int N
     \<and> vs_num_slots (dn_voting n) \<le> int N"

text \<open>What the round does not touch.\<close>

definition settled :: "ddpoa_node \<Rightarrow> ddpoa_node \<Rightarrow> bool" where
  "settled s t \<longleftrightarrow> dn_epoch t = dn_epoch s \<and> dn_num_slots t = dn_num_slots s \<and> vs_key (dn_voting t) = vs_key (dn_voting s)
     \<and> vs_peer_keys (dn_voting t) = vs_peer_keys (dn_voting s) \<and> vs_num_slots (dn_voting t) = vs_num_slots (dn_voting s)
     \<and> cm_peers (cn_comm t) = cm_peers (cn_comm s)"

lemma settled_refl: "settled n n" and settled_trans: "settled s t \<Longrightarrow> settled t u \<Longrightarrow> settled s u"
  by (auto simp: settled_def)

text \<open>One more ballot, not the last one.\<close>

lemma count_ballot:
  assumes "counting e N d n" "k \<notin> set (dkeys d)" "Suc (length d) < N"
  shows "counting e N (d @ [(k, b)]) (snd (handle_vote stv sha (ballot_message e b) k n))"
    and "settled n (snd (handle_vote stv sha (ballot_message e b) k n))"
proof -
  have fresh: "dget d k = None" using assms(2) by (metis dict.keys_look)
  have entry: "entries (vs_ballots (add_ballot e k b (dn_voting n))) e = d @ [(k, b)]"
    using assms(1) fresh by (simp add: counting_def ballots_add_ballot entries_dput dput_fresh)
  have voted: "\<not> has_voted k e (dn_voting n)" using assms(1) fresh by (simp add: has_voted_entries counting_def)
  define m where "m = (cancel_timer (n\<lparr>dn_voting := add_ballot e k b (dn_voting n)\<rparr>))\<lparr>dn_pre_online := int N\<rparr>"
  have run: "snd (handle_vote stv sha (ballot_message e b) k n) = m
    \<or> snd (handle_vote stv sha (ballot_message e b) k n) = m\<lparr>dn_broadcast_timer := Some \<lparr>bt_epoch = e, bt_pending = True\<rparr>\<rparr>"
    using assms voted entry
    by (simp add: run_handle_vote Let_def counting_def upcoming_def m_def)
  have m: "counting e N (d @ [(k, b)]) m" "settled n m"
    using assms(1) entry by (auto simp: counting_def settled_def m_def cancel_timer_def upcoming_def)
  show "counting e N (d @ [(k, b)]) (snd (handle_vote stv sha (ballot_message e b) k n))"
    "settled n (snd (handle_vote stv sha (ballot_message e b) k n))"
    using run m by (auto simp: counting_def settled_def upcoming_def)
qed
text \<open>The last ballot: the node elects, stores its result and broadcasts it.\<close>

definition elected_by :: "int \<Rightarrow> result \<Rightarrow> ddpoa_node \<Rightarrow> bool" where
  "elected_by e r n \<longleftrightarrow> entries (vs_results (dn_voting n)) e = [(vs_key (dn_voting n), r)]
     \<and> (0 < comm_online_peers (cn_comm n) \<longrightarrow> (\<exists>m \<in> outgoing n. is_result e r m))"

lemma broadcast_leaves:
  assumes "0 < comm_online_peers (cn_comm n)"
  shows "\<exists>m' \<in> outgoing (snd (broadcast m n)). \<exists>t k. m' = m\<lparr>msg_timestamp := t, msg_signer := k\<rparr>"
proof -
  let ?ps = "filter pr_connected (dvalues (cm_peers (cn_comm n)))"
  obtain p where "p \<in> set ?ps" using assms by (cases ?ps) (auto simp: online_peers_filter)
  then have "m\<lparr>msg_timestamp := py_int (cn_clock n (cn_tick n)), msg_signer := cn_key n\<rparr> \<in> outgoing (snd (broadcast m n))"
    by (force simp: broadcast_def stamp_def run_simps time_now_def in_comm_def outgoing_def broadcast_outbox image_iff)
  then show ?thesis by blast
qed

lemma broadcast_settled: "dn_voting (snd (broadcast m (n :: ddpoa_node))) = dn_voting n"
  "settled n (snd (broadcast m n))"
  by (simp_all add: broadcast_def stamp_def run_simps time_now_def in_comm_def settled_def)

lemma run_broadcast_result:
  assumes "elect stv sha e (vs_peer_keys (dn_voting n)) (dvalues (entries (vs_ballots (dn_voting n)) e)) = Return r"
    and "entries (vs_ballots (dn_voting n)) e \<noteq> []" and "entries (vs_results (dn_voting n)) e = []"
  shows "elected_by e r (snd (broadcast_result stv sha e n))" and "settled n (snd (broadcast_result stv sha e n))"
proof -
  let ?m = "(ConsensusMessage VOTE_RESULT)\<lparr>msg_result := r, msg_epoch := e\<rparr>"
  obtain d where d: "dget (vs_ballots (dn_voting n)) e = Some d" "entries (vs_ballots (dn_voting n)) e = d"
    using assms(2) by (cases "dget (vs_ballots (dn_voting n)) e") (auto simp: entries_def)
  define u where "u = n\<lparr>dn_voting := set_peer_result e (vs_key (dn_voting n)) r (with_poll e (dvalues d) (dn_voting n))\<rparr>"
  have run: "snd (broadcast_result stv sha e n) = snd (broadcast ?m u)"
    using assms(1) d by (simp add: broadcast_result_def in_voting_def run_simps run_calculate_result u_def)
  have u: "entries (vs_results (dn_voting u)) e = [(vs_key (dn_voting u), r)]" "settled n u" "cn_comm u = cn_comm n"
    using assms(3) by (simp_all add: u_def results_set_peer_result entries_dput settled_def) (simp add: dput_def)
  have "\<exists>m \<in> outgoing (snd (broadcast ?m u)). is_result e r m" if online: "0 < comm_online_peers (cn_comm u)"
  proof -
    obtain m t k where m: "m \<in> outgoing (snd (broadcast ?m u))" "m = ?m\<lparr>msg_timestamp := t, msg_signer := k\<rparr>"
      using broadcast_leaves [OF online, where m = ?m] by blast
    then have "is_result e r m" by (simp add: is_result_def ConsensusMessage_def)
    with m(1) show ?thesis by blast
  qed
  then show "elected_by e r (snd (broadcast_result stv sha e n))"
    using u broadcast_settled [where m = ?m and n = u] by (simp add: elected_by_def run settled_def comm_online_peers_def)
  show "settled n (snd (broadcast_result stv sha e n))"
    unfolding run using u(2) broadcast_settled(2) by (rule settled_trans)
qed

lemma count_last_ballot:
  assumes "counting e N d n" "k \<notin> set (dkeys d)" "Suc (length d) = N"
    and "elect stv sha e (vs_peer_keys (dn_voting n)) (dvalues (d @ [(k, b)])) = Return r"
  shows "elected_by e r (snd (handle_vote stv sha (ballot_message e b) k n))"
    and "settled n (snd (handle_vote stv sha (ballot_message e b) k n))"
proof -
  have fresh: "dget d k = None" using assms(2) by (metis dict.keys_look)
  have entry: "entries (vs_ballots (add_ballot e k b (dn_voting n))) e = d @ [(k, b)]"
    using assms(1) fresh by (simp add: counting_def ballots_add_ballot entries_dput dput_fresh)
  have voted: "\<not> has_voted k e (dn_voting n)" using assms(1) fresh by (simp add: has_voted_entries counting_def)
  define m where "m = (cancel_timer (n\<lparr>dn_voting := add_ballot e k b (dn_voting n)\<rparr>))\<lparr>dn_pre_online := int N\<rparr>"
  have all: "consensus_amount (int N) (dn_voting n) \<le> int N" "int (length (d @ [(k, b)])) = int N"
    using assms(1,3) by (auto simp: counting_def consensus_amount_def)
  have run: "snd (handle_vote stv sha (ballot_message e b) k n) = snd (broadcast_result stv sha e m)"
    using assms(1) voted entry all
    by (simp add: run_handle_vote Let_def counting_def upcoming_def m_def consensus_amount_def)
  have m: "settled n m" "entries (vs_ballots (dn_voting m)) e = d @ [(k, b)]" "entries (vs_results (dn_voting m)) e = []"
      "vs_peer_keys (dn_voting m) = vs_peer_keys (dn_voting n)"
    using assms(1) entry by (auto simp: counting_def settled_def m_def cancel_timer_def)
  have "elected_by e r (snd (broadcast_result stv sha e m))" "settled m (snd (broadcast_result stv sha e m))"
    by (rule run_broadcast_result; simp add: m assms(4))+
  with m(1) show "elected_by e r (snd (handle_vote stv sha (ballot_message e b) k n))"
    "settled n (snd (handle_vote stv sha (ballot_message e b) k n))"
    unfolding run by (auto intro: settled_trans)
qed

text \<open>The ballots \<open>B\<close> of the members \<open>ks\<close>, as they arrive at a node.\<close>

definition ballots_of :: "(key \<Rightarrow> ballot) \<Rightarrow> key list \<Rightarrow> (key \<times> ballot) list" where
  "ballots_of B ks = map (\<lambda>k. (k, B k)) ks"

lemma ballots_of_keys [simp]: "dkeys (ballots_of B ks) = ks" "dvalues (ballots_of B ks) = map B ks" "length (ballots_of B ks) = length ks"
  by (simp_all add: ballots_of_def dkeys_def dvalues_def comp_def)

lemma dget_ballots_of [simp]: "dget (ballots_of B ks) k = (if k \<in> set ks then Some (B k) else None)"
  by (induction ks) (simp_all add: ballots_of_def dget_def)

text \<open>Ballots of members that are known change nothing.\<close>

lemma known_ballot: "has_voted k e (dn_voting n) \<Longrightarrow> handle_vote stv sha (ballot_message e b) k n = (Return (), n)"
  by (simp add: run_handle_vote)

lemma known_ballots:
  assumes "\<forall>k \<in> set ks. has_voted k e (dn_voting n)"
  shows "receive_ballots stv sha e (ballots_of B ks) n = n"
  using assms by (induction ks) (simp_all add: receive_ballots_def ballots_of_def known_ballot)

lemma voted_after:
  assumes "upcoming n = e" "has_voted j e (dn_voting n) \<or> j = k"
  shows "has_voted j e (dn_voting (snd (handle_vote stv sha (ballot_message e b) k n)))"
  using assms by (auto simp: ballots_after_vote has_voted_entries ballots_add_ballot entries_dput dict_simps upcoming_def)

lemma receive_ballots_elects:
  assumes "counting e N (ballots_of B js) n" "distinct js" "set (js @ ks) = M" "card M = N" "\<not> set ks \<subseteq> set js"
    and "\<And>is. distinct is \<Longrightarrow> set is = M \<Longrightarrow> elect stv sha e (vs_peer_keys (dn_voting n)) (map B is) = Return r"
  shows "elected_by e r (receive_ballots stv sha e (ballots_of B ks) n)
    \<and> settled n (receive_ballots stv sha e (ballots_of B ks) n)"
  using assms
proof (induction ks arbitrary: js n)
  case (Cons k ks)
  let ?t = "snd (handle_vote stv sha (ballot_message e (B k)) k n)"
  have step: "receive_ballots stv sha e (ballots_of B (k # ks)) n = receive_ballots stv sha e (ballots_of B ks) ?t"
    by (simp add: receive_ballots_def ballots_of_def)
  have voted: "has_voted j e (dn_voting n)" if "j \<in> set js" for j
    using that Cons.prems(1) by (simp add: has_voted_entries counting_def)
  consider (known) "k \<in> set js" | (last) "k \<notin> set js" "insert k (set js) = M" | (more) "k \<notin> set js" "insert k (set js) \<noteq> M"
    by blast
  then show ?case
  proof cases
    case known
    then have "?t = n" using voted by (simp add: known_ballot)
    then show ?thesis using Cons.IH [OF Cons.prems(1,2)] Cons.prems known step by (simp add: insert_absorb)
  next
    case last
    have "distinct (js @ [k])" "set (js @ [k]) = M" using last Cons.prems(2) by auto
    from Cons.prems(6) [OF this] Cons.prems(4) distinct_card [OF this(1)] this(2)
    have "elect stv sha e (vs_peer_keys (dn_voting n)) (dvalues (ballots_of B js @ [(k, B k)])) = Return r"
      and "Suc (length js) = N"
      by (auto simp: dvalues_def ballots_of_def comp_def)
    note fin = count_last_ballot [OF Cons.prems(1) _ _ this(1)]
    have "\<forall>j \<in> set ks. has_voted j e (dn_voting ?t)"
    proof
      fix j assume "j \<in> set ks"
      then have "j \<in> set js \<or> j = k" using Cons.prems(3) last(2) by auto
      then show "has_voted j e (dn_voting ?t)"
        using Cons.prems(1) voted by (intro voted_after) (auto simp: counting_def)
    qed
    then show ?thesis using fin last(1) \<open>Suc (length js) = N\<close> by (simp add: step known_ballots)
  next
    case more
    have "insert k (set js) \<subset> M" using more(2) Cons.prems(3) by auto
    then have "card (insert k (set js)) < N"
      using Cons.prems(3,4) by (metis List.finite_set psubset_card_mono)
    then have "Suc (length js) < N" using more(1) Cons.prems(2) by (simp add: distinct_card)
    then have t: "counting e N (ballots_of B (js @ [k])) ?t" "settled n ?t"
      using count_ballot [OF Cons.prems(1)] more(1) by (simp_all add: ballots_of_def) (simp add: dkeys_def)+
    have "elected_by e r (receive_ballots stv sha e (ballots_of B ks) ?t) \<and> settled ?t (receive_ballots stv sha e (ballots_of B ks) ?t)"
      using Cons.prems more t(2) by (intro Cons.IH [OF t(1)]) (auto simp: settled_def)
    then show ?thesis using t(2) settled_trans step by auto
  qed
qed simp

section \<open>The whole round\<close>

text \<open>A member that has voted for the coming epoch \<open>e\<close> and sees every other member online, while its
  own epoch is over; \<open>b\<close> is its ballot.\<close>

definition has_voted_only :: "key list \<Rightarrow> int \<Rightarrow> int \<Rightarrow> key \<Rightarrow> ballot \<Rightarrow> ddpoa_node \<Rightarrow> bool" where
  "has_voted_only members slots e k b n \<longleftrightarrow> counting e (length members) [(k, b)] n \<and> is_over (dn_epoch n)
     \<and> vs_key (dn_voting n) = k \<and> vs_peer_keys (dn_voting n) = members \<and> dn_num_slots n = slots"

lemma elected_by_starts:
  assumes "elected_by e r n" and "upcoming n = e" and "is_over (dn_epoch n)" and "vs_key (dn_voting n) = k"
    and "\<not> set js \<subseteq> {k}" "int (card (set (k # js))) = comm_online_peers (cn_comm n) + 1"
    and "vs_num_slots (dn_voting n) \<le> comm_online_peers (cn_comm n) + 1"
  shows "dn_epoch (receive_results e r js n) = set_candidates_and_witnesses r (Epoch_init e (dn_num_slots n))"
proof (rule receive_unanimous)
  show "unanimous e r [k] (dn_voting n)"
    using assms(1,4) by (simp add: unanimous_def elected_by_def dkeys_def dvalues_def)
qed (use assms in \<open>simp_all add: upcoming_def next_epoch_number_def\<close>)

text \<open>The poll over everybody's ballots gives one result, in whatever order the ballots came.\<close>

lemma everyone_elected:
  assumes "distinct members" "2 \<le> length members" "poll_ok stv members" "\<forall>k \<in> set members. mset (B k) = mset members"
  shows "\<exists>r. mset r = mset members \<and> elect stv sha e members (map B members) = Return r"
proof -
  obtain elected where "stv (length members) members (map B members) = Return elected" "distinct elected"
      "set elected \<subseteq> set members"
    using assms(2-4) unfolding poll_ok_def
    by (metis (no_types, lifting) in_set_conv_nth length_map list.size(3) not_numeral_le_zero nth_map nth_mem)
  moreover have "map B members \<noteq> []" "\<forall>b \<in> set (map B members). mset b = mset members" using assms(2,4) by auto
  ultimately show ?thesis using elect_everyone [OF assms(1)] by metis
qed

lemma elect_any_order:
  assumes "distinct is" "set is = set members"
    and "distinct members" "2 \<le> length members" "length members ^ 2 * 2 ^ (length members - 1) < 2 ^ 53"
    and "poll_ok stv members" "inj_on (\<lambda>k. concat_and_hash sha [PyStr k, PyInt e]) (set members)"
    and "\<forall>k \<in> set members. mset (B k) = mset members"
  shows "elect stv sha e members (map B members) = elect stv sha e members (map B is)"
proof (rule elect_agree)
  have "mset members = mset is" using assms(1-3) by (simp add: set_eq_iff_mset_eq_distinct)
  then show "mset (map B members) = mset (map B is)" by simp
  have "map B members \<noteq> []" "\<forall>b \<in> set (map B members). mset b = mset members" using assms(4,8) by auto
  with \<open>mset members = mset is\<close> show "stv (length members) members (map B members) = stv (length members) members (map B is)"
    using assms(6) unfolding poll_ok_def by (metis mset_map)
  show "length (map B members) * length members * 2 ^ (length members - 1) < 2 ^ 53"
    using assms(5) by (simp add: power2_eq_square)
  show "members \<noteq> []" "\<forall>b \<in> set (map B members). mset b = mset members"
    using assms(4,8) by auto
qed (rule assms(7))

text \<open>C7: an election succeeds: in a network of two or more members, few enough for the tie scores to be exact, whose
  keys the digest does not confuse, and with a poll that answers full rankings whatever their order, when every member has voted, sees the others online and its epoch is
  over, and then every member receives the ballots of the others, in any order and any number of times
  but each at least once, and after that their results, likewise, all members send one and the same
  result, which ranks all of them, and seat one and the same next epoch from it.\<close>

theorem election_round:
  assumes "distinct members" and "2 \<le> length members" and "length members ^ 2 * 2 ^ (length members - 1) < 2 ^ 53"
    and "poll_ok stv members" and "inj_on (\<lambda>k. concat_and_hash sha [PyStr k, PyInt e]) (set members)"
    and "\<forall>k \<in> set members. has_voted_only members slots e k (B k) (N k) \<and> mset (B k) = mset members"
    and "\<forall>k \<in> set members. set (k # ballot_order k) = set members \<and> set (k # result_order k) = set members"
  shows "\<exists>r. mset r = mset members \<and> (\<forall>k \<in> set members.
    (let counted = receive_ballots stv sha e (ballots_of B (ballot_order k)) (N k)
     in (\<exists>m \<in> outgoing counted. is_result e r m)
        \<and> dn_epoch (receive_results e r (result_order k) counted)
          = set_candidates_and_witnesses r (Epoch_init e slots)))"
proof -
  obtain r where r: "mset r = mset members" "elect stv sha e members (map B members) = Return r"
    using everyone_elected [OF assms(1,2,4)] assms(6) by blast
  have order: "elect stv sha e members (map B is) = Return r" if "distinct is" "set is = set members" for "is"
    using elect_any_order [OF that assms(1-5)] assms(6) r(2) by auto
  have "(\<exists>m \<in> outgoing counted. is_result e r m)
      \<and> dn_epoch (receive_results e r (result_order k) counted) = set_candidates_and_witnesses r (Epoch_init e slots)"
    if k: "k \<in> set members" and counted: "counted = receive_ballots stv sha e (ballots_of B (ballot_order k)) (N k)"
    for k counted
  proof -
    have n: "counting e (length members) (ballots_of B [k]) (N k)" "is_over (dn_epoch (N k))" "vs_key (dn_voting (N k)) = k"
        "vs_peer_keys (dn_voting (N k)) = members" "dn_num_slots (N k) = slots"
      using assms(6) k by (simp_all add: has_voted_only_def ballots_of_def)
    have "set members \<noteq> {k}" using assms(1,2) distinct_card by fastforce
    then have others: "\<not> set (ballot_order k) \<subseteq> set [k]" "\<not> set (result_order k) \<subseteq> {k}"
      using assms(7) k by auto
    have fin: "elected_by e r counted" "settled (N k) counted"
      using receive_ballots_elects [OF n(1) _ _ _ others(1), of "set members"] order assms(1,7) k n(4)
      by (auto simp: counted distinct_card)
    have c: "dn_epoch counted = dn_epoch (N k)" "comm_online_peers (cn_comm counted) + 1 = int (length members)"
        "vs_key (dn_voting counted) = k" "dn_num_slots counted = slots" "vs_num_slots (dn_voting counted) \<le> int (length members)"
        "upcoming counted = e"
      using fin(2) n by (simp_all add: settled_def counting_def comm_online_peers_def upcoming_def)
    have "dn_epoch (receive_results e r (result_order k) counted) = set_candidates_and_witnesses r (Epoch_init e (dn_num_slots counted))"
      using c n(2) others(2) assms(1,7) k
      by (intro elected_by_starts [OF fin(1), where k = k]) (auto simp: distinct_card)
    moreover have "\<exists>m \<in> outgoing counted. is_result e r m"
      using fin(1) c(2) assms(2) by (simp add: elected_by_def)
    ultimately show ?thesis by (simp add: c)
  qed
  with r(1) show ?thesis unfolding Let_def by blast
qed

lemma duo_ready: "has_voted_only [''a'', ''b''] 1 1 ''a'' [''b'', ''a''] (duo_voted ''a'' ''b'')"
  "has_voted_only [''a'', ''b''] 1 1 ''b'' [''b'', ''a''] (duo_voted ''b'' ''a'')"
  by code_simp+

theorem election_round_witness:
  "\<exists>r. mset r = {# ''a'', ''b'' #}
    \<and> dn_epoch (receive_results 1 r [''b'', ''b''] (receive_ballots first_round id 1 [(''b'', [''b'', ''a'']), (''b'', [''b'', ''a''])] (duo_voted ''a'' ''b'')))
      = dn_epoch (receive_results 1 r [''a'', ''a''] (receive_ballots first_round id 1 [(''a'', [''b'', ''a'']), (''a'', [''b'', ''a''])] (duo_voted ''b'' ''a'')))"
proof -
  let ?other = "\<lambda>k. if k = ''a'' then [''b'', ''b''] else [''a'', ''a'']"
  have inj: "inj_on (\<lambda>k. concat_and_hash id [PyStr k, PyInt 1]) (set [''a'', ''b''])"
    by (auto simp: inj_on_def concat_and_hash_concat)
  have poll: "poll_ok first_round [''a'', ''b'']" by (rule poll_ok_first_round) simp_all
  show ?thesis
    using election_round [of "[''a'', ''b'']" first_round id 1 1 "\<lambda>_. [''b'', ''a'']" "both duo_voted" ?other ?other] inj poll duo_ready
    by (auto simp: power2_eq_square ballots_of_def add_mset_commute insert_commute Let_def)
qed

end
