(* ===== verification/Network_Limits.thy ===== *)
theory Network_Limits
  imports Slot_Round Election_Round
begin

text \<open>
  Where the progress and the agreement of the engines end. A ballot is repeated only in the state
  ELECTION: after the end of an epoch without a result no engine sends anything any more, so that a
  lost ballot can stop the network for good. And a slot is given up by each engine's own clock, so
  that engines which hear of a block at different times can commit different blocks of one number.
\<close>

section \<open>An election that lost a ballot\<close>





section \<open>A slot that two engines see differently\<close>














text \<open>Two members and one slot: the block of the witness \<open>a\<close>, and the one of \<open>b\<close>, which follows on it much later.
  The clock of \<open>b\<close> leaps ahead of the one of \<open>a\<close>.\<close>

definition split_blocks :: "block list" where
  "split_blocks = [(test_block ''i'' ''h'' 1)\<lparr>b_signer_id := ''a'', b_payload := replicate 20 (CHR ''.'')\<rparr>,
     (test_block ''j'' ''h'' 1)\<lparr>b_signer_id := ''b'', b_payload := replicate 200 (CHR ''.'')\<rparr>]"

definition split_service :: service where
  "split_service = test_service\<lparr>sv_blocks := (\<lambda>_ is. Return (List.map (\<lambda>b. (b_block_id b, b)) split_blocks))\<rparr>"


abbreviation late_engine :: engine where
  "late_engine \<equiv> slot_engine split_service ''b'' 100"



section \<open>An election that is over too early\<close>

text \<open>A node that waits for the next epoch and has said all it will say: it is \<open>IDLE\<close>, has its own ballot in
  the tables, no timer is pending, and no message waits to be handled.\<close>

definition spent :: "ddpoa_node \<Rightarrow> bool" where
  "spent n \<longleftrightarrow> dn_state n = IDLE \<and> has_voted (cn_key n) (upcoming n) (dn_voting n)
     \<and> (case dn_broadcast_timer n of None \<Rightarrow> True | Some t \<Rightarrow> \<not> bt_pending t) \<and> cm_queue (cn_comm n) = []"

text \<open>So it is left by the end of an epoch without a result, which lasts no longer than its slots.\<close>

lemma epoch_end_spends:
  assumes "dn_state n \<noteq> CATCHING_UP" "has_voted (cn_key n) (upcoming n) (dn_voting n)" "cm_queue (cn_comm n) = []"
    and "case dn_broadcast_timer n of None \<Rightarrow> True | Some t \<Rightarrow> \<not> bt_pending t"
    and "ep_witnesses (dn_epoch n) \<noteq> []" "is_over (dn_epoch (slotted sha b n))" "dget (dn_ready_result n) (upcoming n) = None"
  shows "spent (snd (node_next_slot sha b n))"
proof -
  have "ep_number (dn_epoch (slotted sha b n)) = ep_number (dn_epoch n)" by (simp add: slotted_def increment_frame)
  then have "spent (finalize_epoch (slotted sha b n))"
    and "dget (dn_ready_result (finalize_epoch (slotted sha b n))) (upcoming n) = None"
    using assms
    by (auto simp: spent_def finalize_epoch_def move_state_def set_state_def slotted_def Let_def upcoming_def next_epoch_number_def
        dict_simps)
  then show ?thesis using assms(5,6) by (simp add: run_node_next_slot Let_def upcoming_def)
qed

definition hushed :: "ddpoa_node \<Rightarrow> ddpoa_node \<Rightarrow> bool" where
  "hushed n m \<longleftrightarrow> dn_state m = dn_state n \<and> dn_epoch m = dn_epoch n \<and> dn_voting m = dn_voting n
     \<and> dn_broadcast_timer m = dn_broadcast_timer n \<and> cn_key m = cn_key n
     \<and> cm_queue (cn_comm m) = cm_queue (cn_comm n) \<and> cm_outbox (cn_comm m) = cm_outbox (cn_comm n)"

interpretation hushed: state_preorder hushed
  by unfold_locales (auto simp: hushed_def)

lemma hushed_spent: "spent n \<Longrightarrow> hushed n m \<Longrightarrow> spent m"
  by (simp add: spent_def hushed_def upcoming_def)

lemma hushed_comm:
  assumes "\<And>c. cm_queue (snd (m c)) = cm_queue c \<and> cm_outbox (snd (m c)) = cm_outbox c"
  shows "keeps hushed (in_comm m)"
  using assms by (auto simp: keeps_def in_comm_def run_simps hushed_def split: prod.split) (metis snd_conv)+

lemma hushed_put_peer [simp]: "hushed n (put_peer k p n)"
  by (simp add: hushed_def put_peer_def)

lemma hushed_calls: "keeps hushed time_now" "keeps hushed online_peers" "keeps hushed (get_peer k)"
  "keeps hushed (send_ping k)" "keeps hushed (cn_peer_connected k ip)" "keeps hushed (in_comm (modify (timer_connect k)))"
proof -
  show "keeps hushed time_now" "keeps hushed online_peers" "keeps hushed (get_peer k)"
    by (simp_all add: keeps_def time_now_def run_online_peers get_peer_def run_simps hushed_def split: option.split)
  show "keeps hushed (send_ping k)" unfolding send_ping_def
    by (rule hushed_comm) (simp add: comm_ping_def ping_entry_def Let_def split: option.split prod.split)
  show "keeps hushed (in_comm (modify (timer_connect k)))"
    by (rule hushed_comm) (simp add: run_simps timer_connect_def set_peer_def split: option.split)
  show "keeps hushed (cn_peer_connected k ip)" unfolding cn_peer_connected_def
    by (rule hushed_comm) (simp add: comm_add_peer_def ping_entry_def set_peer_def run_simps Let_def split: option.split prod.split)
qed

lemma hushed_check_on_peers: "keeps hushed check_on_peers"
proof -
  have "keeps hushed (check_peer now k)" for now k
    unfolding check_peer_def
    by (intro hushed.all hushed.cond hushed.modify hushed_calls) (simp_all add: cn_remove_peer_def hushed.R_refl split: option.split)
  then show ?thesis unfolding check_on_peers_def
    by (intro hushed.all hushed.cond hushed.modify hushed_calls) (simp_all add: hushed_def)
qed

lemma hushed_vote_turn:
  assumes "spent n" shows "hushed n (snd (vote_turn n))"
proof -
  have voted: "has_voted (cn_key n) (next_epoch_number (dn_epoch n)) (dn_voting n)"
    using assms by (simp add: spent_def upcoming_def)
  have "fst (should_vote n) = Return False \<and> hushed n (snd (should_vote n))"
    using voted by (simp add: should_vote_def run_simps run_online_peers hushed_def)
  then obtain u where u: "should_vote n = (Return False, u)" "hushed n u" by (metis prod.collapse)
  then have "should_rebroadcast_ballot u = (Return False, u\<lparr>cn_tick := Suc (cn_tick u)\<rparr>)"
    using assms by (simp add: should_rebroadcast_ballot_def run_simps time_now_def spent_def hushed_def)
  then show ?thesis using u by (simp add: vote_turn_def run_simps hushed_def)
qed
text \<open>The same for an engine: nothing is sent, nothing is asked of the validator, and the head stays.\<close>

definition idle_kept :: "engine \<Rightarrow> engine \<Rightarrow> bool" where
  "idle_kept s t \<longleftrightarrow> hushed (en_node s) (en_node t) \<and> sv_log (en_service t) = sv_log (en_service s)
     \<and> en_pre_committed t = en_pre_committed s"

definition still :: "engine \<Rightarrow> engine \<Rightarrow> bool" where
  "still s t \<longleftrightarrow> (spent (en_node s) \<longrightarrow> idle_kept s t)"

interpretation still: state_preorder still
proof unfold_locales
  show "still s s" for s by (simp add: still_def idle_kept_def hushed.R_refl)
  show "still s t \<Longrightarrow> still t u \<Longrightarrow> still s u" for s t u
    unfolding still_def idle_kept_def by (metis hushed.R_trans hushed_spent)
qed

lemma still_spent: "still s t \<Longrightarrow> spent (en_node s) \<Longrightarrow> spent (en_node t)"
  by (auto simp: still_def idle_kept_def intro: hushed_spent)

lemma still_node: "keeps hushed m \<Longrightarrow> keeps still (in_node m)"
  by (rule keepsI) (auto simp: in_node_def run_simps still_def idle_kept_def split: prod.split dest: keeps_run)

lemma still_attrs: "still s (s\<lparr>en_loop_starting := b\<rparr>)" "still s (s\<lparr>en_loop_pre_request := r\<rparr>)"
  by (simp_all add: still_def idle_kept_def hushed.R_refl)

text \<open>Where an idle engine does nothing.\<close>

lemma still_idle:
  assumes "\<And>s. node_state_of s = IDLE \<Longrightarrow> snd (m s) = s"
  shows "keeps still m"
  using assms by (auto simp: keeps_def still_def idle_kept_def spent_def node_state_of_def hushed.R_refl)

lemma still_parts: "keeps still (produce L)" "keeps still retry_bootstrap" "keeps still vote_or_rebroadcast"
proof -
  show "keeps still (produce L)" "keeps still retry_bootstrap"
    by (rule still_idle, simp add: produce_def retry_bootstrap_def run_simps)+
  show "keeps still vote_or_rebroadcast"
    by (rule keepsI) (auto simp: vote_or_rebroadcast_turn in_node_def run_simps still_def idle_kept_def split: prod.split
        dest!: hushed_vote_turn)
qed

lemma still_active: "keeps still (active L)" "keeps still still_starting"
  unfolding active_def still_starting_def
  by (intro still.all still.cond still_parts still_node hushed_check_on_peers hushed_calls)+

text \<open>The events that can happen while nobody sends a message and no validator has a block to report: a poll of the
  queue that finds nothing or a change of the connections, the timers, and the end of an engine.\<close>

definition connection_update :: "update \<Rightarrow> bool" where
  "connection_update u \<longleftrightarrow> (case u of Peer_Connected _ \<Rightarrow> True | Peer_Disconnected _ \<Rightarrow> True | Unknown_Update \<Rightarrow> True | _ \<Rightarrow> False)"

definition lonely_event :: "engine_event \<Rightarrow> bool" where
  "lonely_event ev \<longleftrightarrow> (case ev of Iteration u \<Rightarrow> (case u of None \<Rightarrow> True | Some x \<Rightarrow> connection_update x)
     | Message_Arrives _ \<Rightarrow> False | _ \<Rightarrow> True)"

lemma still_update:
  assumes "connection_update u" shows "keeps still (handle_update L u)"
proof -
  have "keeps still (handle_peer_connected i)" for i
  proof -
    have greet: "keeps still (bindP (gets node_state_of) (\<lambda>st. whenP (st = WAITING_FOR_BOOTSTRAP) (in_node (send_bootstrap_request (hex i)))))"
      by (rule still_idle) (simp add: run_simps)
    have "handle_peer_connected i = thenP (bindP (gets node_state_of) (\<lambda>st. whenP (st = WAITING_FOR_BOOTSTRAP)
        (in_node (send_bootstrap_request (hex i))))) (bindP (gets (\<lambda>s. dget (en_ips s) (hex i))) (\<lambda>found.
        bindP (from_option KeyError found) (\<lambda>ip. in_node (cn_peer_connected (hex i) ip))))"
      by (rule ext) (simp add: handle_peer_connected_def run_simps)
    then show ?thesis by (simp only:) (rule still.seq [OF greet]; intro still.all still_node hushed_calls)
  qed
  then show ?thesis using assms
    by (cases u) (simp_all add: handle_update_def connection_update_def still.pure)
qed

lemma still_iteration:
  assumes "case u of None \<Rightarrow> True | Some x \<Rightarrow> connection_update x"
  shows "keeps still (iteration L u)"
proof -
  define rest where "rest = bindP (gets en_exit) (\<lambda>leave.
       if leave then ret False
       else bindP (gets en_loop_starting) (\<lambda>starting.
         if starting then
           bindP still_starting (\<lambda>b. thenP (modify (\<lambda>s. s\<lparr>en_loop_starting := b\<rparr>)) (ret True))
         else thenP (active L) (thenP retry_bootstrap (ret True))))"
  have rest: "keeps still rest" unfolding rest_def
    by (intro still.all still.cond still.modify still_active still_parts still_attrs)
  have recv: "keeps still (bindP (in_node node_recv) (\<lambda>received.
     thenP (case received of None \<Rightarrow> ret () | Some msg \<Rightarrow> handle_peer_msgs L msg) rest))" (is "keeps still ?m")
  proof (rule keepsI)
    fix s :: engine
    show "still s (snd (?m s))"
    proof (cases "spent (en_node s)")
      case True
      then have "?m s = rest s"
        by (simp add: run_simps in_node_def node_recv_def in_comm_def comm_recv_def spent_def)
      then show ?thesis using keepsD [OF rest] by simp
    qed (simp add: still_def)
  qed
  have "keeps still (case u of None \<Rightarrow> ret () | Some x \<Rightarrow> handle_update L x)"
    using assms by (cases u) (simp_all add: still.pure still_update)
  with recv have "keeps still (loop_body L u)" unfolding loop_body_def rest_def [symmetric] by (intro still.seq)
  then show ?thesis unfolding iteration_def by (intro still.all)
qed

lemma still_event:
  assumes "lonely_event ev" shows "still s (engine_step L ev s)"
proof -
  have node: "still s (node_event L c s)" if "spent (en_node s) \<Longrightarrow> hushed (en_node s) (node_step (lib_stv L) (lib_sha L) c (en_node s))" for c
    using that by (simp add: still_def idle_kept_def node_event_def)
  have timer: "timer_fires stv sha n = (Return (), n)" if "spent n" for stv sha n
    using that by (auto simp: timer_fires_def run_simps spent_def split: option.splits)
  show ?thesis
  proof (cases ev)
    case (Iteration u)
    then show ?thesis using keepsD [OF still_iteration] assms by (simp add: engine_step_def lonely_event_def)
  next
    case (Connect_Fires k)
    then show ?thesis using keepsD [OF hushed_calls(6)] by (simp add: engine_step_def node node_step_def)
  next
    case (Peer_Pinged k)
    then show ?thesis using keepsD [OF hushed_calls(4)] by (simp add: engine_step_def node node_step_def send_ping_def)
  next
    case Ballot_Timer
    then show ?thesis using timer by (simp add: engine_step_def node node_step_def hushed.R_refl)
  next
    case Stop
    then show ?thesis by (simp add: engine_step_def engine_stop_def still_def idle_kept_def hushed.R_refl)
  qed (use assms in \<open>simp add: lonely_event_def\<close>)
qed

text \<open>A network of engines, and the events at each of them in the order in which they happen.\<close>

definition network_run :: "libs \<Rightarrow> (key \<times> engine_event) list \<Rightarrow> (key \<Rightarrow> engine) \<Rightarrow> key \<Rightarrow> engine" where
  "network_run L evs N = fold (\<lambda>(k, ev) M. M(k := engine_step L ev (M k))) evs N"

lemma network_still:
  assumes "\<forall>(k, ev) \<in> set evs. lonely_event ev"
  shows "still (N k) (network_run L evs N k)"
  using assms
proof (induction evs arbitrary: N)
  case (Cons e evs)
  obtain j ev where e: "e = (j, ev)" by (cases e)
  define M where "M = N(j := engine_step L ev (N j))"
  have "still (N k) (M k)"
    using Cons.prems still_event [of ev "N j" L] by (cases "k = j") (simp_all add: M_def e still.R_refl)
  moreover have "still (M k) (network_run L evs M k)" using Cons.prems by (intro Cons.IH) simp
  ultimately have "still (N k) (network_run L evs M k)" by (rule still.R_trans)
  then show ?case by (simp add: network_run_def e M_def)
qed (simp add: network_run_def still.R_refl)

text \<open>C22: a network can stall for good: when every engine's epoch is over without a result, its own ballot is cast,
  no timer is pending and no message is on its way, then whatever happens among them without a message or a
  block -- polls of the queues, changes of the connections, timers, pings, the end of engines, in any order and
  number, at whatever time -- no engine ever sends a message or asks its validator for anything again, and every
  head, epoch and \<open>IDLE\<close> state stays. A ballot or a result that was lost by then is repeated by nobody.\<close>

theorem idle_network_stalls:
  fixes L :: libs and N :: "key \<Rightarrow> engine" and evs :: "(key \<times> engine_event) list"
  assumes "\<forall>k. spent (en_node (N k))" and "\<forall>(k, ev) \<in> set evs. lonely_event ev"
  defines "M \<equiv> network_run L evs N"
  shows "node_state_of (M k) = IDLE \<and> dn_epoch (en_node (M k)) = dn_epoch (en_node (N k))
    \<and> outgoing (en_node (M k)) = outgoing (en_node (N k)) \<and> sv_log (en_service (M k)) = sv_log (en_service (N k))
    \<and> en_pre_committed (M k) = en_pre_committed (N k)"
proof -
  have "still (N k) (M k)" unfolding M_def by (rule network_still [OF assms(2)])
  then show ?thesis
    using assms(1) by (auto simp: still_def idle_kept_def hushed_def spent_def node_state_of_def outgoing_def)
qed

text \<open>Two members that voted for the second epoch and lost each other's ballots, after the last slot of the first one.\<close>

definition last_slot_over :: "engine \<Rightarrow> engine" where
  "last_slot_over s = s\<lparr>en_node := snd (node_next_slot id ''i'' ((en_node s)\<lparr>dn_state := ELECTION,
     dn_epoch := (dn_epoch (en_node s))\<lparr>ep_witness_idx := 2\<rparr>,
     dn_voting := add_ballot 2 (cn_key (en_node s)) [hex ''a'', hex ''b''] (dn_voting (en_node s))\<rparr>))\<rparr>"

definition deaf_pair :: "key \<Rightarrow> engine" where
  "deaf_pair k = last_slot_over (slot_engine split_service (if k = hex ''a'' then ''a'' else ''b'') 100)"

theorem idle_network_stalls_witness:
  "node_state_of (network_run ring_libs [(hex ''a'', Iteration None), (hex ''b'', Ballot_Timer), (hex ''a'', Iteration None)] deaf_pair (hex ''a'')) = IDLE"
proof -
  have "spent (en_node (last_slot_over (slot_engine split_service ''a'' 100)))" "spent (en_node (last_slot_over late_engine))"
    by code_simp+
  then have "\<forall>k. spent (en_node (deaf_pair k))" by (simp add: deaf_pair_def)
  then show ?thesis using idle_network_stalls [where N = deaf_pair] by (simp add: lonely_event_def)
qed

end
