(* ===== verification/Rpc.thy ===== *)
theory Rpc
  imports Messaging
begin

text \<open>
  The wiring of the overlay: \<open>service_pb2_grpc.py\<close> (stub, servicer and registration), \<open>ConsensusRPC\<close> and
  \<open>Communicator.server\<close> of \<open>engine/consensus_messaging.py\<close>. Protobuf's serialisers and parsers are
  parameters, and so is what carries a call from a channel to a server (\<open>transport\<close>); what gRPC documents
  of it is the hypothesis \<open>grpc_delivers\<close>. What is shown is that
  the calls of \<open>Peer\<close>, run through stub and server, are what Messaging takes them for.
\<close>

section \<open>Messages on the wire\<close>

text \<open>The message \<open>Empty\<close>, with its only field.\<close>

record empty_message =
  em_field :: bool

definition Empty :: empty_message where
  "Empty = \<lparr>em_field = False\<rparr>"

text \<open>An object that a method returns, of either class: Python does not check it against the declaration.\<close>

datatype reply = Empty_Reply empty_message | Message_Reply consensus_message

text \<open>\<open>SerializeToString\<close>, taken from a class and applied to an object, and \<open>FromString\<close>.\<close>

record protobuf =
  pb_empty_bytes :: "reply \<Rightarrow> bytes outcome"
  pb_empty_parse :: "bytes \<Rightarrow> empty_message outcome"
  pb_message_bytes :: "reply \<Rightarrow> bytes outcome"
  pb_message_parse :: "bytes \<Rightarrow> consensus_message outcome"

section \<open>Servicers\<close>

text \<open>The context of a call, and the state that a method of a servicer works on.\<close>

record rpc_context =
  cx_code :: "string option"
  cx_details :: "string option"

type_synonym 'a remote = "(communicator \<times> rpc_context, 'a) py"

record servicer =
  sr_Ping :: "empty_message \<Rightarrow> reply remote"
  sr_Message :: "consensus_message \<Rightarrow> reply remote"

definition unimplemented :: "reply remote" where
  "unimplemented = thenP (modify (\<lambda>(c, x). (c, x\<lparr>cx_code := Some ''UNIMPLEMENTED'', cx_details := Some ''Method not implemented!''\<rparr>)))
     (raise NotImplementedError)"

definition ConsensusRPCServicer :: servicer where
  "ConsensusRPCServicer = \<lparr>sr_Ping = (\<lambda>_. unimplemented), sr_Message = (\<lambda>_. unimplemented)\<rparr>"

text \<open>The engine's servicer, whose queue is that of its communicator.\<close>

definition ConsensusRPC :: servicer where
  "ConsensusRPC = ConsensusRPCServicer
     \<lparr>sr_Message := (\<lambda>request. thenP (modify (\<lambda>(c, x). (rpc_Message request c, x))) (ret (Empty_Reply Empty))),
      sr_Ping := (\<lambda>request. ret (Empty_Reply Empty))\<rparr>"

section \<open>Registration\<close>

text \<open>A method with the parser of its requests and the serialiser of its replies.\<close>

datatype method_handler =
    Ping_Handler "empty_message \<Rightarrow> reply remote" "bytes \<Rightarrow> empty_message outcome" "reply \<Rightarrow> bytes outcome"
  | Message_Handler "consensus_message \<Rightarrow> reply remote" "bytes \<Rightarrow> consensus_message outcome" "reply \<Rightarrow> bytes outcome"

record grpc_server =
  gs_handlers :: "(string \<times> (string, method_handler) dict) list"
  gs_ports :: "string list"
  gs_running :: bool

definition add_ConsensusRPCServicer_to_server :: "protobuf \<Rightarrow> servicer \<Rightarrow> grpc_server \<Rightarrow> grpc_server" where
  "add_ConsensusRPCServicer_to_server pb sr g = g\<lparr>gs_handlers := gs_handlers g @ [(''sawtooth_ddpoa.ConsensusRPC'',
     [(''Ping'', Ping_Handler (sr_Ping sr) (pb_empty_parse pb) (pb_message_bytes pb)),
      (''Message'', Message_Handler (sr_Message sr) (pb_message_parse pb) (pb_empty_bytes pb))])]\<rparr>"

text \<open>\<open>Communicator.server\<close>, up to \<open>wait_for_termination\<close>.\<close>

definition comm_server :: "protobuf \<Rightarrow> grpc_server" where
  "comm_server pb =
     (let server = add_ConsensusRPCServicer_to_server pb ConsensusRPC \<lparr>gs_handlers = [], gs_ports = [], gs_running = False\<rparr>
      in server\<lparr>gs_ports := gs_ports server @ [''[::]:50051''], gs_running := True\<rparr>)"

section \<open>Stubs\<close>

text \<open>What \<open>channel.unary_unary\<close> is given: path, serialiser of the request, parser of the reply.\<close>

record ('q, 'r) rpc_callable =
  rc_path :: string
  rc_serializer :: "'q \<Rightarrow> bytes outcome"
  rc_deserializer :: "bytes \<Rightarrow> 'r outcome"

record stub =
  st_Ping :: "(empty_message, consensus_message) rpc_callable"
  st_Message :: "(consensus_message, empty_message) rpc_callable"

definition ConsensusRPCStub :: "protobuf \<Rightarrow> stub" where
  "ConsensusRPCStub pb =
     \<lparr>st_Ping = \<lparr>rc_path = ''/sawtooth_ddpoa.ConsensusRPC/Ping'', rc_serializer = (\<lambda>m. pb_empty_bytes pb (Empty_Reply m)),
        rc_deserializer = pb_message_parse pb\<rparr>,
      st_Message = \<lparr>rc_path = ''/sawtooth_ddpoa.ConsensusRPC/Message'', rc_serializer = (\<lambda>m. pb_message_bytes pb (Message_Reply m)),
        rc_deserializer = pb_empty_parse pb\<rparr>\<rparr>"

text \<open>The static methods of the experimental class \<open>ConsensusRPC\<close> hand the same to \<open>grpc.experimental\<close>, with a target.\<close>

definition experimental_Ping :: "protobuf \<Rightarrow> (empty_message, consensus_message) rpc_callable" where
  "experimental_Ping pb = \<lparr>rc_path = ''/sawtooth_ddpoa.ConsensusRPC/Ping'',
     rc_serializer = (\<lambda>m. pb_empty_bytes pb (Empty_Reply m)), rc_deserializer = pb_message_parse pb\<rparr>"

definition experimental_Message :: "protobuf \<Rightarrow> (consensus_message, empty_message) rpc_callable" where
  "experimental_Message pb = \<lparr>rc_path = ''/sawtooth_ddpoa.ConsensusRPC/Message'',
     rc_serializer = (\<lambda>m. pb_message_bytes pb (Message_Reply m)), rc_deserializer = pb_empty_parse pb\<rparr>"

section \<open>Calls\<close>

text \<open>A callable of a stub serialises the request, lets the channel carry it to the method of the path, and parses
  the reply. The channel is a parameter.\<close>

type_synonym transport = "grpc_server \<Rightarrow> string \<Rightarrow> bytes \<Rightarrow> bytes remote"

definition rpc_call :: "transport \<Rightarrow> grpc_server \<Rightarrow> ('q, 'r) rpc_callable \<Rightarrow> 'q \<Rightarrow> 'r remote" where
  "rpc_call tr g f q =
     bindP (from_outcome (rc_serializer f q)) (\<lambda>data.
     bindP (tr g (rc_path f) data) (\<lambda>reply. from_outcome (rc_deserializer f reply)))"

section \<open>The calls of a peer\<close>

text \<open>\<open>Peer.ping\<close> and \<open>Peer.send\<close>, on the peer and on the state of the remote end. Without a stub the
  attribute is missing.\<close>

definition wire_ping :: "protobuf \<Rightarrow> transport \<Rightarrow> grpc_server \<Rightarrow> peer \<Rightarrow> (bool \<times> peer) remote" where
  "wire_ping pb tr g p =
     try_except
       (bindP (if pr_stub p then rpc_call tr g (st_Ping (ConsensusRPCStub pb)) Empty else raise AttributeError)
          (\<lambda>_. ret (True, p\<lparr>pr_connected := True\<rparr>)))
       (\<lambda>_. True) (\<lambda>_. ret (False, p\<lparr>pr_connected := False\<rparr>))"

definition wire_send :: "protobuf \<Rightarrow> transport \<Rightarrow> grpc_server \<Rightarrow> peer \<Rightarrow> consensus_message \<Rightarrow> unit remote" where
  "wire_send pb tr g p m =
     whenP (pr_connected p)
       (try_except (bindP (rpc_call tr g (st_Message (ConsensusRPCStub pb)) m) (\<lambda>_. ret ()))
         (\<lambda>_. True) (\<lambda>_. ret ()))"

section \<open>What gRPC documents\<close>

text \<open>The request goes to the method that is registered under the path \<open>/service/method\<close> of a running server,
  and its reply back. The link may lose the request or the reply; then, and when the method is missing or
  raises, the client sees an \<open>RpcError\<close>.\<close>

datatype link = Up | Request_Lost | Reply_Lost

fun find_method :: "(string \<times> (string, method_handler) dict) list \<Rightarrow> string \<Rightarrow> method_handler option" where
  "find_method [] path = None"
| "find_method ((service, methods) # gs) path =
     (case find (\<lambda>(name, h). path = ''/'' @ service @ ''/'' @ name) methods of
        Some (name, h) \<Rightarrow> Some h | None \<Rightarrow> find_method gs path)"

definition serve :: "method_handler \<Rightarrow> bytes \<Rightarrow> bytes remote" where
  "serve h data =
     (case h of
        Ping_Handler f parse ser \<Rightarrow> bindP (from_outcome (parse data)) (\<lambda>q. bindP (f q) (\<lambda>r. from_outcome (ser r)))
      | Message_Handler f parse ser \<Rightarrow> bindP (from_outcome (parse data)) (\<lambda>q. bindP (f q) (\<lambda>r. from_outcome (ser r))))"

definition grpc_call :: "link \<Rightarrow> transport" where
  "grpc_call link g path data =
     (if link = Request_Lost \<or> \<not> gs_running g then raise RpcError
      else case find_method (gs_handlers g) path of
        None \<Rightarrow> raise RpcError
      | Some h \<Rightarrow> bindP (try_except (serve h data) (\<lambda>_. True) (\<lambda>_. raise RpcError))
          (\<lambda>reply. if link = Reply_Lost then raise RpcError else ret reply))"

definition grpc_delivers :: "link \<Rightarrow> transport \<Rightarrow> bool" where
  "grpc_delivers link tr \<longleftrightarrow> (\<forall>g path data s. tr g path data s = grpc_call link g path data s)"

section \<open>Facts\<close>

text \<open>The two paths of the stub lead to the two methods of the engine's servicer.\<close>

lemma server_methods:
  "find_method (gs_handlers (comm_server pb)) ''/sawtooth_ddpoa.ConsensusRPC/Ping''
    = Some (Ping_Handler (\<lambda>_. ret (Empty_Reply Empty)) (pb_empty_parse pb) (pb_message_bytes pb))"
  "find_method (gs_handlers (comm_server pb)) ''/sawtooth_ddpoa.ConsensusRPC/Message''
    = Some (Message_Handler (\<lambda>q. thenP (modify (\<lambda>(c, x). (rpc_Message q c, x))) (ret (Empty_Reply Empty)))
        (pb_message_parse pb) (pb_empty_bytes pb))"
  "gs_running (comm_server pb)"
  by (simp_all add: comm_server_def add_ConsensusRPCServicer_to_server_def ConsensusRPC_def ConsensusRPCServicer_def)

text \<open>A server with the generated base class answers no ping: its methods raise.\<close>

lemma base_servicer_silent:
  assumes "grpc_delivers link tr"
  shows "fst (wire_ping pb tr (add_ConsensusRPCServicer_to_server pb ConsensusRPCServicer
      \<lparr>gs_handlers = [], gs_ports = [], gs_running = True\<rparr>) p s) \<noteq> Return (True, q)"
  using assms
  by (cases s)
    (auto simp: grpc_delivers_def grpc_call_def wire_ping_def rpc_call_def serve_def add_ConsensusRPCServicer_to_server_def ConsensusRPCServicer_def
      unimplemented_def ConsensusRPCStub_def run_simps split: outcome.splits)

section \<open>Properties\<close>

text \<open>C15: the overlay refines the oracle of the model: run through stub, wire and registered server on a remote
  engine, \<open>Peer.ping\<close> answers exactly as \<open>peer_ping\<close> with the link being up, and touches nothing of the
  remote engine, although its servicer returns an \<open>Empty\<close> where the protocol declares a
  \<open>ConsensusMessage\<close>; and \<open>Peer.send\<close> never raises and puts the very message into the remote queue
  exactly when the peer is connected and the request is not lost (a lost reply changes nothing).\<close>

theorem rpc_refines_oracle:
  assumes "pb_empty_bytes pb (Empty_Reply Empty) = Return e" and "pb_empty_parse pb e = Return Empty"
    and "pb_message_bytes pb (Empty_Reply Empty) = Return d" and "pb_message_parse pb d = Return any"
    and "pb_message_bytes pb (Message_Reply m) = Return w" and "pb_message_parse pb w = Return m"
    and "grpc_delivers link tr"
  shows "wire_ping pb tr (comm_server pb) p (c, x) = (Return (peer_ping (link = Up) p), (c, x))
    \<and> wire_send pb tr (comm_server pb) p m (c, x)
      = (Return (), (if pr_connected p \<and> link \<noteq> Request_Lost then rpc_Message m c else c, x))"
proof
  show "wire_ping pb tr (comm_server pb) p (c, x) = (Return (peer_ping (link = Up) p), (c, x))"
    using assms(1-4,7)
    by (cases link) (simp_all add: grpc_delivers_def grpc_call_def wire_ping_def rpc_call_def ConsensusRPCStub_def server_methods serve_def run_simps peer_ping_def)
  show "wire_send pb tr (comm_server pb) p m (c, x)
      = (Return (), (if pr_connected p \<and> link \<noteq> Request_Lost then rpc_Message m c else c, x))"
    using assms(1,2,5-7)
    by (cases link) (simp_all add: grpc_delivers_def grpc_call_def wire_send_def rpc_call_def ConsensusRPCStub_def server_methods serve_def run_simps)
qed

text \<open>A codec that is good enough for messages with nothing but a signer.\<close>

definition signer_codec :: protobuf where
  "signer_codec = \<lparr>pb_empty_bytes = (\<lambda>_. Return []), pb_empty_parse = (\<lambda>_. Return Empty),
     pb_message_bytes = (\<lambda>r. case r of Empty_Reply _ \<Rightarrow> Return [] | Message_Reply m \<Rightarrow> Return (msg_signer m)),
     pb_message_parse = (\<lambda>s. Return ((ConsensusMessage VOTE)\<lparr>msg_signer := s\<rparr>))\<rparr>"

theorem rpc_refines_oracle_witness:
  "cm_queue (fst (snd (wire_send signer_codec (grpc_call Reply_Lost) (comm_server signer_codec) \<lparr>pr_ip = ''x'', pr_stub = True, pr_connected = True\<rparr>
     ((ConsensusMessage VOTE)\<lparr>msg_signer := ''k''\<rparr>)
     (Communicator_init (\<lambda>_ _. True), \<lparr>cx_code = None, cx_details = None\<rparr>)))) = [(ConsensusMessage VOTE)\<lparr>msg_signer := ''k''\<rparr>]"
proof -
  have codec: "pb_empty_bytes signer_codec (Empty_Reply Empty) = Return []" "pb_empty_parse signer_codec [] = Return Empty"
    "pb_message_bytes signer_codec (Empty_Reply Empty) = Return []"
    "pb_message_parse signer_codec [] = Return ((ConsensusMessage VOTE)\<lparr>msg_signer := []\<rparr>)"
    "pb_message_bytes signer_codec (Message_Reply ((ConsensusMessage VOTE)\<lparr>msg_signer := ''k''\<rparr>)) = Return ''k''"
    "pb_message_parse signer_codec ''k'' = Return ((ConsensusMessage VOTE)\<lparr>msg_signer := ''k''\<rparr>)"
    by (simp_all add: signer_codec_def ConsensusMessage_def)
  have "grpc_delivers Reply_Lost (grpc_call Reply_Lost)" by (simp add: grpc_delivers_def)
  from rpc_refines_oracle [OF codec this] show ?thesis by (simp add: rpc_Message_def Communicator_init_def)
qed

end
