(* ===== verification/Json.thy ===== *)
theory Json
  imports Py_Prelude
begin

text \<open>
  The two functions of Python's standard library that decode the on-chain settings: \<open>json.loads\<close>
  and \<open>int\<close>, on texts of characters below 256. A decoded string is the list of its code points, as
  a \<open>\u\<close> escape may name one that is no \<open>char\<close>; a number with a fraction or an exponent stays the
  text that \<open>float\<close> gets. The recursion limit of the interpreter is not modelled.
\<close>

section \<open>Scanning\<close>

definition next_is :: "char \<Rightarrow> string \<Rightarrow> bool" where
  "next_is c s \<longleftrightarrow> s \<noteq> [] \<and> hd s = c"

definition is_ws :: "char \<Rightarrow> bool" where
  "is_ws c \<longleftrightarrow> c \<in> {CHR '' '', CHR 0x09, CHR 0x0A, CHR 0x0D}"

definition skip_ws :: "string \<Rightarrow> string" where
  "skip_ws = dropWhile is_ws"

definition is_digit :: "char \<Rightarrow> bool" where
  "is_digit c \<longleftrightarrow> 48 \<le> (of_char c :: nat) \<and> (of_char c :: nat) \<le> 57"

definition digit_value :: "char \<Rightarrow> nat" where
  "digit_value c = of_char c - 48"

definition number_value :: "string \<Rightarrow> nat" where
  "number_value ds = fold (\<lambda>c acc. 10 * acc + digit_value c) ds 0"

definition hex_value :: "char \<Rightarrow> nat option" where
  "hex_value c =
     (let n = of_char c in
      if 48 \<le> n \<and> n \<le> 57 then Some (n - 48)
      else if 65 \<le> n \<and> n \<le> 70 then Some (n - 55)
      else if 97 \<le> n \<and> n \<le> 102 then Some (n - 87)
      else None)"

text \<open>The four hexadecimal digits of a \<open>\u\<close> escape.\<close>

definition hex4 :: "string \<Rightarrow> nat option" where
  "hex4 s =
     (if length s < 4 then None
      else fold (\<lambda>c acc. Option.bind acc (\<lambda>n. map_option (\<lambda>d. 16 * n + d) (hex_value c))) (take 4 s) (Some 0))"

definition low_surrogate :: "string \<Rightarrow> nat option" where
  "low_surrogate s =
     (if take 2 s = [CHR 0x5C, CHR ''u''] then
        (case hex4 (drop 2 s) of
           Some n \<Rightarrow> if 56320 \<le> n \<and> n \<le> 57343 then Some n else None
         | None \<Rightarrow> None)
      else None)"

definition simple_escape :: "char \<Rightarrow> nat option" where
  "simple_escape c =
     (if c \<in> {CHR 0x22, CHR 0x5C, CHR ''/''} then Some (of_char c)
      else if c = CHR ''b'' then Some 8 else if c = CHR ''f'' then Some 12
      else if c = CHR ''n'' then Some 10 else if c = CHR ''r'' then Some 13
      else if c = CHR ''t'' then Some 9 else None)"

definition prepend :: "'a \<Rightarrow> ('a list \<times> 'b) option \<Rightarrow> ('a list \<times> 'b) option" where
  "prepend x = map_option (\<lambda>(xs, r). (x # xs, r))"

text \<open>A string after its opening quote, up to the closing one; control characters are refused.\<close>

function scan_string :: "string \<Rightarrow> (nat list \<times> string) option" where
  "scan_string s =
     (case s of
        [] \<Rightarrow> None
      | c # cs \<Rightarrow>
          if c = CHR 0x22 then Some ([], cs)
          else if c = CHR 0x5C then
            (case cs of
               [] \<Rightarrow> None
             | e # r \<Rightarrow>
                 if e = CHR ''u'' then
                   (case hex4 r of
                      None \<Rightarrow> None
                    | Some n \<Rightarrow>
                        (case (if 55296 \<le> n \<and> n \<le> 56319 then low_surrogate (drop 4 r) else None) of
                           Some m \<Rightarrow> prepend (65536 + (n - 55296) * 1024 + (m - 56320)) (scan_string (drop 10 r))
                         | None \<Rightarrow> prepend n (scan_string (drop 4 r))))
                 else (case simple_escape e of None \<Rightarrow> None | Some n \<Rightarrow> prepend n (scan_string r)))
          else if (of_char c :: nat) < 32 then None
          else prepend (of_char c) (scan_string cs))"
  by pat_completeness auto
termination by (relation "measure length") auto

declare scan_string.simps [simp del]

section \<open>\<open>json.loads\<close>\<close>

datatype json = JNull | JBool bool | JInt int | JFloat string | JString "nat list"
  | JArray "json list" | JObject "(nat list \<times> json) list"

text \<open>\<open>-?(0|[1-9][0-9]*)\<close>, \<open>(.[0-9]+)?\<close> and \<open>([eE][-+]?[0-9]+)?\<close>, each with the rest of the text.\<close>

definition int_part :: "string \<Rightarrow> (string \<times> string) option" where
  "int_part s =
     (let sign = takeWhile (\<lambda>c. c = CHR ''-'') (take 1 s); r = drop (length sign) s in
      if next_is (CHR ''0'') r then Some (sign @ ''0'', tl r)
      else if r \<noteq> [] \<and> is_digit (hd r) then Some (sign @ takeWhile is_digit r, dropWhile is_digit r)
      else None)"

definition frac_part :: "string \<Rightarrow> string \<times> string" where
  "frac_part s =
     (let ds = takeWhile is_digit (tl s) in
      if next_is (CHR ''.'') s \<and> ds \<noteq> [] then (CHR ''.'' # ds, dropWhile is_digit (tl s)) else ([], s))"

definition exp_part :: "string \<Rightarrow> string \<times> string" where
  "exp_part s =
     (let sign = takeWhile (\<lambda>c. c = CHR ''-'' \<or> c = CHR ''+'') (take 1 (tl s)); r = drop (length sign) (tl s);
          ds = takeWhile is_digit r in
      if (next_is (CHR ''e'') s \<or> next_is (CHR ''E'') s) \<and> ds \<noteq> [] then (hd s # sign @ ds, dropWhile is_digit r)
      else ([], s))"

definition signed_value :: "string \<Rightarrow> int" where
  "signed_value t = (if next_is (CHR ''-'') t then - int (number_value (tl t)) else int (number_value t))"

definition json_number :: "string \<Rightarrow> (json \<times> string) option" where
  "json_number s =
     (case int_part s of
        None \<Rightarrow> None
      | Some (i, r) \<Rightarrow>
          (case frac_part r of (f, r) \<Rightarrow> (case exp_part r of (e, r) \<Rightarrow>
             Some (if f = [] \<and> e = [] then JInt (signed_value i) else JFloat (i @ f @ e), r))))"

definition json_words :: "(string \<times> json) list" where
  "json_words = [(''null'', JNull), (''true'', JBool True), (''false'', JBool False), (''NaN'', JFloat ''NaN''),
     (''Infinity'', JFloat ''Infinity''), (''-Infinity'', JFloat ''-Infinity'')]"

definition json_atom :: "string \<Rightarrow> (json \<times> string) option" where
  "json_atom s =
     (case find (\<lambda>(w, v). take (length w) s = w) json_words of
        Some (w, v) \<Rightarrow> Some (v, drop (length w) s)
      | None \<Rightarrow> json_number s)"

text \<open>
  \<open>scan_once\<close> with the array and object loops it calls. The first argument is fuel: \<open>json_fuel\<close> shows that
  \<open>2 * length s + 1\<close> is enough, the results no longer depend on it. In an object a later key replaces
  the value of an equal earlier one.
\<close>

fun json_value :: "nat \<Rightarrow> string \<Rightarrow> (json \<times> string) option"
  and json_items :: "nat \<Rightarrow> string \<Rightarrow> (json list \<times> string) option"
  and json_pairs :: "nat \<Rightarrow> string \<Rightarrow> ((nat list \<times> json) list \<times> string) option" where
  "json_value 0 s = None"
| "json_value (Suc n) s =
     (if next_is (CHR 0x22) s then map_option (\<lambda>(t, r). (JString t, r)) (scan_string (tl s))
      else if next_is (CHR ''['') s then
        (let r = skip_ws (tl s) in
         if next_is (CHR '']'') r then Some (JArray [], tl r)
         else map_option (\<lambda>(vs, r). (JArray vs, r)) (json_items n r))
      else if next_is (CHR ''{'') s then
        (let r = skip_ws (tl s) in
         if next_is (CHR ''}'') r then Some (JObject [], tl r)
         else map_option (\<lambda>(ps, r). (JObject (fold (\<lambda>(k, v). dput k v) ps []), r)) (json_pairs n r))
      else json_atom s)"
| "json_items 0 s = None"
| "json_items (Suc n) s =
     Option.bind (json_value n s) (\<lambda>(v, r).
       let r = skip_ws r in
       if next_is (CHR '','') r then prepend v (json_items n (skip_ws (tl r)))
       else if next_is (CHR '']'') r then Some ([v], tl r)
       else None)"
| "json_pairs 0 s = None"
| "json_pairs (Suc n) s =
     (if next_is (CHR 0x22) s then
        Option.bind (scan_string (tl s)) (\<lambda>(k, r).
          let r = skip_ws r in
          if next_is (CHR '':'') r then
            Option.bind (json_value n (skip_ws (tl r))) (\<lambda>(v, r).
              let r = skip_ws r in
              if next_is (CHR '','') r then prepend (k, v) (json_pairs n (skip_ws (tl r)))
              else if next_is (CHR ''}'') r then Some ([(k, v)], tl r)
              else None)
          else None)
      else None)"

definition json_loads :: "string \<Rightarrow> json option" where
  "json_loads s =
     (case json_value (2 * length s + 1) (skip_ws s) of
        Some (v, r) \<Rightarrow> if skip_ws r = [] then Some v else None
      | None \<Rightarrow> None)"

section \<open>\<open>int\<close>\<close>

definition is_space :: "char \<Rightarrow> bool" where
  "is_space c \<longleftrightarrow>
     (let n = (of_char c :: nat) in (9 \<le> n \<and> n \<le> 13) \<or> (28 \<le> n \<and> n \<le> 32) \<or> n = 133 \<or> n = 160)"

definition strip :: "string \<Rightarrow> string" where
  "strip s = rev (dropWhile is_space (rev (dropWhile is_space s)))"

text \<open>Digits with single underscores between them; the flag tells that the last character was a digit.\<close>

fun int_digits :: "bool \<Rightarrow> nat \<Rightarrow> string \<Rightarrow> nat option" where
  "int_digits after acc [] = (if after then Some acc else None)"
| "int_digits after acc (c # cs) =
     (if is_digit c then int_digits True (10 * acc + digit_value c) cs
      else if c = CHR ''_'' \<and> after then int_digits False acc cs
      else None)"

definition py_int :: "string \<Rightarrow> int option" where
  "py_int s =
     (let t = strip s in
      if next_is (CHR ''-'') t then map_option (\<lambda>n. - int n) (int_digits False 0 (tl t))
      else if next_is (CHR ''+'') t then map_option int (int_digits False 0 (tl t))
      else map_option int (int_digits False 0 t))"

text \<open>\<open>replace("'", '"')\<close>\<close>

definition requote :: "string \<Rightarrow> string" where
  "requote = List.map (\<lambda>c. if c = CHR 0x27 then CHR 0x22 else c)"

section \<open>Writing\<close>

text \<open>
  The other end: the list that the deployment writes into a setting (\<open>testing/compose_writer.py\<close>, after
  the shell has replaced the variables and removed the backslashes), with its quote and its separator.
\<close>

definition quoted :: "char \<Rightarrow> string \<Rightarrow> string" where
  "quoted q x = q # x @ [q]"

fun separated :: "string \<Rightarrow> string list \<Rightarrow> string" where
  "separated sep [] = []"
| "separated sep [x] = x"
| "separated sep (x # xs) = x @ sep @ separated sep xs"

definition list_setting :: "char \<Rightarrow> string \<Rightarrow> string list \<Rightarrow> string" where
  "list_setting q sep xs = ''['' @ separated sep (List.map (quoted q) xs) @ '']''"

fun decimal :: "nat \<Rightarrow> string" where
  "decimal n = (if n < 10 then [char_of (48 + n)] else decimal (n div 10) @ [char_of (48 + n mod 10)])"

declare decimal.simps [simp del]

section \<open>Facts\<close>

text \<open>Every scanner hands back at most what it got.\<close>

lemma prepend_Some: "prepend x m = Some (ys, r) \<longleftrightarrow> (\<exists>xs. ys = x # xs \<and> m = Some (xs, r))"
  by (auto simp: prepend_def)

lemma length_skip_ws: "length (skip_ws s) \<le> length s"
  by (simp add: skip_ws_def length_dropWhile_le)

lemma next_is_length: "next_is c s \<Longrightarrow> Suc (length (tl s)) = length s"
  by (cases s) (simp_all add: next_is_def)

lemma scan_string_length: "scan_string s = Some (t, r) \<Longrightarrow> length r < length s"
proof (induction s arbitrary: t r rule: scan_string.induct)
  case (1 s)
  show ?case
  proof (cases s)
    case Nil
    with "1.prems" show ?thesis by (simp add: scan_string.simps)
  next
    case (Cons c cs)
    show ?thesis
      using "1.prems" "1.IH"
      apply (subst (asm) scan_string.simps)
      apply (simp add: Cons split: if_splits list.splits option.splits)
      apply (fastforce simp: prepend_Some less_Suc_eq)+
      done
  qed
qed

lemma length_tl_le: "length (tl s) \<le> length s"
  by simp

lemma int_part_length: "int_part s = Some (i, r) \<Longrightarrow> length r \<le> length s"
  by (auto simp: int_part_def Let_def split: if_splits
      intro: le_trans [OF length_dropWhile_le] le_trans [OF length_tl_le])

lemma frac_part_length: "frac_part s = (f, r) \<Longrightarrow> length r \<le> length s"
  by (auto simp: frac_part_def Let_def split: if_splits
      intro: le_trans [OF length_dropWhile_le] le_trans [OF length_tl_le])

lemma exp_part_length: "exp_part s = (e, r) \<Longrightarrow> length r \<le> length s"
  by (auto simp: exp_part_def Let_def split: if_splits
      intro!: le_trans [OF length_dropWhile_le] le_trans [OF length_tl_le] diff_le_self)

lemma json_atom_length: "json_atom s = Some (v, r) \<Longrightarrow> length r \<le> length s"
  by (auto simp: json_atom_def json_number_def split: option.splits prod.splits
      dest!: int_part_length frac_part_length exp_part_length)

lemma after_separator: "next_is c (skip_ws t) \<Longrightarrow> length (skip_ws (tl (skip_ws t))) < length t"
  using length_skip_ws [of "tl (skip_ws t)"] length_skip_ws [of t] next_is_length [of c "skip_ws t"] by linarith

lemma after_end: "next_is c (skip_ws t) \<Longrightarrow> length (tl (skip_ws t)) < length t"
  using length_skip_ws [of t] next_is_length [of c "skip_ws t"] by linarith

lemma json_items_SomeE:
  assumes "json_items (Suc n) s = Some (vs, t)"
  obtains v r where "json_value n s = Some (v, r)"
      "(next_is (CHR '','') (skip_ws r) \<and> (\<exists>ws. json_items n (skip_ws (tl (skip_ws r))) = Some (ws, t)))
        \<or> (next_is (CHR '']'') (skip_ws r) \<and> t = tl (skip_ws r))"
  using assms by (auto simp: Option.bind_eq_Some_conv Let_def prepend_Some split: if_splits)

lemma json_pairs_SomeE:
  assumes "json_pairs (Suc n) s = Some (ps, t)"
  obtains k r v r' where "scan_string (tl s) = Some (k, r)" "next_is (CHR '':'') (skip_ws r)"
      "json_value n (skip_ws (tl (skip_ws r))) = Some (v, r')"
      "(next_is (CHR '','') (skip_ws r') \<and> (\<exists>qs. json_pairs n (skip_ws (tl (skip_ws r'))) = Some (qs, t)))
        \<or> (next_is (CHR ''}'') (skip_ws r') \<and> t = tl (skip_ws r'))"
  using assms by (auto simp: Option.bind_eq_Some_conv Let_def prepend_Some split: if_splits)

lemma json_length:
  shows json_value_length: "json_value n s = Some (v, r) \<Longrightarrow> length r \<le> length s"
    and json_items_length: "json_items n s = Some (vs, r) \<Longrightarrow> length r \<le> length s"
    and json_pairs_length: "json_pairs n s = Some (ps, r) \<Longrightarrow> length r \<le> length s"
proof (induction n arbitrary: s v vs ps r)
  case (Suc n)
  { case 1
    have "length (skip_ws (tl s)) \<le> length s"
      using length_skip_ws [of "tl s"] length_tl_le [of s] by linarith
    with 1 Suc.IH show ?case
      by (fastforce simp: Let_def split: if_splits dest!: scan_string_length json_atom_length) }
  { case 2
    then show ?case
      by (elim json_items_SomeE) (use Suc.IH after_separator after_end in \<open>meson le_trans less_imp_le\<close>) }
  { case 3
    then show ?case
    proof (rule json_pairs_SomeE)
      fix k u w u'
      assume k: "scan_string (tl s) = Some (k, u)" "next_is (CHR '':'') (skip_ws u)"
        and w: "json_value n (skip_ws (tl (skip_ws u))) = Some (w, u')"
        and rest: "(next_is (CHR '','') (skip_ws u') \<and> (\<exists>qs. json_pairs n (skip_ws (tl (skip_ws u'))) = Some (qs, r)))
          \<or> (next_is (CHR ''}'') (skip_ws u') \<and> r = tl (skip_ws u'))"
      have "length u' \<le> length s"
        using scan_string_length [OF k(1)] after_separator [OF k(2)] Suc.IH(1) [OF w] length_tl_le [of s] by linarith
      moreover have "length r \<le> length u'"
        using rest Suc.IH(3) after_separator after_end by (meson le_trans less_imp_le)
      ultimately show ?thesis by linarith
    qed }
qed simp_all

text \<open>More fuel changes nothing.\<close>

lemma json_more_fuel:
  shows json_value_fuel: "2 * length s + 1 \<le> n \<Longrightarrow> 2 * length s + 1 \<le> m \<Longrightarrow> json_value n s = json_value m s"
    and json_items_fuel: "2 * length s + 2 \<le> n \<Longrightarrow> 2 * length s + 2 \<le> m \<Longrightarrow> json_items n s = json_items m s"
    and json_pairs_fuel: "2 * length s + 2 \<le> n \<Longrightarrow> 2 * length s + 2 \<le> m \<Longrightarrow> json_pairs n s = json_pairs m s"
proof (induction n arbitrary: s m)
  case (Suc n)
  { case 1
    then obtain m' where m: "m = Suc m'" by (cases m) auto
    have inner: "2 * length (skip_ws (tl s)) + 2 \<le> n \<and> 2 * length (skip_ws (tl s)) + 2 \<le> m'" if "next_is c s" for c
      using length_skip_ws [of "tl s"] next_is_length [OF that] 1 m by linarith
    have "next_is c s \<Longrightarrow> json_items n (skip_ws (tl s)) = json_items m' (skip_ws (tl s))"
      "next_is c s \<Longrightarrow> json_pairs n (skip_ws (tl s)) = json_pairs m' (skip_ws (tl s))" for c
      using Suc.IH(2,3) inner by blast+
    then show ?case by (simp add: m Let_def) }
  { case 2
    then obtain m' where m: "m = Suc m'" by (cases m) auto
    have v: "json_value n s = json_value m' s" using 2 m Suc.IH(1) [of s m'] by simp
    have "json_items n (skip_ws (tl (skip_ws r))) = json_items m' (skip_ws (tl (skip_ws r)))"
      if "json_value m' s = Some (w, r)" "next_is c (skip_ws r)" for w r c
      using json_value_length [OF that(1)] after_separator [OF that(2)] 2 m by (intro Suc.IH(2)) linarith+
    then show ?case by (auto simp: m v Let_def intro!: Option.bind_cong) }
  { case 3
    then obtain m' where m: "m = Suc m'" by (cases m) auto
    have v: "json_value n (skip_ws (tl (skip_ws u))) = json_value m' (skip_ws (tl (skip_ws u)))"
      if "scan_string (tl s) = Some (k, u)" "next_is c (skip_ws u)" for k u c
      using scan_string_length [OF that(1)] after_separator [OF that(2)] 3 m by (intro Suc.IH(1)) simp_all
    have "json_pairs n (skip_ws (tl (skip_ws r))) = json_pairs m' (skip_ws (tl (skip_ws r)))"
      if "scan_string (tl s) = Some (k, u)" "next_is c (skip_ws u)"
        "json_value m' (skip_ws (tl (skip_ws u))) = Some (w, r)" "next_is d (skip_ws r)" for k u c w r d
      using scan_string_length [OF that(1)] after_separator [OF that(2)] json_value_length [OF that(3)]
        after_separator [OF that(4)] 3 m by (intro Suc.IH(3)) simp_all
    with v show ?case by (auto simp: m Let_def intro!: Option.bind_cong) }
qed simp_all

lemma json_fuel:
  assumes "2 * length s + 1 \<le> n"
  shows "json_value n s = json_value (2 * length s + 1) s"
  using assms by (intro json_value_fuel) simp_all

text \<open>What a scanned list of quoted texts is.\<close>

definition plain_char :: "char \<Rightarrow> bool" where
  "plain_char c \<longleftrightarrow> 32 \<le> (of_char c :: nat) \<and> c \<notin> {CHR 0x22, CHR 0x27, CHR 0x5C}"

lemma scan_plain:
  "list_all plain_char t \<Longrightarrow> scan_string (t @ CHR 0x22 # r) = Some (List.map of_char t, r)"
proof (induction t)
  case (Cons c t)
  then show ?case
    by (subst scan_string.simps) (simp add: plain_char_def prepend_def)
qed (subst scan_string.simps; simp)

lemma skip_ws_simps [simp]:
  "skip_ws [] = []" "skip_ws (c # cs) = (if is_ws c then skip_ws cs else c # cs)"
  by (simp_all add: skip_ws_def)

lemma skip_ws_append: "list_all is_ws w \<Longrightarrow> skip_ws (w @ s) = skip_ws s"
  by (induction w) simp_all

lemma next_is_simps [simp]: "\<not> next_is c []" "next_is c (d # ds) \<longleftrightarrow> d = c"
  by (auto simp: next_is_def)

lemma not_ws [simp]: "\<not> is_ws (CHR 0x22)" "\<not> is_ws (CHR '','')" "\<not> is_ws (CHR '']'')" "\<not> is_ws (CHR ''['')"
  by (simp_all add: is_ws_def)

lemma json_items_quoted:
  "list_all plain_char x \<Longrightarrow> json_items (Suc (Suc m)) (quoted (CHR 0x22) x @ t) =
     (let r = skip_ws t in
      if next_is (CHR '','') r then prepend (JString (List.map of_char x)) (json_items (Suc m) (skip_ws (tl r)))
      else if next_is (CHR '']'') r then Some ([JString (List.map of_char x)], tl r)
      else None)"
  by (simp add: quoted_def scan_plain Let_def)

lemma json_items_plain:
  assumes "xs \<noteq> []" "list_all (list_all plain_char) xs" "list_all is_ws w" "length xs < n"
  shows "json_items n (separated ('','' @ w) (List.map (quoted (CHR 0x22)) xs) @ '']'' @ r)
    = Some (List.map (\<lambda>x. JString (List.map of_char x)) xs, r)"
  using assms
proof (induction xs arbitrary: n rule: induct_list012)
  case (2 x)
  then obtain m where "n = Suc (Suc m)" by (metis length_Cons less_iff_Suc_add list.size(3) add_Suc)
  with 2 show ?case by (simp add: json_items_quoted del: json_items.simps)
next
  case (3 x y zs)
  then obtain m where n: "n = Suc (Suc m)" by (metis length_Cons less_iff_Suc_add add_Suc)
  define R where "R = separated ('','' @ w) (List.map (quoted (CHR 0x22)) (y # zs)) @ '']'' @ r"
  have "skip_ws (w @ R) = R"
    using 3 by (cases zs) (simp_all add: skip_ws_append quoted_def R_def)
  moreover have "json_items (Suc m) R = Some (List.map (\<lambda>x. JString (List.map of_char x)) (y # zs), r)"
    unfolding R_def using 3 n by (intro "3.IH"(2)) simp_all
  moreover have "separated ('','' @ w) (List.map (quoted (CHR 0x22)) (x # y # zs)) @ '']'' @ r
      = quoted (CHR 0x22) x @ CHR '','' # w @ R"
    by (simp add: R_def)
  ultimately show ?case
    using 3 by (simp add: n json_items_quoted prepend_def del: json_items.simps separated.simps)
qed simp

text \<open>\<open>json.loads\<close> reads a written list of plain texts back, whichever of the two quotes the writer uses.\<close>

lemma requote_plain: "list_all plain_char x \<Longrightarrow> requote x = x"
  by (induction x) (auto simp: requote_def plain_char_def)

lemma requote_ws: "list_all is_ws w \<Longrightarrow> requote w = w"
  by (induction w) (auto simp: requote_def is_ws_def)

lemma requote_Cons: "requote (c # s) = (if c = CHR 0x27 then CHR 0x22 else c) # requote s" "requote [] = []"
  by (simp_all add: requote_def)

lemma requote_append: "requote (x @ y) = requote x @ requote y"
  by (simp add: requote_def)

lemma requote_list_setting:
  assumes "q = CHR 0x22 \<or> q = CHR 0x27" "list_all (list_all plain_char) xs" "list_all is_ws w"
  shows "requote (list_setting q ('','' @ w) xs) = list_setting (CHR 0x22) ('','' @ w) xs"
proof -
  have quoted: "requote (quoted q x) = quoted (CHR 0x22) x" if "list_all plain_char x" for x
    using assms(1) requote_plain [OF that] by (auto simp: quoted_def requote_def)
  have "requote (separated ('','' @ w) (List.map (quoted q) xs)) = separated ('','' @ w) (List.map (quoted (CHR 0x22)) xs)"
    using assms(2,3)
    by (induction xs rule: induct_list012) (simp_all add: quoted requote_append requote_Cons requote_ws)
  then show ?thesis
    by (simp add: list_setting_def requote_append requote_Cons)
qed

lemma separated_length: "length xs \<le> Suc (length (separated (s # sep) xs))"
  by (induction "s # sep" xs rule: separated.induct) auto

lemma separated_starts:
  "xs \<noteq> [] \<Longrightarrow> separated sep (List.map (quoted q) xs) = q # tl (separated sep (List.map (quoted q) xs))"
  by (cases xs rule: remdups_adj.cases) (simp_all add: quoted_def)

lemma json_value_list:
  assumes "list_all (list_all plain_char) xs" "list_all is_ws w" "length xs < n"
  shows "json_value (Suc n) (list_setting (CHR 0x22) ('','' @ w) xs)
    = Some (JArray (List.map (\<lambda>x. JString (List.map of_char x)) xs), [])"
proof (cases "xs = []")
  case False
  let ?body = "separated ('','' @ w) (List.map (quoted (CHR 0x22)) xs)"
  obtain t where t: "?body = CHR 0x22 # t" using separated_starts [OF False] by blast
  have "json_items n (?body @ '']'' @ []) = Some (List.map (\<lambda>x. JString (List.map of_char x)) xs, [])"
    using False assms by (intro json_items_plain) simp_all
  moreover have "skip_ws (?body @ '']'') = ?body @ '']''" "\<not> next_is (CHR '']'') (?body @ '']'')"
    unfolding t by simp_all
  ultimately show ?thesis by (simp add: list_setting_def)
qed (simp add: list_setting_def)

lemma loads_list_setting:
  assumes "list_all (list_all plain_char) xs" "list_all is_ws w"
  shows "json_loads (list_setting (CHR 0x22) ('','' @ w) xs) = Some (JArray (List.map (\<lambda>x. JString (List.map of_char x)) xs))"
proof -
  have "length xs < 2 * length (list_setting (CHR 0x22) ('','' @ w) xs)"
    using separated_length [of "List.map (quoted (CHR 0x22)) xs" "CHR '',''" w] by (simp add: list_setting_def)
  note json_value_list [OF assms this]
  moreover have "skip_ws (list_setting (CHR 0x22) ('','' @ w) xs) = list_setting (CHR 0x22) ('','' @ w) xs"
    by (simp add: list_setting_def)
  ultimately show ?thesis by (simp only: json_loads_def Suc_eq_plus1) simp
qed

section \<open>Decimal numbers\<close>

lemma int_digits_append:
  "list_all is_digit ds \<Longrightarrow> ds \<noteq> [] \<or> b \<Longrightarrow> int_digits b acc (ds @ s) = int_digits True (fold (\<lambda>c a. 10 * a + digit_value c) ds acc) s"
  by (induction ds arbitrary: b acc) auto

lemma digit_char:
  assumes "n < 10"
  shows "is_digit (char_of (48 + n))" "digit_value (char_of (48 + n)) = n" "\<not> is_space (char_of (48 + n))"
    "char_of (48 + n) \<noteq> CHR ''-''" "char_of (48 + n) \<noteq> CHR ''+''"
  using assms by (auto simp: is_digit_def digit_value_def is_space_def char_of_eq_iff take_bit_eq_mod)

lemma decimal_facts:
  "list_all is_digit (decimal n) \<and> decimal n \<noteq> [] \<and> fold (\<lambda>c a. 10 * a + digit_value c) (decimal n) 0 = n
    \<and> (\<forall>c \<in> set (decimal n). \<not> is_space c \<and> c \<noteq> CHR ''-'' \<and> c \<noteq> CHR ''+'')"
proof (induction n rule: decimal.induct)
  case (1 n)
  have "n mod 10 < 10" by simp
  note digit_char [OF this]
  with 1 digit_char [of n] show ?case
    by (subst (1 2 3 4) decimal.simps) auto
qed

lemma strip_no_space: "\<forall>c \<in> set s. \<not> is_space c \<Longrightarrow> strip s = s"
  by (simp add: strip_def dropWhile_eq_self_iff) (metis dropWhile_eq_self_iff hd_in_set rev_rev_ident set_rev)

text \<open>\<open>int\<close> reads the digits of a number back.\<close>

lemma py_int_decimal: "py_int (decimal n) = Some (int n)"
  using decimal_facts [of n] int_digits_append [of "decimal n" False 0 "[]"]
  by (cases "decimal n") (auto simp: py_int_def strip_no_space Let_def)

end
