(* ===== verification/Settings.thy ===== *)
theory Settings
  imports Engine_Properties Json
begin

text \<open>
  The beginning of \<open>DDPoAEngine.start\<close>: the three on-chain settings become the members, their
  addresses and the number of slots, before \<open>engine_start\<close> builds the node. Two of the settings are
  decoded by \<open>json.loads\<close> after every single quote became a double quote, the third by \<open>int\<close>.
\<close>

section \<open>The settings and \<open>start\<close>\<close>

definition MEMBERS_KEY :: string where "MEMBERS_KEY = ''sawtooth.consensus.ddpoa.members''"
definition SLOTS_KEY :: string where "SLOTS_KEY = ''sawtooth.consensus.ddpoa.slots''"
definition MEMBER_IPS_KEY :: string where "MEMBER_IPS_KEY = ''sawtooth.consensus.ddpoa.member_ips''"

text \<open>\<open>json.loads(settings[key].replace("'", '"'))\<close> and \<open>int(settings[key])\<close>: both raise a \<open>ValueError\<close>
  (\<open>JSONDecodeError\<close> is one) on a text that they do not accept.\<close>

definition json_setting :: "(string, string) dict \<Rightarrow> string \<Rightarrow> json outcome" where
  "json_setting settings key =
     (case dget settings key of
        None \<Rightarrow> Raise KeyError
      | Some t \<Rightarrow> (case json_loads (requote t) of None \<Rightarrow> Raise ValueError | Some v \<Rightarrow> Return v))"

definition int_setting :: "(string, string) dict \<Rightarrow> string \<Rightarrow> int outcome" where
  "int_setting settings key =
     (case dget settings key of
        None \<Rightarrow> Raise KeyError
      | Some t \<Rightarrow> (case py_int t of None \<Rightarrow> Raise ValueError | Some n \<Rightarrow> Return n))"

text \<open>\<open>zip\<close> takes a list, a string or an object, and raises a \<open>TypeError\<close> for anything else.\<close>

fun iterable :: "json \<Rightarrow> bool" where
  "iterable (JString _) = True"
| "iterable (JArray _) = True"
| "iterable (JObject _) = True"
| "iterable _ = False"

fun text_of :: "json \<Rightarrow> string option" where
  "text_of (JString t) = (if \<forall>n \<in> set t. n < 256 then Some (List.map char_of t) else None)"
| "text_of _ = None"

fun all_texts :: "json list \<Rightarrow> string list option" where
  "all_texts [] = Some []"
| "all_texts (v # vs) = Option.bind (text_of v) (\<lambda>t. map_option ((#) t) (all_texts vs))"

fun texts :: "json \<Rightarrow> string list option" where
  "texts (JArray vs) = all_texts vs"
| "texts _ = None"

text \<open>
  \<open>start\<close> up to its loop. \<open>get_settings\<close> is the validator's answer. When the decoded members and
  addresses are not lists of texts, Python goes on with whatever values they are; \<open>untyped\<close> stands for that
  rest of \<open>start\<close>, about which nothing is assumed. An exception leaves \<open>start\<close> and ends the program.
\<close>

definition start ::
    "(bytes \<Rightarrow> string list \<Rightarrow> (string, string) dict outcome) \<Rightarrow>
     ((string, string) dict \<Rightarrow> json \<Rightarrow> json \<Rightarrow> (engine, unit) py) \<Rightarrow> bytes \<Rightarrow> block \<Rightarrow> (engine, unit) py" where
  "start get_settings untyped local_id head =
     thenP (modify (\<lambda>s. s\<lparr>en_cache := BlockCache_init, en_local_id := local_id\<rparr>))
    (bindP (from_outcome (get_settings (b_block_id head) [MEMBERS_KEY, SLOTS_KEY, MEMBER_IPS_KEY])) (\<lambda>settings.
     bindP (from_outcome (json_setting settings MEMBERS_KEY)) (\<lambda>members.
     bindP (from_outcome (json_setting settings MEMBER_IPS_KEY)) (\<lambda>ips.
       if \<not> iterable members \<or> \<not> iterable ips then raise TypeError
       else (case (texts members, texts ips) of
          (Some ms, Some is) \<Rightarrow>
            bindP (from_outcome (int_setting settings SLOTS_KEY)) (\<lambda>slots. engine_start local_id ms is slots head)
        | _ \<Rightarrow> untyped settings members ips)))))"

text \<open>What the engine tells the driver about itself.\<close>

definition name :: string where "name = ''ddpoa''"
definition version :: string where "version = ''0.1''"

definition additional_protocols :: "(string \<times> string) list" where
  "additional_protocols = [(name, version)]"

section \<open>Facts\<close>

lemma text_of_chars: "text_of (JString (List.map of_char x)) = Some x"
  by (simp add: comp_def)

lemma texts_chars: "texts (JArray (List.map (\<lambda>x. JString (List.map of_char x)) xs)) = Some xs"
  by (induction xs) (simp_all add: comp_def)

lemma map_of_rev_distinct:
  assumes "distinct (List.map fst ps)"
  shows "map_of (rev ps) k = map_of ps k"
proof -
  have "map_of (rev ps) k = Some v \<longleftrightarrow> map_of ps k = Some v" for v
    using assms map_of_eq_Some_iff [of ps k v] map_of_eq_Some_iff [of "rev ps" k v] by (simp add: rev_map [symmetric])
  then show ?thesis by (metis not_Some_eq)
qed

lemma address_of_member:
  assumes "distinct members" "i < length members"
  shows "dget (fold (\<lambda>(k, v). dput k v) (zip members ips) []) (members ! i) = (if i < length ips then Some (ips ! i) else None)"
proof -
  have d: "distinct (List.map fst (zip members ips))"
    using assms(1) by (simp add: map_fst_zip_take)
  show ?thesis
  proof (cases "i < length ips")
    case True
    then have "(members ! i, ips ! i) \<in> set (zip members ips)"
      using assms(2) by (auto simp: set_zip)
    then show ?thesis
      using True d by (simp add: dict.look_fold_ins map_of_rev_distinct)
  next
    case False
    then have "map_of (zip members ips) (members ! i) = None"
      using assms by (auto simp: set_zip nth_eq_iff_index_eq map_of_eq_None_iff)
    moreover have "dget [] (members ! i) = None" by (simp add: dget_def)
    ultimately show ?thesis
      using False d by (simp only: dict.look_fold_ins map_of_rev_distinct) simp
  qed
qed

text \<open>Nothing in \<open>engine_start\<close> touches the addresses after they are paired.\<close>

definition same_ips :: "engine \<Rightarrow> engine \<Rightarrow> bool" where
  "same_ips s t \<longleftrightarrow> en_ips t = en_ips s"

interpretation same_ips: state_preorder same_ips
  by unfold_locales (simp_all add: same_ips_def)

lemma same_ips_calls: "keeps same_ips (in_node m)" "keeps same_ips (in_cache m')"
  by (auto simp: keeps_def in_node_def in_cache_def run_simps same_ips_def split: prod.split)

lemma engine_start_ips:
  "en_ips (snd (engine_start local_id members ips slots head s)) = fold (\<lambda>(k, v). dput k v) (zip members ips) []"
proof -
  define rest where "rest = thenP (in_node (DDPoANode_init members slots))
    (thenP (whenP (b_previous_id head \<noteq> GENESIS_BLOCK_ID) (in_node (modify (set_state WAITING_FOR_BOOTSTRAP))))
    (thenP (in_cache (cache_append head))
    (thenP (modify (\<lambda>s. s\<lparr>en_pre_committed := (b_block_id head, b_block_num head)\<rparr>))
    (bindP (in_node time_now) (\<lambda>now.
       modify (\<lambda>s. s\<lparr>en_loop_pre_request := now, en_loop_start := now, en_loop_starting := True\<rparr>))))))"
  have "keeps same_ips rest"
    unfolding rest_def by (intro same_ips.all same_ips.modify same_ips_calls) (simp_all add: same_ips_def)
  from keepsD [OF this] have "en_ips (snd (rest t)) = en_ips t" for t
    by (simp add: same_ips_def)
  then show ?thesis
    by (simp add: engine_start_def rest_def [symmetric] run_then run_modify)
qed

lemma started_ips:
  "en_ips (engine_run L evs (started local_id members ips slots head service net clock rnd))
    = fold (\<lambda>(k, v). dput k v) (zip members ips) []"
  using engine_run_frame [of "started local_id members ips slots head service net clock rnd" L evs]
  by (simp add: engine_frame_def started_def engine_start_ips)

text \<open>The settings that \<open>scripts/main_validator.sh\<close> writes have no addresses: \<open>start\<close> raises on them.\<close>

lemma missing_setting_raises:
  assumes "get_settings (b_block_id head) [MEMBERS_KEY, SLOTS_KEY, MEMBER_IPS_KEY] = Return settings"
    and "dget settings MEMBERS_KEY = None \<or> dget settings MEMBER_IPS_KEY = None"
  shows "fst (start get_settings untyped local_id head s) \<in> {Raise KeyError, Raise ValueError}"
  using assms by (auto simp: start_def run_simps json_setting_def split: option.splits)

section \<open>Properties\<close>

text \<open>C30: what the deployment writes into the settings is what the engine starts with: when the members and
  their addresses are written as lists in either quote, with any white space after the commas, and the
  number of slots in decimal, \<open>start\<close> runs on exactly these members, addresses and slots.\<close>

theorem settings_roundtrip:
  assumes "get_settings (b_block_id head) [MEMBERS_KEY, SLOTS_KEY, MEMBER_IPS_KEY] = Return settings"
    and "dget settings MEMBERS_KEY = Some (list_setting q ('','' @ w) members)"
    and "dget settings MEMBER_IPS_KEY = Some (list_setting q' ('','' @ w') ips)"
    and "dget settings SLOTS_KEY = Some (decimal slots)"
    and "{q, q'} \<subseteq> {CHR 0x22, CHR 0x27}" and "list_all is_ws (w @ w')"
    and "list_all (list_all plain_char) (members @ ips)"
  shows "start get_settings untyped local_id head s = engine_start local_id members ips (int slots) head
    (s\<lparr>en_cache := BlockCache_init, en_local_id := local_id\<rparr>)"
proof -
  have "json_setting settings MEMBERS_KEY = Return (JArray (List.map (\<lambda>x. JString (List.map of_char x)) members))"
    using assms requote_list_setting [of q members w] loads_list_setting [of members w] by (auto simp: json_setting_def)
  moreover have "json_setting settings MEMBER_IPS_KEY = Return (JArray (List.map (\<lambda>x. JString (List.map of_char x)) ips))"
    using assms requote_list_setting [of q' ips w'] loads_list_setting [of ips w'] by (auto simp: json_setting_def)
  ultimately show ?thesis
    by (simp add: start_def run_simps assms(1) texts_chars del: texts.simps)
      (simp add: int_setting_def assms(4) py_int_decimal run_simps)
qed

text \<open>C37: addresses are paired with members by position. In every state of every run, a member beyond the
  end of a shorter address list has no address, and a notification that it connected always raises, so
  that the engine never opens a channel to it.\<close>

theorem addresses_by_position:
  assumes "distinct members" "i < length members"
    and "s = engine_run L evs (started local_id members ips slots head service net clock rnd)"
  shows "dget (en_ips s) (members ! i) = (if i < length ips then Some (ips ! i) else None)
    \<and> (length ips \<le> i \<and> hex peer = members ! i \<longrightarrow>
        fst (handle_peer_connected peer s) \<noteq> Return ()
        \<and> (node_state_of s \<noteq> WAITING_FOR_BOOTSTRAP \<longrightarrow> handle_peer_connected peer s = (Raise KeyError, s)))"
proof -
  have ips: "dget (en_ips s) (members ! i) = (if i < length ips then Some (ips ! i) else None)"
    unfolding assms(3) started_ips by (rule address_of_member [OF assms(1,2)])
  have same: "en_ips t = en_ips s" if "in_node m s = (r, t)" for m r t
    using keeps_run [OF same_ips_calls(1) that] by (simp add: same_ips_def)
  show ?thesis
    using ips by (auto simp: handle_peer_connected_def run_then run_bind run_gets run_from_option run_when
        split: prod.splits outcome.splits dest: same)
qed

section \<open>Witnesses\<close>

definition two_settings :: "bytes \<Rightarrow> string list \<Rightarrow> (string, string) dict outcome" where
  "two_settings i ks = Return
     [(MEMBERS_KEY, list_setting (CHR 0x22) '','' [''02a1'', ''03b2'']),
      (MEMBER_IPS_KEY, list_setting (CHR 0x27) '', '' [''10.0.0.1'']), (SLOTS_KEY, decimal 2)]"

theorem settings_roundtrip_witness:
  "start two_settings (\<lambda>_ _ _. raise TypeError) ''a'' (test_block ''i'' ''h'' 1) test_engine
    = engine_start ''a'' [''02a1'', ''03b2''] [''10.0.0.1''] 2 (test_block ''i'' ''h'' 1)
        (test_engine\<lparr>en_cache := BlockCache_init, en_local_id := ''a''\<rparr>)"
proof -
  define settings where "settings = [(MEMBERS_KEY, list_setting (CHR 0x22) ('','' @ []) [''02a1'', ''03b2'']),
      (MEMBER_IPS_KEY, list_setting (CHR 0x27) ('','' @ '' '') [''10.0.0.1'']), (SLOTS_KEY, decimal 2)]"
  have "two_settings i ks = Return settings" for i ks
    by (simp add: two_settings_def settings_def)
  moreover have "dget settings MEMBERS_KEY = Some (list_setting (CHR 0x22) ('','' @ []) [''02a1'', ''03b2''])"
    "dget settings MEMBER_IPS_KEY = Some (list_setting (CHR 0x27) ('','' @ '' '') [''10.0.0.1''])"
    "dget settings SLOTS_KEY = Some (decimal 2)"
    by (simp_all add: settings_def dget_def MEMBERS_KEY_def MEMBER_IPS_KEY_def SLOTS_KEY_def)
  moreover have "{CHR 0x22, CHR 0x27} \<subseteq> {CHR 0x22, CHR 0x27 :: char}" "list_all is_ws ([] @ '' '')"
    "list_all (list_all plain_char) ([''02a1'', ''03b2''] @ [''10.0.0.1''])"
    by (simp_all add: is_ws_def plain_char_def)
  ultimately show ?thesis
    using settings_roundtrip [of two_settings "test_block ''i'' ''h'' 1" settings] by simp
qed

definition two_members :: engine where
  "two_members = started ''a'' [hex ''a'', hex ''b''] [''10.0.0.1''] 2 (test_block ''i'' ''h'' 1) test_service
     (\<lambda>_ _. True) (\<lambda>_. 0) (\<lambda>_. 1/2)"

theorem addresses_by_position_witness:
  "fst (handle_peer_connected ''b'' (engine_run test_libs [] two_members)) \<noteq> Return ()"
proof -
  have "distinct [hex ''a'', hex ''b'']" "1 < length [hex ''a'', hex ''b'']"
    by code_simp+
  from addresses_by_position [OF this two_members_def [THEN arg_cong [where f = "engine_run test_libs []"]], of "''b''"]
  show ?thesis by simp
qed

end
