(* ===== verification/Arguments.thy ===== *)
theory Arguments
  imports Py_Prelude
begin

text \<open>
  The command line of \<open>main.py\<close>: \<open>parse_args\<close>, with the part of Python's \<open>argparse\<close> that it uses
  (that of Python 3.8, the version in the repository's image). The parser has no positional
  arguments; \<open>-C\<close> and \<open>--component\<close> take one text, \<open>-v\<close> counts, \<open>-h\<close> and \<open>-V\<close> print and exit. What is
  printed is left out, except the text of the version.
\<close>

section \<open>Options\<close>

datatype arg_action = Act_Help | Act_Connect | Act_Component | Act_Verbose | Act_Version

definition OPTIONS :: "(string \<times> arg_action) list" where
  "OPTIONS = [(''-h'', Act_Help), (''--help'', Act_Help), (''-C'', Act_Connect), (''--connect'', Act_Connect),
     (''--component'', Act_Component), (''-v'', Act_Verbose), (''--verbose'', Act_Verbose),
     (''-V'', Act_Version), (''--version'', Act_Version)]"

definition takes_value :: "arg_action \<Rightarrow> bool" where
  "takes_value a \<longleftrightarrow> a \<in> {Act_Connect, Act_Component}"

record namespace =
  ns_connect :: string
  ns_component :: string
  ns_verbose :: nat

definition defaults :: namespace where
  "defaults = \<lparr>ns_connect = ''tcp://localhost:5050'', ns_component = ''tcp://localhost:4004'', ns_verbose = 0\<rparr>"

definition DISTRIBUTION_NAME :: string where
  "DISTRIBUTION_NAME = ''sawtooth-ddpoa-consensus-engine''"

text \<open>The text of \<open>-V\<close>, given the version of the installed distribution, if there is one.\<close>

definition version_text :: "string option \<Rightarrow> string" where
  "version_text installed = DISTRIBUTION_NAME @ '' (Hyperledger Sawtooth) version ''
     @ (case installed of Some v \<Rightarrow> v | None \<Rightarrow> ''UNKNOWN'')"

section \<open>Arguments one by one\<close>

text \<open>What an argument is: one that names no option, an option with the name that matched and a value that
  is part of the same argument, an option that does not exist, or an abbreviation of several.\<close>

datatype token = Positional | Optional arg_action string "string option" | Unknown | Ambiguous | Separator

definition split_eq :: "string \<Rightarrow> string \<times> string option" where
  "split_eq s = (takeWhile (\<lambda>c. c \<noteq> CHR ''='') s,
     if CHR ''='' \<in> set s then Some (tl (dropWhile (\<lambda>c. c \<noteq> CHR ''='') s)) else None)"

definition starts :: "string \<Rightarrow> string \<Rightarrow> bool" where
  "starts s p \<longleftrightarrow> take (length p) s = p"

text \<open>\<open>_get_option_tuples\<close>: abbreviations of long options, and short options with something behind them.\<close>

definition option_tuples :: "string \<Rightarrow> token list" where
  "option_tuples s =
     (if starts s ''--'' then
        (case split_eq s of (p, x) \<Rightarrow> List.map (\<lambda>(o', a). Optional a o' x) (filter (\<lambda>(o', a). starts o' p) OPTIONS))
      else concat (List.map (\<lambda>(o', a).
          if o' = take 2 s then [Optional a o' (Some (drop 2 s))]
          else if starts o' s then [Optional a o' None] else []) OPTIONS))"

definition is_dec :: "char \<Rightarrow> bool" where
  "is_dec c \<longleftrightarrow> 48 \<le> (of_char c :: nat) \<and> (of_char c :: nat) \<le> 57"

text \<open>\<open>^-\d+$|^-\d*\.\d+$\<close>, where \<open>$\<close> also matches before a final newline.\<close>

definition negative_number :: "string \<Rightarrow> bool" where
  "negative_number s =
     (let t = tl s; u = (if t \<noteq> [] \<and> last t = CHR 0x0A then butlast t else t);
          frac = dropWhile is_dec u
      in starts s ''-'' \<and> u \<noteq> [] \<and>
         (frac = [] \<or> (hd frac = CHR ''.'' \<and> tl frac \<noteq> [] \<and> list_all is_dec (tl frac))))"

definition parse_optional :: "string \<Rightarrow> token" where
  "parse_optional s =
     (if \<not> starts s ''-'' then Positional
      else case map_of OPTIONS s of
        Some a \<Rightarrow> Optional a s None
      | None \<Rightarrow>
          if length s = 1 then Positional
          else case (map_of OPTIONS (fst (split_eq s)), snd (split_eq s)) of
            (Some a, Some x) \<Rightarrow> Optional a (fst (split_eq s)) (Some x)
          | _ \<Rightarrow>
              (case option_tuples s of
                 [t] \<Rightarrow> t
               | _ # _ # _ \<Rightarrow> Ambiguous
               | [] \<Rightarrow> if negative_number s \<or> CHR '' '' \<in> set s then Positional else Unknown))"

text \<open>After an argument \<open>--\<close> nothing is an option.\<close>

fun classify :: "string list \<Rightarrow> (string \<times> token) list" where
  "classify [] = []"
| "classify (s # ss) =
     (if s = ''--'' then (s, Separator) # List.map (\<lambda>r. (r, Positional)) ss
      else (s, parse_optional s) # classify ss)"

section \<open>The options in turn\<close>

text \<open>
  One argument with options: flags in one argument (\<open>-vvC x\<close>) are taken apart. The result lists the
  actions, the last of which may need the next argument. A flag with an empty value (\<open>-v=\<close>) indexes
  an empty string.
\<close>

datatype cluster = Actions "(arg_action \<times> string option) list" | Needs_Value "(arg_action \<times> string option) list" arg_action
  | Refused | Broken exn

fun cluster_of :: "(arg_action \<times> string option) list \<Rightarrow> arg_action \<Rightarrow> string \<Rightarrow> string option \<Rightarrow> cluster" where
  "cluster_of acts a name None = (if takes_value a then Needs_Value acts a else Actions (acts @ [(a, None)]))"
| "cluster_of acts a name (Some []) =
     (if takes_value a then Actions (acts @ [(a, Some [])])
      else if starts name ''--'' then Refused else Broken IndexError)"
| "cluster_of acts a name (Some (c # r)) =
     (if takes_value a then Actions (acts @ [(a, Some (c # r))])
      else if starts name ''--'' then Refused
      else case map_of OPTIONS [CHR ''-'', c] of
        None \<Rightarrow> Refused
      | Some a' \<Rightarrow> cluster_of (acts @ [(a, None)]) a' [CHR ''-'', c] (if r = [] then None else Some r))"

datatype parsed = Parsed namespace | Exit_With int | Crash exn

text \<open>A value \<open>--\<close> that is part of its argument is removed before it is unpacked.\<close>

fun run_actions :: "(arg_action \<times> string option) list \<Rightarrow> namespace \<Rightarrow> parsed" where
  "run_actions [] ns = Parsed ns"
| "run_actions ((a, v) # as) ns =
     (if takes_value a \<and> v = Some ''--'' then Crash ValueError
      else case a of
        Act_Help \<Rightarrow> Exit_With 0
      | Act_Version \<Rightarrow> Exit_With 0
      | Act_Verbose \<Rightarrow> run_actions as (ns\<lparr>ns_verbose := ns_verbose ns + 1\<rparr>)
      | Act_Connect \<Rightarrow> run_actions as (case v of Some x \<Rightarrow> ns\<lparr>ns_connect := x\<rparr> | None \<Rightarrow> ns)
      | Act_Component \<Rightarrow> run_actions as (case v of Some x \<Rightarrow> ns\<lparr>ns_component := x\<rparr> | None \<Rightarrow> ns))"

text \<open>Arguments that belong to no option are an error, but only after all options have been acted on.\<close>

fun consume :: "(string \<times> token) list \<Rightarrow> bool \<Rightarrow> namespace \<Rightarrow> parsed" where
  "consume [] extras ns = (if extras then Exit_With 2 else Parsed ns)"
| "consume ((s, t) # ts) extras ns =
     (case t of
        Optional a name x \<Rightarrow>
          (case cluster_of [] a name x of
             Actions as \<Rightarrow> (case run_actions as ns of Parsed ns' \<Rightarrow> consume ts extras ns' | r \<Rightarrow> r)
           | Needs_Value as a' \<Rightarrow>
               (case ts of
                  (v, Positional) # ts' \<Rightarrow>
                    (case run_actions (as @ [(a', Some v)]) ns of Parsed ns' \<Rightarrow> consume ts' extras ns' | r \<Rightarrow> r)
                | _ \<Rightarrow> Exit_With 2)
           | Refused \<Rightarrow> Exit_With 2
           | Broken e \<Rightarrow> Crash e)
      | _ \<Rightarrow> consume ts True ns)"

definition parse_args :: "string list \<Rightarrow> parsed" where
  "parse_args args =
     (let ts = classify args in
      if Ambiguous \<in> snd ` set ts then Exit_With 2 else consume ts False defaults)"

section \<open>Facts\<close>

lemma run_actions_exit: "run_actions as ns = Exit_With n \<Longrightarrow> n = 0"
  by (induction as ns rule: run_actions.induct) (auto split: if_splits arg_action.splits)

lemma consume_exit: "consume ts extras ns = Exit_With n \<Longrightarrow> n \<in> {0, 2}"
  by (induction ts extras ns rule: consume.induct)
    (auto split: if_splits token.splits cluster.splits parsed.splits list.splits prod.splits dest: run_actions_exit)

lemma parse_args_exit: "parse_args args = Exit_With n \<Longrightarrow> n \<in> {0, 2}"
  by (auto simp: parse_args_def Let_def dest: consume_exit split: if_splits)

lemma classify_flags: "classify (replicate n ''-v'' @ ss) = replicate n (''-v'', Optional Act_Verbose ''-v'' None) @ classify ss"
  by (induction n) (simp_all add: parse_optional_def starts_def OPTIONS_def)

lemma consume_flags: "consume (replicate n (''-v'', Optional Act_Verbose ''-v'' None) @ ts) extras ns
    = consume ts extras (ns\<lparr>ns_verbose := ns_verbose ns + n\<rparr>)"
  by (induction n arbitrary: ns) (simp_all add: takes_value_def)

lemma parse_value: "\<not> starts c ''-'' \<Longrightarrow> parse_optional c = Positional"
  by (simp add: parse_optional_def)

lemma parse_names:
  "parse_optional ''-C'' = Optional Act_Connect ''-C'' None"
  "parse_optional ''--connect'' = Optional Act_Connect ''--connect'' None"
  "parse_optional ''--component'' = Optional Act_Component ''--component'' None"
  by (simp_all add: parse_optional_def starts_def OPTIONS_def)

lemma parse_stacked:
  "parse_optional (CHR ''-'' # replicate (Suc (Suc n)) (CHR ''v''))
    = Optional Act_Verbose ''-v'' (Some (replicate (Suc n) (CHR ''v'')))"
proof -
  have "takeWhile (\<lambda>c. c \<noteq> CHR ''='') (CHR ''-'' # replicate m (CHR ''v'')) = CHR ''-'' # replicate m (CHR ''v'')" for m
    by (induction m) simp_all
  then show ?thesis
    by (simp add: parse_optional_def starts_def OPTIONS_def split_eq_def option_tuples_def)
qed

lemma cluster_step: "cluster_of acts Act_Verbose ''-v'' (Some (CHR ''v'' # r))
    = cluster_of (acts @ [(Act_Verbose, None)]) Act_Verbose ''-v'' (if r = [] then None else Some r)"
  by (simp add: takes_value_def starts_def OPTIONS_def)

lemma cluster_stacked: "cluster_of acts Act_Verbose ''-v'' (Some (CHR ''v'' # replicate n (CHR ''v'')))
    = Actions (acts @ replicate (Suc (Suc n)) (Act_Verbose, None))"
proof (induction n arbitrary: acts)
  case 0
  then show ?case by (simp add: cluster_step takes_value_def del: cluster_of.simps(3))
next
  case (Suc n)
  then show ?case by (subst cluster_step) (simp del: cluster_of.simps(3))
qed

lemma run_flags: "run_actions (replicate n (Act_Verbose, None)) ns = Parsed (ns\<lparr>ns_verbose := ns_verbose ns + n\<rparr>)"
  by (induction n arbitrary: ns) (simp_all add: takes_value_def)

section \<open>Properties\<close>

text \<open>C40: the command lines of the deployment mean what they say: for endpoints that do not start with a dash,
  \<open>-v\<close> given \<open>n\<close> times with \<open>-C\<close> and \<open>--component\<close> yields exactly these endpoints and verbosity \<open>n\<close>, and the
  stacked form \<open>-vv... --connect\<close> of the deployment files counts every \<open>v\<close> and leaves the component's
  endpoint at its default.\<close>

theorem parse_args_roundtrip:
  assumes "\<not> starts c ''-''" and "\<not> starts d ''-''"
  shows "parse_args (replicate n ''-v'' @ [''-C'', c, ''--component'', d])
      = Parsed \<lparr>ns_connect = c, ns_component = d, ns_verbose = n\<rparr>
    \<and> parse_args [CHR ''-'' # replicate (Suc n) (CHR ''v''), ''--connect'', c]
      = Parsed \<lparr>ns_connect = c, ns_component = ''tcp://localhost:4004'', ns_verbose = Suc n\<rparr>"
proof -
  have c: "c \<noteq> ''--''" "d \<noteq> ''--''" using assms by (auto simp: starts_def)
  have sep: "classify (replicate n ''-v'' @ [''-C'', c, ''--component'', d]) = replicate n (''-v'', Optional Act_Verbose ''-v'' None)
      @ [(''-C'', Optional Act_Connect ''-C'' None), (c, Positional), (''--component'', Optional Act_Component ''--component'' None), (d, Positional)]"
    using assms c by (simp add: classify_flags parse_value parse_names)
  have stacked: "classify [CHR ''-'' # replicate (Suc n) (CHR ''v''), ''--connect'', c] =
      [(CHR ''-'' # replicate (Suc n) (CHR ''v''), parse_optional (CHR ''-'' # replicate (Suc n) (CHR ''v''))),
       (''--connect'', Optional Act_Connect ''--connect'' None), (c, Positional)]"
    using assms c by (simp add: parse_value parse_names)
  have "parse_args (replicate n ''-v'' @ [''-C'', c, ''--component'', d]) = Parsed \<lparr>ns_connect = c, ns_component = d, ns_verbose = n\<rparr>"
    using c by (auto simp: parse_args_def Let_def sep consume_flags takes_value_def defaults_def)
  moreover have "parse_args [CHR ''-'' # replicate (Suc n) (CHR ''v''), ''--connect'', c]
      = Parsed \<lparr>ns_connect = c, ns_component = ''tcp://localhost:4004'', ns_verbose = Suc n\<rparr>"
  proof (cases n)
    case 0
    then have "parse_optional (CHR ''-'' # replicate (Suc n) (CHR ''v'')) = Optional Act_Verbose ''-v'' None"
      by (simp add: parse_optional_def starts_def OPTIONS_def)
    then show ?thesis
      using 0 c unfolding parse_args_def stacked by (simp add: Let_def takes_value_def defaults_def)
  next
    case (Suc m)
    have "parse_optional (CHR ''-'' # replicate (Suc n) (CHR ''v'')) = Optional Act_Verbose ''-v'' (Some (replicate (Suc m) (CHR ''v'')))"
      unfolding Suc by (rule parse_stacked)
    then show ?thesis
      using Suc c
      unfolding parse_args_def stacked
      by (simp add: Let_def cluster_stacked run_flags takes_value_def defaults_def del: cluster_of.simps(3))
  qed
  ultimately show ?thesis by blast
qed

theorem parse_args_roundtrip_witness:
  "parse_args [''-vv'', ''--connect'', ''tcp://validator-0:5050'']
    = Parsed \<lparr>ns_connect = ''tcp://validator-0:5050'', ns_component = ''tcp://localhost:4004'', ns_verbose = 2\<rparr>"
proof -
  have "\<not> starts ''tcp://validator-0:5050'' ''-''" by (simp add: starts_def)
  from parse_args_roundtrip [OF this this, of 1] show ?thesis by (simp add: numeral_2_eq_2)
qed

end
