(* ===== verification/Path_Config.thy ===== *)
theory Path_Config
  imports Arguments
begin

text \<open>
  \<open>config/path.py\<close> and the start of \<open>main.py\<close>: where the engine looks for its directories. The
  platform is a record: the environment variable, the operating system, the program's directory,
  \<open>os.path.join\<close> and the files; \<open>posix_join\<close> is its value on Linux. \<open>toml.loads\<close> and \<open>toml.dumps\<close>
  are parameters. The SDK has a class \<open>LocalConfigurationError\<close> of its own, which is another
  exception (\<open>SdkLocalConfigurationError\<close>) than the one of \<open>config/exceptions.py\<close>.
\<close>

section \<open>State and operations\<close>

record path_config =
  pc_config_dir :: "string option"
  pc_log_dir :: "string option"
  pc_data_dir :: "string option"
  pc_key_dir :: "string option"
  pc_policy_dir :: "string option"

definition PathConfig :: path_config where
  "PathConfig = \<lparr>pc_config_dir = None, pc_log_dir = None, pc_data_dir = None, pc_key_dir = None, pc_policy_dir = None\<rparr>"

datatype config_file = Missing | Unreadable | Content string

record platform =
  pf_home :: "string option"
  pf_nt :: bool
  pf_base_dir :: string
  pf_join :: "string \<Rightarrow> string \<Rightarrow> string"
  pf_file :: "string \<Rightarrow> config_file"

definition posix_join :: "string \<Rightarrow> string \<Rightarrow> string" where
  "posix_join a b =
     (if b \<noteq> [] \<and> hd b = CHR ''/'' then b
      else if a = [] \<or> last a = CHR ''/'' then a @ b
      else a @ ''/'' @ b)"

definition get_default_path_config :: "platform \<Rightarrow> path_config" where
  "get_default_path_config pf =
     (case pf_home pf of
        Some home_dir \<Rightarrow> PathConfig
          \<lparr>pc_config_dir := Some (pf_join pf home_dir ''etc''), pc_log_dir := Some (pf_join pf home_dir ''logs''),
           pc_data_dir := Some (pf_join pf home_dir ''data''), pc_key_dir := Some (pf_join pf home_dir ''keys'')\<rparr>
      | None \<Rightarrow>
          if pf_nt pf then
            \<lparr>pc_config_dir = Some (pf_join pf (pf_base_dir pf) ''conf''), pc_log_dir = Some (pf_join pf (pf_base_dir pf) ''logs''),
             pc_data_dir = Some (pf_join pf (pf_base_dir pf) ''data''),
             pc_key_dir = Some (pf_join pf (pf_join pf (pf_base_dir pf) ''conf'') ''keys''),
             pc_policy_dir = Some (pf_join pf (pf_base_dir pf) ''policy'')\<rparr>
          else
            \<lparr>pc_config_dir = Some ''/etc/sawtooth'', pc_log_dir = Some ''/var/log/sawtooth'',
             pc_data_dir = Some ''/var/lib/sawtooth'', pc_key_dir = Some ''/etc/sawtooth/keys'',
             pc_policy_dir = Some ''/etc/sawtooth/policy''\<rparr>)"

definition VALID_KEYS :: "string list" where
  "VALID_KEYS = [''data_dir'', ''key_dir'', ''log_dir'', ''policy_dir'']"

definition load_toml_path_config ::
    "(string \<Rightarrow> (string, string) dict outcome) \<Rightarrow> platform \<Rightarrow> string \<Rightarrow> path_config outcome" where
  "load_toml_path_config toml pf filename =
     (case pf_file pf filename of
        Missing \<Rightarrow> Return PathConfig
      | Unreadable \<Rightarrow> Raise LocalConfigurationError
      | Content raw \<Rightarrow>
          obind (toml raw) (\<lambda>toml_config.
            if \<exists>k \<in> set (dkeys toml_config). k \<notin> set VALID_KEYS then Raise LocalConfigurationError
            else Return
              \<lparr>pc_config_dir = None, pc_log_dir = dget toml_config ''log_dir'', pc_data_dir = dget toml_config ''data_dir'',
               pc_key_dir = dget toml_config ''key_dir'', pc_policy_dir = dget toml_config ''policy_dir''\<rparr>))"

text \<open>\<open>if value is not None: target = value\<close>\<close>

definition prefer_set :: "'a option \<Rightarrow> 'a option \<Rightarrow> 'a option" where
  "prefer_set new old = (case new of None \<Rightarrow> old | Some _ \<Rightarrow> new)"

definition merge_step :: "path_config \<Rightarrow> path_config \<Rightarrow> path_config" where
  "merge_step config acc =
     \<lparr>pc_config_dir = prefer_set (pc_config_dir config) (pc_config_dir acc),
      pc_log_dir = prefer_set (pc_log_dir config) (pc_log_dir acc),
      pc_data_dir = prefer_set (pc_data_dir config) (pc_data_dir acc),
      pc_key_dir = prefer_set (pc_key_dir config) (pc_key_dir acc),
      pc_policy_dir = prefer_set (pc_policy_dir config) (pc_policy_dir acc)\<rparr>"

definition merge_path_config :: "path_config list \<Rightarrow> string option \<Rightarrow> path_config" where
  "merge_path_config configs config_dir_override =
     (let merged = fold merge_step (rev configs) PathConfig
      in merged\<lparr>pc_config_dir := prefer_set config_dir_override (pc_config_dir merged)\<rparr>)"

text \<open>\<open>os.path.join(None, ...)\<close> raises; the default configuration always has a directory.\<close>

definition load_path_config ::
    "(string \<Rightarrow> (string, string) dict outcome) \<Rightarrow> platform \<Rightarrow> string option \<Rightarrow> path_config outcome" where
  "load_path_config toml pf config_dir =
     (let default_config = get_default_path_config pf
      in case (case config_dir of None \<Rightarrow> pc_config_dir default_config | Some d \<Rightarrow> Some d) of
           None \<Rightarrow> Raise TypeError
         | Some dir \<Rightarrow>
             obind (load_toml_path_config toml pf (pf_join pf dir ''path.toml''))
               (\<lambda>toml_config. Return (merge_path_config [toml_config, default_config] config_dir)))"

definition to_dict :: "path_config \<Rightarrow> (string, string option) dict" where
  "to_dict c = [(''config_dir'', pc_config_dir c), (''key_dir'', pc_key_dir c), (''data_dir'', pc_data_dir c),
     (''log_dir'', pc_log_dir c), (''policy_dir'', pc_policy_dir c)]"

section \<open>The start of the program\<close>

datatype ending = Ended | Exit_Status int | Uncaught exn | Running

text \<open>\<open>main()\<close> with the arguments \<open>argv\<close>: \<open>driver\<close> is the outcome of the SDK's logging set-up and
  \<open>ZmqDriver.start\<close> on the engine, with the directories, the endpoint of the component, the endpoint
  to connect to and the verbosity that are handed on. The first handler names the SDK's
  \<open>LocalConfigurationError\<close>.\<close>

definition main :: "(string \<Rightarrow> (string, string) dict outcome) \<Rightarrow> platform \<Rightarrow> string list
    \<Rightarrow> (path_config \<Rightarrow> namespace \<Rightarrow> unit outcome) \<Rightarrow> ending" where
  "main toml pf argv driver =
     (case load_path_config toml pf None of
        Raise e \<Rightarrow> if e = SdkLocalConfigurationError then Exit_Status 1 else Uncaught e
      | Hang \<Rightarrow> Running
      | Return path_config \<Rightarrow>
          (case parse_args argv of
             Exit_With n \<Rightarrow> Exit_Status n
           | Crash e \<Rightarrow> Uncaught e
           | Parsed opts \<Rightarrow>
               (case driver path_config opts of Return _ \<Rightarrow> Ended | Raise _ \<Rightarrow> Ended | Hang \<Rightarrow> Running)))"

section \<open>Facts\<close>

text \<open>The first value that is set, in a list of settings.\<close>

fun first_some :: "'a option list \<Rightarrow> 'a option" where
  "first_some [] = None"
| "first_some (x # xs) = prefer_set x (first_some xs)"

lemma prefer_set_simps [simp]: "prefer_set None y = y" "prefer_set (Some x) y = Some x"
  by (simp_all add: prefer_set_def)

lemma merge_first_some:
  assumes "\<And>c a. f (merge_step c a) = prefer_set (f c) (f a)" "f PathConfig = None"
  shows "f (fold merge_step (rev configs) PathConfig) = first_some (map f configs)"
  by (induction configs) (simp_all add: assms)

lemma merge_fields:
  "pc_config_dir (fold merge_step (rev cs) PathConfig) = first_some (map pc_config_dir cs)"
  "pc_log_dir (fold merge_step (rev cs) PathConfig) = first_some (map pc_log_dir cs)"
  "pc_data_dir (fold merge_step (rev cs) PathConfig) = first_some (map pc_data_dir cs)"
  "pc_key_dir (fold merge_step (rev cs) PathConfig) = first_some (map pc_key_dir cs)"
  "pc_policy_dir (fold merge_step (rev cs) PathConfig) = first_some (map pc_policy_dir cs)"
  by (rule merge_first_some; simp add: merge_step_def PathConfig_def)+

lemma default_config_dir: "pc_config_dir (get_default_path_config pf) \<noteq> None"
  by (simp add: get_default_path_config_def split: option.split)

section \<open>Properties\<close>

text \<open>Merging gives every directory the value of the first configuration of the list that sets it,
  and the configuration directory the override when there is one.\<close>

theorem merge_takes_first:
  "pc_log_dir (merge_path_config cs d) = first_some (map pc_log_dir cs)
    \<and> pc_data_dir (merge_path_config cs d) = first_some (map pc_data_dir cs)
    \<and> pc_key_dir (merge_path_config cs d) = first_some (map pc_key_dir cs)
    \<and> pc_policy_dir (merge_path_config cs d) = first_some (map pc_policy_dir cs)
    \<and> pc_config_dir (merge_path_config cs d) = (case d of None \<Rightarrow> first_some (map pc_config_dir cs) | Some x \<Rightarrow> Some x)"
  by (simp add: merge_path_config_def Let_def merge_fields split: option.split)

text \<open>A mistake in the configuration file is not reported as the program means to: an unknown key, or
  an unreadable file, raises the package's \<open>LocalConfigurationError\<close>, which is not the SDK's class
  that \<open>main\<close> catches, so that the program ends with an uncaught exception instead of status 1, which
  it never reaches.\<close>

theorem config_error_uncaught:
  "(\<forall>dir. pc_config_dir (get_default_path_config pf) = Some dir \<longrightarrow>
      pf_file pf (pf_join pf dir ''path.toml'') = Unreadable
        \<or> (\<exists>raw d. pf_file pf (pf_join pf dir ''path.toml'') = Content raw \<and> toml raw = Return d
            \<and> (\<exists>k \<in> set (dkeys d). k \<notin> set VALID_KEYS)) \<longrightarrow>
      main toml pf argv driver = Uncaught LocalConfigurationError)
   \<and> ((\<forall>raw. toml raw \<noteq> Raise SdkLocalConfigurationError) \<longrightarrow> main toml pf argv driver \<noteq> Exit_Status 1)"
proof -
  obtain dir where dir: "pc_config_dir (get_default_path_config pf) = Some dir"
    using default_config_dir [of pf] by auto
  then have load: "load_path_config toml pf None = obind (load_toml_path_config toml pf (pf_join pf dir ''path.toml''))
      (\<lambda>c. Return (merge_path_config [c, get_default_path_config pf] None))"
    by (simp add: load_path_config_def Let_def)
  have "main toml pf argv driver = Uncaught LocalConfigurationError"
    if "pf_file pf (pf_join pf dir ''path.toml'') = Unreadable
        \<or> (\<exists>raw d. pf_file pf (pf_join pf dir ''path.toml'') = Content raw \<and> toml raw = Return d
            \<and> (\<exists>k \<in> set (dkeys d). k \<notin> set VALID_KEYS))"
    using that by (auto simp: main_def load load_toml_path_config_def)
  moreover have "main toml pf argv driver \<noteq> Exit_Status 1" if "\<forall>raw. toml raw \<noteq> Raise SdkLocalConfigurationError"
    using that parse_args_exit [of argv]
    by (auto simp: main_def load load_toml_path_config_def obind_def
        split: outcome.splits config_file.splits parsed.splits if_splits)
  ultimately show ?thesis using dir by auto
qed

definition bad_platform :: platform where
  "bad_platform = \<lparr>pf_home = None, pf_nt = False, pf_base_dir = '''', pf_join = posix_join,
     pf_file = (\<lambda>f. if f = ''/etc/sawtooth/path.toml'' then Content ''home_dir = 1'' else Missing)\<rparr>"

theorem config_error_uncaught_witness:
  "main (\<lambda>_. Return [(''home_dir'', ''1'')]) bad_platform [] (\<lambda>_ _. Return ()) = Uncaught LocalConfigurationError"
proof -
  have "pc_config_dir (get_default_path_config bad_platform) = Some ''/etc/sawtooth''"
    by (simp add: get_default_path_config_def bad_platform_def)
  moreover have "pf_file bad_platform (pf_join bad_platform ''/etc/sawtooth'' ''path.toml'') = Content ''home_dir = 1''"
    by (simp add: bad_platform_def posix_join_def)
  moreover have "\<exists>k \<in> set (dkeys [(''home_dir'', ''1'')]). k \<notin> set VALID_KEYS"
    by (simp add: dkeys_def VALID_KEYS_def)
  ultimately show ?thesis
    using config_error_uncaught [of bad_platform "\<lambda>_. Return [(''home_dir'', ''1'')]" "[]" "\<lambda>_ _. Return ()"] by blast
qed

text \<open>Loading succeeds whenever the file is missing or sets only known keys, and then every directory
  comes from the file when it is set there and from the default otherwise, the configuration
  directory from the argument when given.\<close>

theorem load_prefers_file:
  assumes "pc_config_dir (get_default_path_config pf) = Some dir"
    and "pf_file pf (pf_join pf (case d of None \<Rightarrow> dir | Some x \<Rightarrow> x) ''path.toml'') = Content raw" and "toml raw = Return t"
    and "set (dkeys t) \<subseteq> set VALID_KEYS"
  shows "\<exists>c. load_path_config toml pf d = Return c
    \<and> pc_log_dir c = prefer_set (dget t ''log_dir'') (pc_log_dir (get_default_path_config pf))
    \<and> pc_data_dir c = prefer_set (dget t ''data_dir'') (pc_data_dir (get_default_path_config pf))
    \<and> pc_key_dir c = prefer_set (dget t ''key_dir'') (pc_key_dir (get_default_path_config pf))
    \<and> pc_policy_dir c = prefer_set (dget t ''policy_dir'') (pc_policy_dir (get_default_path_config pf))
    \<and> pc_config_dir c = Some (case d of None \<Rightarrow> dir | Some x \<Rightarrow> x)"
proof -
  have keys: "\<not> (\<exists>k \<in> set (dkeys t). k \<notin> set VALID_KEYS)" using assms(4) by blast
  have r: "prefer_set x None = x" for x :: "'x option" by (cases x) simp_all
  show ?thesis
    using assms(1-3)
    by (cases d) (simp_all add: load_path_config_def Let_def load_toml_path_config_def keys merge_path_config_def
        merge_fields [of "[_, _]", simplified] r)
qed

theorem load_prefers_file_witness:
  "\<exists>c. load_path_config (\<lambda>_. Return [(''log_dir'', ''/log'')]) bad_platform None = Return c \<and> pc_log_dir c = Some ''/log''"
proof -
  have d: "pc_config_dir (get_default_path_config bad_platform) = Some ''/etc/sawtooth''"
    by (simp add: get_default_path_config_def bad_platform_def)
  have f: "pf_file bad_platform (pf_join bad_platform (case None of None \<Rightarrow> ''/etc/sawtooth'' | Some x \<Rightarrow> x) ''path.toml'')
      = Content ''home_dir = 1''"
    by (simp add: bad_platform_def posix_join_def)
  have k: "set (dkeys [(''log_dir'', ''/log'')]) \<subseteq> set VALID_KEYS" by (simp add: dkeys_def VALID_KEYS_def)
  show ?thesis
    using load_prefers_file [OF d f refl k] by (auto simp: dget_def)
qed

end
