(* ===== verification/Rendering.thy ===== *)
theory Rendering
  imports Epoch Peer_Node Path_Config Json Block_Cache
begin

text \<open>
  The texts that the program makes of its objects: Python's \<open>repr\<close> and the \<open>__repr__\<close>, \<open>__str__\<close> and
  logging functions that use it. Texts are Latin-1, byte strings print their bytes above 126 escaped.
  The text of a \<open>Queue\<close> shows its address, not its content, and is a parameter; so is \<open>toml.dumps\<close>.
\<close>

section \<open>Python's texts\<close>

definition code :: "char \<Rightarrow> nat" where
  "code c = of_char c"

text \<open>\<open>str.isprintable\<close> of one character.\<close>

definition printable :: "char \<Rightarrow> bool" where
  "printable c \<longleftrightarrow> 32 \<le> code c \<and> code c < 127 \<or> 160 < code c \<and> code c \<noteq> 173"

definition ascii_printable :: "char \<Rightarrow> bool" where
  "ascii_printable c \<longleftrightarrow> 32 \<le> code c \<and> code c < 127"

definition repr_quote :: "string \<Rightarrow> char" where
  "repr_quote s = (if CHR 0x27 \<in> set s \<and> CHR 0x22 \<notin> set s then CHR 0x22 else CHR 0x27)"

definition escape :: "(char \<Rightarrow> bool) \<Rightarrow> char \<Rightarrow> char \<Rightarrow> string" where
  "escape shown q c =
     (if c = q \<or> c = CHR 0x5C then [CHR 0x5C, c]
      else if c = CHR 0x09 then [CHR 0x5C, CHR ''t'']
      else if c = CHR 0x0A then [CHR 0x5C, CHR ''n'']
      else if c = CHR 0x0D then [CHR 0x5C, CHR ''r'']
      else if shown c then [c]
      else [CHR 0x5C, CHR ''x''] @ hex [c])"

definition repr_str :: "string \<Rightarrow> string" where
  "repr_str s = quoted (repr_quote s) (concat (List.map (escape printable (repr_quote s)) s))"

definition repr_bytes :: "bytes \<Rightarrow> string" where
  "repr_bytes s = CHR ''b'' # quoted (repr_quote s) (concat (List.map (escape ascii_printable (repr_quote s)) s))"

definition repr_option :: "string option \<Rightarrow> string" where
  "repr_option x = (case x of None \<Rightarrow> ''None'' | Some s \<Rightarrow> repr_str s)"

definition repr_bool :: "bool \<Rightarrow> string" where
  "repr_bool b = (if b then ''True'' else ''False'')"

definition repr_list :: "string list \<Rightarrow> string" where
  "repr_list xs = ''['' @ separated '', '' (List.map repr_str xs) @ '']''"

text \<open>\<open>str.strip\<close> and \<open>str.split\<close> at a character.\<close>

definition is_space :: "char \<Rightarrow> bool" where
  "is_space c \<longleftrightarrow> code c \<in> {9..13} \<union> {28..32} \<union> {133, 160}"

definition strip :: "string \<Rightarrow> string" where
  "strip s = rev (dropWhile is_space (rev (dropWhile is_space s)))"

fun split_at :: "char \<Rightarrow> string \<Rightarrow> string list" where
  "split_at c [] = [[]]"
| "split_at c (x # s) = (if x = c then [] # split_at c s
     else case split_at c s of l # ls \<Rightarrow> (x # l) # ls | [] \<Rightarrow> [[x]])"

section \<open>The program's texts\<close>

definition repr_path_config :: "path_config \<Rightarrow> string" where
  "repr_path_config c =
     ''PathConfig(config_dir='' @ repr_option (pc_config_dir c) @ '', log_dir='' @ repr_option (pc_log_dir c)
     @ '', data_dir='' @ repr_option (pc_data_dir c) @ '', key_dir='' @ repr_option (pc_key_dir c)
     @ '', policy_dir='' @ repr_option (pc_policy_dir c) @ '')''"

definition to_toml_string :: "((string, string option) dict \<Rightarrow> string) \<Rightarrow> path_config \<Rightarrow> string list" where
  "to_toml_string dumps c = split_at (CHR 0x0A) (strip (dumps (to_dict c)))"

definition repr_peer :: "peer_node \<Rightarrow> string" where
  "repr_peer p = ''peer('' @ pn_key p @ '', online='' @ repr_bool (pn_online p) @ '')''"

definition str_epoch :: "string \<Rightarrow> epoch \<Rightarrow> string" where
  "str_epoch queue e = ''Epoch('' @ separated '', ''
     [''Number: '' @ show_int (ep_number e), ''Current witness idx: '' @ show_int (ep_witness_idx e),
      ''Candidates: '' @ queue, ''WItnesses: '' @ repr_list (ep_witnesses e)] @ '')''"

text \<open>What \<open>log_block\<close> logs.\<close>

definition log_block :: "block \<Rightarrow> string" where
  "log_block b = ''Block('' @ separated '', ''
     [''block_num: '' @ show_int (b_block_num b), ''block_id: '' @ hex (b_block_id b),
      ''previous_id: '' @ hex (b_previous_id b), ''signer_id: '' @ hex (b_signer_id b),
      ''payload: '' @ repr_bytes (b_payload b), ''summary: '' @ hex (b_summary b)] @ '')''"

section \<open>Facts\<close>

lemma split_at_nonempty: "split_at c s \<noteq> []"
  by (cases s) (auto split: list.split)

lemma separated_split_at: "separated [c] (split_at c s) = s"
proof (induction s)
  case (Cons x s)
  obtain l ls where r: "split_at c s = l # ls" using split_at_nonempty [of c s] by (cases "split_at c s") auto
  with Cons show ?case by (cases ls) auto
qed simp

lemma split_at_lines: "l \<in> set (split_at c s) \<Longrightarrow> c \<notin> set l"
  by (induction c s arbitrary: l rule: split_at.induct) (auto split: if_splits list.splits)

text \<open>The lines of \<open>to_toml_string\<close> are lines, and together the stripped text.\<close>

lemma to_toml_string_lines:
  "separated [CHR 0x0A] (to_toml_string dumps c) = strip (dumps (to_dict c))
    \<and> (\<forall>l \<in> set (to_toml_string dumps c). CHR 0x0A \<notin> set l)"
  by (simp add: to_toml_string_def separated_split_at) (auto dest: split_at_lines)

text \<open>Lists of plain texts print as the lists of the deployment's settings.\<close>

definition plain_text :: "string \<Rightarrow> bool" where
  "plain_text s \<longleftrightarrow> (\<forall>c \<in> set s. printable c \<and> c \<notin> {CHR 0x27, CHR 0x5C})"

lemma concat_map_single: "(\<And>x. x \<in> set xs \<Longrightarrow> f x = [x]) \<Longrightarrow> concat (List.map f xs) = xs"
  by (induction xs) simp_all

lemma controls_not_printable: "\<not> printable (CHR 0x09)" "\<not> printable (CHR 0x0A)" "\<not> printable (CHR 0x0D)"
  by (simp_all add: printable_def code_def)

lemma repr_plain: "plain_text s \<Longrightarrow> repr_str s = quoted (CHR 0x27) s"
proof -
  assume s: "plain_text s"
  have "escape printable (CHR 0x27) c = [c]" if "c \<in> set s" for c
  proof -
    have c: "printable c" "c \<noteq> CHR 0x27" "c \<noteq> CHR 0x5C" using that s by (simp_all add: plain_text_def)
    then have "c \<noteq> CHR 0x09" "c \<noteq> CHR 0x0A" "c \<noteq> CHR 0x0D" using controls_not_printable by metis+
    with c show ?thesis by (simp add: escape_def)
  qed
  then have "concat (List.map (escape printable (CHR 0x27)) s) = s" by (rule concat_map_single)
  moreover have "repr_quote s = CHR 0x27" using s by (auto simp: repr_quote_def plain_text_def)
  ultimately show ?thesis by (simp add: repr_str_def)
qed

lemma repr_list_plain: "\<forall>s \<in> set xs. plain_text s \<Longrightarrow> repr_list xs = list_setting (CHR 0x27) '', '' xs"
  by (simp add: repr_list_def list_setting_def repr_plain cong: map_cong)

end
