(* ===== verification/Pod_Logs.thy ===== *)
theory Pod_Logs
  imports Config_Utils
begin

text \<open>
  \<open>parse_kubernetes_logs.py\<close>: a terminal tab with the logs of every engine of the cluster. The pods are
  the answer of the Kubernetes client, the identifiers of the tabs that of the terminal (\<open>create\<close>, by the
  number of the command). A function yields the calls on the terminal in order; printing is left out.
\<close>

record pod =
  pod_name :: string
  pod_namespace :: string
  pod_containers :: "string list"

definition ENGINE_CONTAINER :: string where
  "ENGINE_CONTAINER = ''sawtooth-dpos-engine''"

definition get_commands :: "pod list \<Rightarrow> string list" where
  "get_commands pods = concat (List.map (\<lambda>i.
     if pod_namespace i = ''default''
     then List.map (\<lambda>c. ''/usr/local/bin/kubectl logs -f '' @ pod_name i @ '' -c sawtooth-dpos-engine'')
       (filter (\<lambda>c. c = ENGINE_CONTAINER) (pod_containers i))
     else []) pods)"

datatype tab_call = Create_Tab string | Set_Title string string | Activate_Window | Activate_App | Close_Tab string

fun show_loop :: "(nat \<Rightarrow> string option) \<Rightarrow> nat \<Rightarrow> string list \<Rightarrow> string list \<Rightarrow> tab_call list \<times> string list" where
  "show_loop create idx [] tabs = ([], tabs)"
| "show_loop create idx (c # cs) tabs =
     (case create idx of
        Some t \<Rightarrow> (case show_loop create (Suc idx) cs (tabs @ [t]) of
          (calls, tabs') \<Rightarrow> (Create_Tab c # Set_Title t (''Pod '' @ show_nat idx) # calls, tabs'))
      | None \<Rightarrow> (case show_loop create (Suc idx) cs tabs of (calls, tabs') \<Rightarrow> (Create_Tab c # calls, tabs')))"

definition show_logs_in_tab :: "(nat \<Rightarrow> string option) \<Rightarrow> string list \<Rightarrow> string list \<Rightarrow> tab_call list \<times> string list" where
  "show_logs_in_tab create commands tabs =
     (case show_loop create 0 commands tabs of (calls, tabs') \<Rightarrow> (calls @ [Activate_Window], tabs'))"

text \<open>\<open>window\<close> says whether the terminal has a current window.\<close>

definition show_main :: "bool \<Rightarrow> pod list \<Rightarrow> (nat \<Rightarrow> string option) \<Rightarrow> string list \<Rightarrow> tab_call list \<times> string list" where
  "show_main window pods create tabs =
     (if window then (case show_logs_in_tab create (get_commands pods) tabs of (calls, tabs') \<Rightarrow> (Activate_App # calls, tabs'))
      else ([Activate_App], tabs))"

definition terminate_tabs :: "string list option \<Rightarrow> string list \<Rightarrow> tab_call list" where
  "terminate_tabs window tabs =
     (case window of Some ids \<Rightarrow> List.map Close_Tab (filter (\<lambda>t. t \<in> set tabs) ids) | None \<Rightarrow> [])"

section \<open>Facts\<close>

lemma show_loop_tabs: "snd (show_loop create idx cs tabs) = tabs @ List.map_filter create [idx..<idx + length cs]"
proof (induction cs arbitrary: idx tabs)
  case (Cons c cs)
  have "snd (show_loop create idx (c # cs) tabs) = tabs @ List.map_filter create (idx # [Suc idx..<Suc idx + length cs])"
    by (cases "create idx") (simp_all only: show_loop.simps option.case case_prod_beta snd_conv Cons.IH map_filter_simps append_assoc append.simps)
  moreover have "idx # [Suc idx..<Suc idx + length cs] = [idx..<idx + length (c # cs)]"
    by (subst upt_conv_Cons [of idx]) simp_all
  ultimately show ?case by (simp only:)
qed (simp add: map_filter_simps)

text \<open>At the end exactly the tabs that the script opened are closed.\<close>

lemma terminate_closes_opened:
  assumes "show_main True pods create [] = (calls, tabs)"
  shows "terminate_tabs (Some ids) tabs = List.map Close_Tab
    (filter (\<lambda>t. \<exists>i < length (get_commands pods). create i = Some t) ids)"
proof -
  have "tabs = List.map_filter create [0..<length (get_commands pods)]"
    using assms show_loop_tabs [of create 0 "get_commands pods" "[]"]
    by (auto simp: show_main_def show_logs_in_tab_def split: prod.splits)
  then have "set tabs = {t. \<exists>i < length (get_commands pods). create i = Some t}"
    by (auto simp: map_filter_def image_iff) (metis atLeastLessThan_iff le0 option.sel option.distinct(1))
  then show ?thesis by (simp add: terminate_tabs_def)
qed

text \<open>The deployment calls the container of an engine \<open>sawtooth-ddpoa-engine\<close>, so that the script finds none.\<close>

lemma no_engine_found:
  assumes "\<forall>i \<in> set pods. set (pod_containers i) \<subseteq> {''sawtooth-intkey-tp-python'', ''sawtooth-ddpoa-engine'',
    ''sawtooth-rest-api'', ''sawtooth-settings-tp'', ''sawtooth-shell'', ''sawtooth-validator''}"
  shows "get_commands pods = []"
proof -
  have "ENGINE_CONTAINER \<notin> set (pod_containers i)" if "i \<in> set pods" for i
    using assms that by (auto simp: ENGINE_CONTAINER_def)
  then have "filter (\<lambda>c. c = ENGINE_CONTAINER) (pod_containers i) = []" if "i \<in> set pods" for i
    using that by (auto simp: filter_empty_conv)
  then show ?thesis by (auto simp: get_commands_def)
qed

end
